(* ===== verification/Hux_Prelude.thy ===== *)
theory Hux_Prelude
  imports Main "HOL-Library.Word" "HOL-Library.Multiset" "HOL-Library.Monad_Syntax"
begin

text \<open>
  Shared vocabulary of the development: the machine-integer types, bounded reads of
  byte buffers, the little-endian fixed-width codec that every wire format of HUX uses, and
  the generic lemmas on lists, options and words that the component theories share.

  A buffer read is option-valued: \<open>None\<close> stands for a read outside the buffer, which in the
  C++ source is undefined behaviour. A decoder that is shown never to yield \<open>None\<close> never
  reads outside the bytes it was given.
\<close>

unbundle bit_operations_syntax

type_synonym u8 = "8 word"
type_synonym u16 = "16 word"
type_synonym u32 = "32 word"
type_synonym u64 = "64 word"
type_synonym bytes = "u8 list"

named_theorems codec_len \<open>lengths of encodings\<close>
named_theorems codec_rt \<open>round trips of the fixed-width fields\<close>

section \<open>Bounded reads\<close>

definition rd :: "bytes \<Rightarrow> nat \<Rightarrow> u8 option" where
  "rd bs i = (if i < length bs then Some (bs ! i) else None)"

lemma rd_append_left [simp]: "i < length xs \<Longrightarrow> rd (xs @ ys) i = rd xs i"
  by (simp add: rd_def nth_append)

lemma rd_append_right [simp]: "length xs \<le> i \<Longrightarrow> rd (xs @ ys) i = rd ys (i - length xs)"
  by (auto simp: rd_def nth_append)

lemma rd_in_range [simp]: "i < length bs \<Longrightarrow> rd bs i = Some (bs ! i)"
  by (simp add: rd_def)

text \<open>A contiguous piece, read as a whole: \<open>std::vector(p + at, p + at + n)\<close>.\<close>

definition rd_range :: "bytes \<Rightarrow> nat \<Rightarrow> nat \<Rightarrow> bytes option" where
  "rd_range bs at n = (if at + n \<le> length bs then Some (take n (drop at bs)) else None)"

lemma rd_range_in [simp]: "at + n \<le> length bs \<Longrightarrow> rd_range bs at n = Some (take n (drop at bs))"
  by (simp add: rd_range_def)

section \<open>Little-endian fixed-width fields\<close>

text \<open>
  \<open>put_u16\<close>, \<open>put_u32\<close> and \<open>put_u64\<close> push the bytes of a value, lowest first; \<open>get_*\<close>
  reassembles them with shifts and ors. The source repeats the same few functions in each
  file that has a wire format.
\<close>

definition put_le :: "nat \<Rightarrow> 'a::len word \<Rightarrow> bytes" where
  "put_le n v = map (\<lambda>i. ucast (drop_bit (8 * i) v AND 0xff)) [0..<n]"

primrec get_le :: "nat \<Rightarrow> bytes \<Rightarrow> nat \<Rightarrow> 'a::len word option" where
  "get_le 0 bs at = Some 0"
| "get_le (Suc n) bs at = do {
     v \<leftarrow> get_le n bs at;
     b \<leftarrow> rd bs (at + n);
     Some (v OR push_bit (8 * n) (ucast b)) }"

definition put_u16 :: "u16 \<Rightarrow> bytes" where
  "put_u16 v = [ucast (v AND 0xff), ucast (drop_bit 8 v AND 0xff)]"

definition put_u32 :: "u32 \<Rightarrow> bytes" where
  "put_u32 v = put_le 4 v"

definition put_u64 :: "u64 \<Rightarrow> bytes" where
  "put_u64 v = put_le 8 v"

definition get_u16 :: "bytes \<Rightarrow> nat \<Rightarrow> u16 option" where
  "get_u16 bs at = do {
     a \<leftarrow> rd bs at;
     b \<leftarrow> rd bs (at + 1);
     Some (ucast a OR push_bit 8 (ucast b)) }"

definition get_u32 :: "bytes \<Rightarrow> nat \<Rightarrow> u32 option" where
  "get_u32 bs at = get_le 4 bs at"

definition get_u64 :: "bytes \<Rightarrow> nat \<Rightarrow> u64 option" where
  "get_u64 bs at = get_le 8 bs at"

lemma length_put_le [codec_len, simp]: "length (put_le n v) = n"
  by (simp add: put_le_def)

lemma length_put_u16 [codec_len, simp]: "length (put_u16 v) = 2"
  by (simp add: put_u16_def)

lemma length_put_u32 [codec_len, simp]: "length (put_u32 v) = 4"
  by (simp add: put_u32_def)

lemma length_put_u64 [codec_len, simp]: "length (put_u64 v) = 8"
  by (simp add: put_u64_def)

lemma get_le_Some: "at + n \<le> length bs \<Longrightarrow> \<exists>v. get_le n bs at = Some v"
  by (induction n) auto

lemma get_le_None: "0 < n \<Longrightarrow> length bs < at + n \<Longrightarrow> get_le n bs at = None"
proof (induction n)
  case (Suc n)
  show ?case
  proof (cases "length bs < at + n")
    case True
    with Suc show ?thesis
      by (cases "0 < n") (auto simp: rd_def split: Option.bind_splits)
  next
    case False
    with Suc.prems show ?thesis
      by (auto simp: rd_def split: Option.bind_splits)
  qed
qed simp

text \<open>The value read from bytes that were written: bits below the field's width survive.\<close>

lemma get_le_put_le_aux:
  fixes v :: "'a::len word"
  assumes "n \<le> m"
  shows "get_le n (pre @ put_le m v @ post) (length pre) = Some (take_bit (8 * n) v)"
  using assms
proof (induction n)
  case 0
  show ?case by simp
next
  case (Suc n)
  have rdn: "rd (pre @ put_le m v @ post) (length pre + n) = Some (ucast (drop_bit (8 * n) v AND 0xff))"
    using Suc.prems by (simp add: rd_def nth_append put_le_def)
  have ff: "(0xff :: 'a word) = mask 8"
    by (simp add: mask_eq_exp_minus_1)
  have "take_bit (8 * n) v OR push_bit (8 * n) (ucast (ucast (drop_bit (8 * n) v AND 0xff) :: u8))
      = take_bit (8 * Suc n) v"
    by (rule bit_word_eqI)
      (auto simp: ff bit_simps dest: bit_imp_le_length)
  with Suc rdn show ?case by simp
qed

lemma get_le_put_le:
  fixes v :: "'a::len word"
  assumes "LENGTH('a) = 8 * n"
  shows "get_le n (pre @ put_le n v @ post) (length pre) = Some v"
proof -
  have "take_bit (8 * n) v = v"
    using assms by (metis take_bit_length_eq)
  then show ?thesis
    using get_le_put_le_aux [of n n pre v post] by simp
qed

lemma get_u32_put: "get_u32 (pre @ put_u32 v @ post) (length pre) = Some v"
  unfolding get_u32_def put_u32_def by (rule get_le_put_le) simp

lemma get_u64_put: "get_u64 (pre @ put_u64 v @ post) (length pre) = Some v"
  unfolding get_u64_def put_u64_def by (rule get_le_put_le) simp

lemma get_u16_put: "get_u16 (pre @ put_u16 v @ post) (length pre) = Some v"
proof -
  have ff: "(0xff :: u16) = mask 8"
    by (simp add: mask_eq_exp_minus_1)
  have "ucast (ucast (v AND 0xff) :: u8) OR push_bit 8 (ucast (ucast (drop_bit 8 v AND 0xff) :: u8)) = v"
    by (rule bit_word_eqI) (auto simp: ff bit_simps dest: bit_imp_le_length)
  then show ?thesis
    by (simp add: get_u16_def put_u16_def rd_def nth_append)
qed

text \<open>
  How the decoders use the round trips: a read skips the fields written before its own, then
  meets it at offset 0.
\<close>

lemma get_le_skip: "length xs \<le> at \<Longrightarrow> get_le n (xs @ ys) at = get_le n ys (at - length xs)"
  by (induction n) simp_all

lemma get_u16_skip [codec_rt]: "length xs \<le> at \<Longrightarrow> get_u16 (xs @ ys) at = get_u16 ys (at - length xs)"
  by (simp add: get_u16_def Suc_diff_le)

lemma get_u32_skip [codec_rt]: "length xs \<le> at \<Longrightarrow> get_u32 (xs @ ys) at = get_u32 ys (at - length xs)"
  by (simp add: get_u32_def get_le_skip)

lemma get_u64_skip [codec_rt]: "length xs \<le> at \<Longrightarrow> get_u64 (xs @ ys) at = get_u64 ys (at - length xs)"
  by (simp add: get_u64_def get_le_skip)

lemma rd_range_skip [codec_rt]: "length xs \<le> at \<Longrightarrow> rd_range (xs @ ys) at n = rd_range ys (at - length xs) n"
  by (auto simp: rd_range_def)

lemma get_u16_0 [codec_rt]: "get_u16 (put_u16 v @ ys) 0 = Some v" "get_u16 (put_u16 v) 0 = Some v"
  using get_u16_put [of "[]" v ys] get_u16_put [of "[]" v "[]"] by simp_all

lemma get_u32_0 [codec_rt]: "get_u32 (put_u32 v @ ys) 0 = Some v" "get_u32 (put_u32 v) 0 = Some v"
  using get_u32_put [of "[]" v ys] get_u32_put [of "[]" v "[]"] by simp_all

lemma get_u64_0 [codec_rt]: "get_u64 (put_u64 v @ ys) 0 = Some v" "get_u64 (put_u64 v) 0 = Some v"
  using get_u64_put [of "[]" v ys] get_u64_put [of "[]" v "[]"] by simp_all

lemma rd_range_0 [codec_rt]: "n = length xs \<Longrightarrow> rd_range (xs @ ys) 0 n = Some xs"
  by simp

lemma get_u16_in: "at + 2 \<le> length bs \<Longrightarrow> \<exists>v. get_u16 bs at = Some v"
  by (simp add: get_u16_def)

lemma get_u32_in: "at + 4 \<le> length bs \<Longrightarrow> \<exists>v. get_u32 bs at = Some v"
  unfolding get_u32_def by (rule get_le_Some)

lemma get_u64_in: "at + 8 \<le> length bs \<Longrightarrow> \<exists>v. get_u64 bs at = Some v"
  unfolding get_u64_def by (rule get_le_Some)

lemma get_u16_out: "length bs < at + 2 \<Longrightarrow> get_u16 bs at = None"
  by (auto simp: get_u16_def rd_def split: Option.bind_splits)

lemma get_u32_out: "length bs < at + 4 \<Longrightarrow> get_u32 bs at = None"
  unfolding get_u32_def by (rule get_le_None) auto

lemma get_u64_out: "length bs < at + 8 \<Longrightarrow> get_u64 bs at = None"
  unfolding get_u64_def by (rule get_le_None) auto

text \<open>Decoders answer \<open>None\<close> for a read outside the buffer, and otherwise a status or a value.\<close>

abbreviation refuse :: "'e \<Rightarrow> ('e + 'a) option" where "refuse e \<equiv> Some (Inl e)"
abbreviation accept :: "'a \<Rightarrow> ('e + 'a) option" where "accept x \<equiv> Some (Inr x)"

lemmas get_in_range = get_u16_in get_u32_in get_u64_in

section \<open>Strings as bytes\<close>

text \<open>\<open>std::string\<close> holds bytes; names cross the wire byte for byte.\<close>

definition string_bytes :: "string \<Rightarrow> bytes" where
  "string_bytes s = map (\<lambda>c. word_of_nat (of_char c)) s"

definition bytes_string :: "bytes \<Rightarrow> string" where
  "bytes_string bs = map (\<lambda>b. char_of (unat b)) bs"

lemma length_string_bytes [codec_len, simp]: "length (string_bytes s) = length s"
  by (simp add: string_bytes_def)

lemma bytes_string_bytes [simp]: "bytes_string (string_bytes s) = s"
  by (induction s) (simp_all add: string_bytes_def bytes_string_def unat_of_nat)

lemma string_bytes_string [simp]: "string_bytes (bytes_string bs) = bs"
proof -
  have "word_of_nat (of_char (char_of (unat b) :: char)) = b" for b :: u8
  proof -
    have "unat b < 2 ^ LENGTH(8)" by (rule unsigned_less)
    then show ?thesis by simp
  qed
  then show ?thesis
    by (simp add: string_bytes_def bytes_string_def o_def)
qed

section \<open>Words\<close>

lemma unat_less: "unat (w :: 'a::len word) < 2 ^ LENGTH('a)"
  by (rule unsigned_less)

lemma unat_sub_le [simp]: "b \<le> a \<Longrightarrow> unat (a - b :: 'a::len word) = unat a - unat b"
  by (rule unat_sub)

lemma unat_add_small:
  "unat a + unat b < 2 ^ LENGTH('a) \<Longrightarrow> unat (a + b :: 'a::len word) = unat a + unat b"
  by (simp add: unat_word_ariths)

lemma unat_suc: "c < a \<Longrightarrow> unat (c + 1 :: 'a::len word) = Suc (unat c)"
  using unat_add_small [of c 1] unat_less [of a] by (simp add: word_less_nat_alt)

text \<open>
  The guard HUX writes wherever it checks a range: compared before adding, so that a
  wrapping sum cannot pass. It says exactly that the unbounded sum fits.
\<close>

lemma no_wrap_range_iff:
  fixes off len cap :: "'a::len word"
  shows "(off \<le> cap \<and> len \<le> cap - off) \<longleftrightarrow> unat off + unat len \<le> unat cap"
proof (cases "off \<le> cap")
  case True
  then have "unat (cap - off) = unat cap - unat off" by (rule unat_sub)
  with True show ?thesis by (auto simp: word_le_nat_alt)
next
  case False
  then show ?thesis by (auto simp: word_le_nat_alt)
qed

section \<open>Lists\<close>

lemma mset_concat_update:
  "i < length xs \<Longrightarrow>
   mset (concat (map f (xs[i := x]))) + mset (f (xs ! i)) = mset (concat (map f xs)) + mset (f x)"
proof (induction xs arbitrary: i)
  case (Cons a xs)
  then show ?case by (cases i) (auto simp: add.assoc add.left_commute)
qed simp

lemma sum_list_take_drop: "sum_list (take n xs) + sum_list (drop n xs) = (sum_list xs :: 'a::comm_monoid_add)"
  by (metis append_take_drop_id sum_list_append)

end
