(* ===== verification/Hux_Types.thy ===== *)
theory Hux_Types
  imports Hux_Prelude
begin

text \<open>
  The public vocabulary: include/hux/types.h, status.h and config.h, with the enumerations of
  request.h, peer.h and notification.h that core/strings.cpp prints. Out-parameters of the
  source are results here; a function that fails returns \<open>Inl\<close> of its status.
\<close>

section \<open>Identifiers\<close>

type_synonym peer_id = u64
type_synonym region_id = u64
type_synonym request_id = u64
type_synonym notification_id = u64
type_synonym generation = u32
type_synonym epoch = u32
type_synonym addr = u64

section \<open>Status and error detail (status.h)\<close>

datatype status =
    kOk | kWouldBlock | kTimeout | kCancelled | kUnsupported | kInvalidArgument
  | kOutOfRange | kNotFound | kStaleGeneration | kPeerDisconnected | kResourceExhausted
  | kDeviceError | kTransportError | kInternal

type_synonym 'a result = "status + 'a"

record error_info =
  ei_status :: status
  ei_provider :: string
  ei_peer_id :: u64
  ei_errno :: int
  ei_may_have_modified_target :: bool
  ei_detail :: string

definition no_error :: error_info where
  "no_error = \<lparr>ei_status = kOk, ei_provider = '''', ei_peer_id = 0, ei_errno = 0,
     ei_may_have_modified_target = False, ei_detail = ''''\<rparr>"

definition ei_ok :: "error_info \<Rightarrow> bool" where
  "ei_ok e \<longleftrightarrow> ei_status e = kOk"

lemma ei_ok_no_error [simp]: "ei_ok no_error"
  by (simp add: ei_ok_def no_error_def)

section \<open>Devices and memory (types.h)\<close>

text \<open>
  \<open>DeviceKind\<close> has a fixed underlying type, so a value cast from a wire byte may be none of
  the named constants; such a value is \<open>DeviceKindRaw\<close>.
\<close>

datatype device_kind = kHost | kCuda | kRocm | kCambricon | kMoore | kKunlun | DeviceKindRaw u8

fun device_kind_byte :: "device_kind \<Rightarrow> u8" where
  "device_kind_byte kHost = 0"
| "device_kind_byte kCuda = 1"
| "device_kind_byte kRocm = 2"
| "device_kind_byte kCambricon = 3"
| "device_kind_byte kMoore = 4"
| "device_kind_byte kKunlun = 5"
| "device_kind_byte (DeviceKindRaw b) = b"

definition device_kind_of_byte :: "u8 \<Rightarrow> device_kind" where
  "device_kind_of_byte b =
     (if b = 0 then kHost else if b = 1 then kCuda else if b = 2 then kRocm
      else if b = 3 then kCambricon else if b = 4 then kMoore else if b = 5 then kKunlun
      else DeviceKindRaw b)"

definition device_kind_named :: "device_kind \<Rightarrow> bool" where
  "device_kind_named k = (case k of DeviceKindRaw _ \<Rightarrow> False | _ \<Rightarrow> True)"

lemma device_kind_byte_of_byte [simp]: "device_kind_byte (device_kind_of_byte b) = b"
  by (simp add: device_kind_of_byte_def)

lemma device_kind_of_byte_byte [simp]:
  "device_kind_named k \<Longrightarrow> device_kind_of_byte (device_kind_byte k) = k"
  by (cases k) (simp_all add: device_kind_of_byte_def device_kind_named_def)

datatype memory_kind = kHostPageable | kHostPinned | kDevice

record device_id =
  dev_kind :: device_kind
  dev_index :: u32

definition host_device :: device_id where
  "host_device = \<lparr>dev_kind = kHost, dev_index = 0\<rparr>"

section \<open>Access flags\<close>

type_synonym access_flags = u32

definition kNone :: access_flags where "kNone = 0"
definition kLocalRead :: access_flags where "kLocalRead = push_bit 0 1"
definition kLocalWrite :: access_flags where "kLocalWrite = push_bit 1 1"
definition kRemoteRead :: access_flags where "kRemoteRead = push_bit 2 1"
definition kRemoteWrite :: access_flags where "kRemoteWrite = push_bit 3 1"

lemmas access_consts = kNone_def kLocalRead_def kLocalWrite_def kRemoteRead_def kRemoteWrite_def

definition has_flag :: "access_flags \<Rightarrow> access_flags \<Rightarrow> bool" where
  "has_flag s b \<longleftrightarrow> s AND b \<noteq> 0"

lemma has_flag_bits:
  "has_flag s kLocalRead \<longleftrightarrow> bit s 0" "has_flag s kLocalWrite \<longleftrightarrow> bit s 1"
  "has_flag s kRemoteRead \<longleftrightarrow> bit s 2" "has_flag s kRemoteWrite \<longleftrightarrow> bit s 3"
  unfolding has_flag_def access_consts
  by (simp_all only: bit_iff_and_push_bit_not_eq_0)

section \<open>Spans\<close>

record span =
  sp_offset :: u64
  sp_length :: u64

definition span_within :: "span \<Rightarrow> u64 \<Rightarrow> bool" where
  "span_within s tot \<longleftrightarrow> sp_offset s \<le> tot \<and> sp_length s \<le> tot - sp_offset s"

lemma span_within_iff: "span_within s tot \<longleftrightarrow> unat (sp_offset s) + unat (sp_length s) \<le> unat tot"
  unfolding span_within_def by (rule no_wrap_range_iff)

text \<open>A range that is within a region: its end does not wrap, and every byte is in it.\<close>

lemma span_within_no_wrap:
  assumes "span_within s tot"
  shows "unat (sp_offset s + sp_length s) = unat (sp_offset s) + unat (sp_length s)"
  using assms unat_less [of tot]
  by (intro unat_add_small) (simp add: span_within_iff)

end
