(* ===== verification/Hux_Config.thy ===== *)
theory Hux_Config
  imports Hux_Types
begin

text \<open>
  include/hux/config.h with core/strings.cpp: the enumerations of the public headers and the
  names they are printed under, the engine configuration, its one-line report and its
  validation. Constructors that several enumerations of the source share carry the
  enumeration's initials (\<open>RS_\<close> for RequestState, \<open>ST_\<close> for Stage, and so on).
\<close>

section \<open>Enumerations of the public headers\<close>

datatype stage =
  ST_kAccepted | ST_kSourceReusable | ST_kTransferComplete | ST_kTargetReady
| ST_kFailedSafe | ST_kCancelledSafe

datatype request_state =
  RS_kQueued | RS_kWaitDependency | RS_kInflight | RS_kWaitTargetReady | RS_kWaitNotifyAck
| RS_kDraining | RS_kSucceeded | RS_kFailed | RS_kCancelled

datatype delivery_state = DS_kPending | DS_kDelivered | DS_kFailed | DS_kIndeterminate
datatype path_kind = PK_kUnknown | PK_kSameProcess | PK_kIpc | PK_kRdma | PK_kUcx
datatype peer_place = PP_kUnknown | PP_kSameProcess | PP_kSameHost | PP_kAnotherHost
datatype progress_mode = kThread | kExplicit
datatype congestion_control = kOff | kFixedWindow | kAdaptive

definition is_terminal :: "request_state \<Rightarrow> bool" where
  "is_terminal s \<longleftrightarrow> s = RS_kSucceeded \<or> s = RS_kFailed \<or> s = RS_kCancelled"

section \<open>Printed names\<close>

fun status_to_string :: "status \<Rightarrow> string" where
  "status_to_string kOk = ''ok''"
| "status_to_string kWouldBlock = ''would_block''"
| "status_to_string kTimeout = ''timeout''"
| "status_to_string kCancelled = ''cancelled''"
| "status_to_string kUnsupported = ''unsupported''"
| "status_to_string kInvalidArgument = ''invalid_argument''"
| "status_to_string kOutOfRange = ''out_of_range''"
| "status_to_string kNotFound = ''not_found''"
| "status_to_string kStaleGeneration = ''stale_generation''"
| "status_to_string kPeerDisconnected = ''peer_disconnected''"
| "status_to_string kResourceExhausted = ''resource_exhausted''"
| "status_to_string kDeviceError = ''device_error''"
| "status_to_string kTransportError = ''transport_error''"
| "status_to_string kInternal = ''internal''"

fun stage_to_string :: "stage \<Rightarrow> string" where
  "stage_to_string ST_kAccepted = ''accepted''"
| "stage_to_string ST_kSourceReusable = ''source_reusable''"
| "stage_to_string ST_kTransferComplete = ''transfer_complete''"
| "stage_to_string ST_kTargetReady = ''target_ready''"
| "stage_to_string ST_kFailedSafe = ''failed_safe''"
| "stage_to_string ST_kCancelledSafe = ''cancelled_safe''"

fun request_state_to_string :: "request_state \<Rightarrow> string" where
  "request_state_to_string RS_kQueued = ''queued''"
| "request_state_to_string RS_kWaitDependency = ''wait_dependency''"
| "request_state_to_string RS_kInflight = ''inflight''"
| "request_state_to_string RS_kWaitTargetReady = ''wait_target_ready''"
| "request_state_to_string RS_kWaitNotifyAck = ''wait_notify_ack''"
| "request_state_to_string RS_kDraining = ''draining''"
| "request_state_to_string RS_kSucceeded = ''succeeded''"
| "request_state_to_string RS_kFailed = ''failed''"
| "request_state_to_string RS_kCancelled = ''cancelled''"

fun delivery_state_to_string :: "delivery_state \<Rightarrow> string" where
  "delivery_state_to_string DS_kPending = ''pending''"
| "delivery_state_to_string DS_kDelivered = ''delivered''"
| "delivery_state_to_string DS_kFailed = ''failed''"
| "delivery_state_to_string DS_kIndeterminate = ''indeterminate''"

fun path_kind_to_string :: "path_kind \<Rightarrow> string" where
  "path_kind_to_string PK_kUnknown = ''unknown''"
| "path_kind_to_string PK_kSameProcess = ''same_process''"
| "path_kind_to_string PK_kIpc = ''ipc''"
| "path_kind_to_string PK_kRdma = ''rdma''"
| "path_kind_to_string PK_kUcx = ''ucx''"

fun peer_place_to_string :: "peer_place \<Rightarrow> string" where
  "peer_place_to_string PP_kSameProcess = ''same_process''"
| "peer_place_to_string PP_kSameHost = ''same_host''"
| "peer_place_to_string PP_kAnotherHost = ''another_host''"
| "peer_place_to_string PP_kUnknown = ''unknown''"

definition progress_name :: "progress_mode \<Rightarrow> string" where
  "progress_name m = (if m = kThread then ''thread'' else ''explicit'')"

fun cc_name :: "congestion_control \<Rightarrow> string" where
  "cc_name kOff = ''off''"
| "cc_name kFixedWindow = ''fixed_window''"
| "cc_name kAdaptive = ''adaptive''"

fun device_name :: "device_kind \<Rightarrow> string" where
  "device_name kHost = ''host''"
| "device_name kCuda = ''cuda''"
| "device_name kRocm = ''rocm''"
| "device_name kCambricon = ''cambricon''"
| "device_name kMoore = ''moore''"
| "device_name kKunlun = ''kunlun''"
| "device_name (DeviceKindRaw b) = ''unknown''"

text \<open>Decimal output of \<open>operator<<\<close>.\<close>

definition show_digit :: "nat \<Rightarrow> char" where
  "show_digit d = char_of (48 + d)"

fun show_nat :: "nat \<Rightarrow> string" where
  "show_nat n = (if n < 10 then [show_digit n] else show_nat (n div 10) @ [show_digit (n mod 10)])"

declare show_nat.simps [simp del]

definition show_int :: "int \<Rightarrow> string" where
  "show_int i = (if i < 0 then CHR ''-'' # show_nat (nat (- i)) else show_nat (nat i))"

fun read_nat :: "string \<Rightarrow> nat \<Rightarrow> nat" where
  "read_nat [] acc = acc"
| "read_nat (c # cs) acc = read_nat cs (10 * acc + (of_char c - 48))"

lemma read_nat_append: "read_nat (xs @ ys) acc = read_nat ys (read_nat xs acc)"
  by (induction xs arbitrary: acc) auto

lemma read_show_nat: "read_nat (show_nat n) 0 = n"
proof (induction n rule: show_nat.induct)
  case (1 n)
  then show ?case
    by (subst show_nat.simps) (simp add: read_nat_append show_digit_def)
qed

section \<open>Configuration\<close>

record engine_config =
  cfg_device :: device_id
  cfg_progress :: progress_mode
  qp_per_peer :: u32
  chunk_bytes :: u64
  wr_batch :: u32
  cq_batch :: u32
  max_inflight_requests :: u32
  scheduler_quantum_bytes :: u64
  registration_cache_entries :: u32
  cfg_cc :: congestion_control
  cc_window_bytes :: u64
  notify_queue_depth :: u32
  notify_max_payload :: u32
  completion_queue_depth :: u32
  ready_queue_depth :: u32
  preferred_provider :: string

definition default_config :: engine_config where
  "default_config = \<lparr>cfg_device = host_device, cfg_progress = kThread, qp_per_peer = 1,
     chunk_bytes = push_bit 20 1, wr_batch = 16, cq_batch = 16, max_inflight_requests = 4096,
     scheduler_quantum_bytes = push_bit 20 1, registration_cache_entries = 64, cfg_cc = kOff,
     cc_window_bytes = push_bit 22 1, notify_queue_depth = 1024, notify_max_payload = 4096,
     completion_queue_depth = 16384, ready_queue_depth = 16384, preferred_provider = ''''\<rparr>"

text \<open>A \<open>key:value\<close> piece of the report, and the report itself.\<close>

definition jnum :: "string \<Rightarrow> nat \<Rightarrow> string" where
  "jnum k v = CHR 0x22 # k @ CHR 0x22 # CHR '':'' # show_nat v"

definition jstr :: "string \<Rightarrow> string \<Rightarrow> string" where
  "jstr k v = CHR 0x22 # k @ CHR 0x22 # CHR '':'' # CHR 0x22 # v @ [CHR 0x22]"

fun commas :: "string list \<Rightarrow> string" where
  "commas [] = []"
| "commas [x] = x"
| "commas (x # xs) = x @ CHR '','' # commas xs"

definition describe_config :: "engine_config \<Rightarrow> string" where
  "describe_config c = CHR ''{'' # commas
     [jstr ''device'' (device_name (dev_kind (cfg_device c)) @ CHR '':'' #
        show_int (sint (dev_index (cfg_device c)))),
      jstr ''progress'' (progress_name (cfg_progress c)),
      jnum ''qp_per_peer'' (unat (qp_per_peer c)),
      jnum ''chunk_bytes'' (unat (chunk_bytes c)),
      jnum ''wr_batch'' (unat (wr_batch c)),
      jnum ''cq_batch'' (unat (cq_batch c)),
      jnum ''max_inflight_requests'' (unat (max_inflight_requests c)),
      jnum ''scheduler_quantum_bytes'' (unat (scheduler_quantum_bytes c)),
      jnum ''registration_cache_entries'' (unat (registration_cache_entries c)),
      jstr ''cc'' (cc_name (cfg_cc c)),
      jnum ''cc_window_bytes'' (unat (cc_window_bytes c)),
      jnum ''notify_queue_depth'' (unat (notify_queue_depth c)),
      jnum ''completion_queue_depth'' (unat (completion_queue_depth c)),
      jnum ''ready_queue_depth'' (unat (ready_queue_depth c)),
      jnum ''notify_max_payload'' (unat (notify_max_payload c)),
      jstr ''preferred_provider'' (preferred_provider c)] @ ''}''"

text \<open>\<open>EngineConfig::validate\<close>: the status, and what \<open>*reason\<close> is left holding.\<close>

definition validate :: "engine_config \<Rightarrow> status \<times> string" where
  "validate c =
    (if qp_per_peer c = 0 then (kInvalidArgument, ''qp_per_peer must be >= 1'')
     else if chunk_bytes c = 0 then (kInvalidArgument, ''chunk_bytes must be > 0'')
     else if chunk_bytes c > 0xffffffff then (kInvalidArgument, ''chunk_bytes must fit in 32 bits'')
     else if wr_batch c = 0 then (kInvalidArgument, ''wr_batch must be >= 1'')
     else if cq_batch c = 0 then (kInvalidArgument, ''cq_batch must be >= 1'')
     else if max_inflight_requests c = 0 then
       (kInvalidArgument, ''max_inflight_requests must be >= 1'')
     else if notify_queue_depth c = 0 then (kInvalidArgument, ''notify_queue_depth must be >= 1'')
     else if notify_max_payload c = 0 then (kInvalidArgument, ''notify_max_payload must be > 0'')
     else if cfg_cc c = kFixedWindow \<and> cc_window_bytes c = 0 then
       (kInvalidArgument, ''cc_window_bytes must be > 0 when cc=fixed_window'')
     else if cfg_cc c = kFixedWindow \<and> cc_window_bytes c < chunk_bytes c then
       (kInvalidArgument, ''cc_window_bytes < chunk_bytes would stall every request'')
     else (kOk, ''''))"

text \<open>What an accepted configuration guarantees the rest of the engine.\<close>

definition config_ok :: "engine_config \<Rightarrow> bool" where
  "config_ok c \<longleftrightarrow> 0 < qp_per_peer c \<and> 0 < chunk_bytes c \<and> unat (chunk_bytes c) < 2 ^ 32 \<and>
     0 < wr_batch c \<and> 0 < cq_batch c \<and> 0 < max_inflight_requests c \<and>
     0 < notify_queue_depth c \<and> 0 < notify_max_payload c \<and>
     (if cfg_cc c = kFixedWindow then chunk_bytes c \<le> cc_window_bytes c else True)"

lemma chunk_32: "(x :: u64) > 0xffffffff \<longleftrightarrow> \<not> unat x < 2 ^ 32"
  by (simp add: word_less_nat_alt) linarith

lemma validate_ok_iff: "fst (validate c) = kOk \<longleftrightarrow> config_ok c"
proof -
  have "0 < chunk_bytes c \<Longrightarrow> chunk_bytes c \<le> cc_window_bytes c \<Longrightarrow> cc_window_bytes c \<noteq> 0"
    by auto
  then show ?thesis
    unfolding validate_def config_ok_def
    by (auto simp: chunk_32 word_gt_0 not_less)
qed

lemma validate_reason: "fst (validate c) \<noteq> kOk \<longleftrightarrow> snd (validate c) \<noteq> ''''"
  by (simp add: validate_def)

lemma config_ok_default: "config_ok default_config"
  by (simp add: config_ok_def default_config_def word_less_nat_alt)

end
