(* ===== verification/Hux_Control.thy ===== *)
theory Hux_Control
  imports Hux_Config
begin

text \<open>
  control/identity.* and control/control_message.*: who a peer is, how near it is, and the
  wire format of the engine's control messages. Encoders are functions to byte lists; a
  decoder reads with bounds checks of its own, and every read is checked against the buffer
  by the model (\<open>None\<close> would be a read outside it).
\<close>

section \<open>Identity\<close>

record identity =
  id_host :: u64
  id_process :: u64
  id_engine :: u64

definition zero_identity :: identity where
  "zero_identity = \<lparr>id_host = 0, id_process = 0, id_engine = 0\<rparr>"

datatype locality = LC_kSameEngine | LC_kSameProcess | LC_kSameHost | LC_kRemote

fun locality_to_string :: "locality \<Rightarrow> string" where
  "locality_to_string LC_kSameEngine = ''same_engine''"
| "locality_to_string LC_kSameProcess = ''same_process''"
| "locality_to_string LC_kSameHost = ''same_host''"
| "locality_to_string LC_kRemote = ''remote''"

definition locality_of :: "identity \<Rightarrow> identity \<Rightarrow> locality" where
  "locality_of a b =
    (if id_host a \<noteq> id_host b then LC_kRemote
     else if id_process a \<noteq> id_process b then LC_kSameHost
     else if id_engine a \<noteq> id_engine b then LC_kSameProcess
     else LC_kSameEngine)"

text \<open>
  \<open>read_host_id\<close>: the first readable, non-empty line of the two files, hashed. The hash and
  the process id are the platform's; a file that cannot be opened is \<open>None\<close>.
\<close>

fun read_host_id :: "(string \<Rightarrow> u64) \<Rightarrow> u64 \<Rightarrow> string option list \<Rightarrow> u64" where
  "read_host_id hash pid [] = hash ''unknown'' XOR pid"
| "read_host_id hash pid (None # fs) = read_host_id hash pid fs"
| "read_host_id hash pid (Some line # fs) =
     (if line = '''' then read_host_id hash pid fs else hash line)"

definition local_identity :: "(string \<Rightarrow> u64) \<Rightarrow> u64 \<Rightarrow> string option \<Rightarrow> string option \<Rightarrow> identity" where
  "local_identity hash pid machine_id boot_id =
     \<lparr>id_host = read_host_id hash pid [machine_id, boot_id], id_process = pid, id_engine = 0\<rparr>"

text \<open>\<open>next_engine_id\<close> is a fetch-and-add on a process-wide counter: the id, then the counter.\<close>

definition next_engine_id :: "u64 \<Rightarrow> u64 \<times> u64" where
  "next_engine_id counter = (counter, counter + 1)"

definition kIdentityBytes :: nat where "kIdentityBytes = 24"

definition encode_identity :: "identity \<Rightarrow> bytes" where
  "encode_identity i = put_u64 (id_host i) @ put_u64 (id_process i) @ put_u64 (id_engine i)"

definition decode_identity :: "bytes \<Rightarrow> nat \<Rightarrow> identity result option" where
  "decode_identity bs off =
    (if length bs < off + kIdentityBytes then refuse kInvalidArgument
     else do {
       h \<leftarrow> get_u64 bs off;
       p \<leftarrow> get_u64 bs (off + 8);
       e \<leftarrow> get_u64 bs (off + 16);
       accept \<lparr>id_host = h, id_process = p, id_engine = e\<rparr> })"

lemma length_encode_identity [codec_len, simp]: "length (encode_identity i) = 24"
  by (simp add: encode_identity_def)

lemma locality_same_engine_iff: "locality_of a b = LC_kSameEngine \<longleftrightarrow> a = b"
  by (cases a; cases b) (simp add: locality_of_def)

lemma locality_sym: "locality_of a b = locality_of b a"
  by (auto simp: locality_of_def)

lemma decode_encode_identity [codec_rt]:
  assumes "off = length pre"
  shows "decode_identity (pre @ encode_identity i @ post) off = accept i"
  using assms by (cases i) (simp add: decode_identity_def encode_identity_def kIdentityBytes_def codec_rt)

lemma decode_encode_identity_end [codec_rt]:
  assumes "off = length pre"
  shows "decode_identity (pre @ encode_identity i) off = accept i"
  using decode_encode_identity [of off pre i "[]"] assms by simp

lemma decode_identity_safe: "decode_identity bs off \<noteq> None"
proof (cases "length bs < off + kIdentityBytes")
  case False
  then obtain h p e where "get_u64 bs off = Some h" "get_u64 bs (off + 8) = Some p"
    "get_u64 bs (off + 16) = Some e"
    using get_u64_in [of off bs] get_u64_in [of "off + 8" bs] get_u64_in [of "off + 16" bs]
    by (auto simp: kIdentityBytes_def)
  with False show ?thesis by (simp add: decode_identity_def)
qed (simp add: decode_identity_def)

section \<open>Control headers\<close>

datatype control_type =
    kInvalid | kReadyHandoff | kNotification | kRegionInvalidate | kNotificationAck
  | kNotificationRefused | ControlTypeRaw u16

fun control_type_code :: "control_type \<Rightarrow> u16" where
  "control_type_code kInvalid = 0"
| "control_type_code kReadyHandoff = 1"
| "control_type_code kNotification = 2"
| "control_type_code kRegionInvalidate = 3"
| "control_type_code kNotificationAck = 4"
| "control_type_code kNotificationRefused = 5"
| "control_type_code (ControlTypeRaw c) = c"

definition control_type_of_code :: "u16 \<Rightarrow> control_type" where
  "control_type_of_code c =
    (if c = 0 then kInvalid else if c = 1 then kReadyHandoff else if c = 2 then kNotification
     else if c = 3 then kRegionInvalidate else if c = 4 then kNotificationAck
     else if c = 5 then kNotificationRefused else ControlTypeRaw c)"

lemma control_type_of_code_code [simp]:
  "(\<And>c. t \<noteq> ControlTypeRaw c) \<Longrightarrow> control_type_of_code (control_type_code t) = t"
  by (cases t) (simp_all add: control_type_of_code_def)

record control_header =
  ch_major :: u16
  ch_minor :: u16
  ch_type :: control_type
  ch_flags :: u16
  ch_payload_len :: u32

definition kControlMajor :: u16 where "kControlMajor = 1"
definition kControlMinor :: u16 where "kControlMinor = 1"
definition kControlHeaderBytes :: nat where "kControlHeaderBytes = 12"
definition kControlMaxPayload :: u32 where "kControlMaxPayload = push_bit 10 64"

lemma unat_kControlMaxPayload [simp]: "unat kControlMaxPayload = 65536"
  by (simp add: kControlMaxPayload_def)

definition encode_control_header :: "control_header \<Rightarrow> bytes" where
  "encode_control_header h = put_u16 (ch_major h) @ put_u16 (ch_minor h) @
     put_u16 (control_type_code (ch_type h)) @ put_u16 (ch_flags h) @ put_u32 (ch_payload_len h)"

definition decode_control_header :: "bytes \<Rightarrow> control_header result option" where
  "decode_control_header bs = do {
     maj \<leftarrow> get_u16 bs 0;
     mnr \<leftarrow> get_u16 bs 2;
     ty \<leftarrow> get_u16 bs 4;
     fl \<leftarrow> get_u16 bs 6;
     pl \<leftarrow> get_u32 bs 8;
     if maj \<noteq> kControlMajor then refuse kUnsupported
     else if pl > kControlMaxPayload then refuse kInvalidArgument
     else accept \<lparr>ch_major = maj, ch_minor = mnr, ch_type = control_type_of_code ty,
                   ch_flags = fl, ch_payload_len = pl\<rparr> }"

definition control_type_named :: "control_type \<Rightarrow> bool" where
  "control_type_named t = (case t of ControlTypeRaw _ \<Rightarrow> False | _ \<Rightarrow> True)"

lemma control_type_named_rt [simp]:
  "control_type_named t \<Longrightarrow> control_type_of_code (control_type_code t) = t"
  by (cases t) (simp_all add: control_type_named_def control_type_of_code_def)

lemma length_encode_control_header [codec_len, simp]: "length (encode_control_header h) = 12"
  by (simp add: encode_control_header_def)

lemma decode_control_header_rt:
  assumes "ch_major h = kControlMajor" "ch_payload_len h \<le> kControlMaxPayload"
    "control_type_named (ch_type h)"
  shows "decode_control_header (encode_control_header h @ rest) = accept h"
  using assms by (cases h) (simp add: decode_control_header_def encode_control_header_def codec_rt)

lemma decode_control_header_bound:
  "decode_control_header bs = accept h \<Longrightarrow>
     ch_payload_len h \<le> kControlMaxPayload \<and> ch_major h = kControlMajor"
  by (auto simp: decode_control_header_def split: Option.bind_splits if_splits)

lemma decode_control_header_safe:
  assumes "kControlHeaderBytes \<le> length bs"
  shows "decode_control_header bs \<noteq> None"
proof -
  obtain a b c d e where "get_u16 bs 0 = Some a" "get_u16 bs 2 = Some b" "get_u16 bs 4 = Some c"
    "get_u16 bs 6 = Some d" "get_u32 bs 8 = Some e"
    using assms get_u16_in [of 0 bs] get_u16_in [of 2 bs] get_u16_in [of 4 bs]
      get_u16_in [of 6 bs] get_u32_in [of 8 bs]
    by (auto simp: kControlHeaderBytes_def)
  then show ?thesis by (simp add: decode_control_header_def)
qed

section \<open>Message bodies\<close>

definition encode_u64 :: "u64 \<Rightarrow> bytes" where
  "encode_u64 v = put_u64 v"

definition decode_u64 :: "bytes \<Rightarrow> u64 result option" where
  "decode_u64 bs = (if length bs < 8 then refuse kInvalidArgument
     else do { v \<leftarrow> get_u64 bs 0; accept v })"

record region_invalidate_body =
  ri_region :: u64
  ri_generation :: u32
  ri_has_origin :: bool
  ri_origin :: identity

definition kRegionInvalidateBytes :: nat where "kRegionInvalidateBytes = 12"
definition kRegionInvalidateWithOriginBytes :: nat where
  "kRegionInvalidateWithOriginBytes = kRegionInvalidateBytes + kIdentityBytes"

definition encode_region_invalidate :: "region_invalidate_body \<Rightarrow> bytes" where
  "encode_region_invalidate b = put_u64 (ri_region b) @ put_u32 (ri_generation b) @
     (if ri_has_origin b then encode_identity (ri_origin b) else [])"

definition decode_region_invalidate :: "bytes \<Rightarrow> region_invalidate_body result option" where
  "decode_region_invalidate bs =
    (if length bs \<noteq> kRegionInvalidateBytes \<and> length bs < kRegionInvalidateWithOriginBytes
     then refuse kInvalidArgument
     else do {
       r \<leftarrow> get_u64 bs 0;
       g \<leftarrow> get_u32 bs 8;
       if kRegionInvalidateWithOriginBytes \<le> length bs then do {
         o' \<leftarrow> decode_identity bs kRegionInvalidateBytes;
         (case o' of Inl _ \<Rightarrow> refuse kInvalidArgument
          | Inr i \<Rightarrow> accept \<lparr>ri_region = r, ri_generation = g, ri_has_origin = True, ri_origin = i\<rparr>) }
       else accept \<lparr>ri_region = r, ri_generation = g, ri_has_origin = False,
                    ri_origin = zero_identity\<rparr> })"

lemma decode_region_invalidate_rt:
  assumes "ri_has_origin b \<or> ri_origin b = zero_identity"
  shows "decode_region_invalidate (encode_region_invalidate b) = accept b"
proof (cases "ri_has_origin b")
  case True
  have "decode_identity (encode_region_invalidate b) 12 = accept (ri_origin b)"
    using True decode_encode_identity_end [of 12 "put_u64 (ri_region b) @ put_u32 (ri_generation b)"]
    by (simp add: encode_region_invalidate_def)
  with True show ?thesis
    by (cases b) (simp add: decode_region_invalidate_def kRegionInvalidateBytes_def
        kRegionInvalidateWithOriginBytes_def kIdentityBytes_def encode_region_invalidate_def codec_rt)
next
  case False
  with assms show ?thesis
    by (cases b) (simp add: decode_region_invalidate_def encode_region_invalidate_def
        kRegionInvalidateBytes_def kRegionInvalidateWithOriginBytes_def kIdentityBytes_def codec_rt)
qed

lemma decode_region_invalidate_safe: "decode_region_invalidate bs \<noteq> None"
proof (cases "length bs \<noteq> kRegionInvalidateBytes \<and> length bs < kRegionInvalidateWithOriginBytes")
  case False
  then obtain r g where "get_u64 bs 0 = Some r" "get_u32 bs 8 = Some g"
    using get_u64_in [of 0 bs] get_u32_in [of 8 bs]
    by (auto simp: kRegionInvalidateBytes_def kRegionInvalidateWithOriginBytes_def kIdentityBytes_def)
  with False show ?thesis
    using decode_identity_safe [of bs kRegionInvalidateBytes]
    by (auto simp: decode_region_invalidate_def split: sum.splits)
qed (simp add: decode_region_invalidate_def)

record ready_handoff_body =
  rh_request :: u64
  rh_region :: u64
  rh_generation :: u32
  rh_offset :: u64
  rh_length :: u64

definition kReadyHandoffBytes :: nat where "kReadyHandoffBytes = 36"

definition encode_ready_handoff :: "ready_handoff_body \<Rightarrow> bytes" where
  "encode_ready_handoff b = put_u64 (rh_request b) @ put_u64 (rh_region b) @
     put_u32 (rh_generation b) @ put_u64 (rh_offset b) @ put_u64 (rh_length b)"

definition decode_ready_handoff :: "bytes \<Rightarrow> ready_handoff_body result option" where
  "decode_ready_handoff bs =
    (if length bs \<noteq> kReadyHandoffBytes then refuse kInvalidArgument
     else do {
       q \<leftarrow> get_u64 bs 0;
       r \<leftarrow> get_u64 bs 8;
       g \<leftarrow> get_u32 bs 16;
       off \<leftarrow> get_u64 bs 20;
       len \<leftarrow> get_u64 bs 28;
       accept \<lparr>rh_request = q, rh_region = r, rh_generation = g, rh_offset = off, rh_length = len\<rparr> })"

lemma decode_ready_handoff_rt:
  "decode_ready_handoff (encode_ready_handoff b) = accept b"
  by (cases b) (simp add: decode_ready_handoff_def encode_ready_handoff_def kReadyHandoffBytes_def codec_rt)

lemma decode_ready_handoff_safe: "decode_ready_handoff bs \<noteq> None"
proof (cases "length bs = kReadyHandoffBytes")
  case True
  then obtain a b c d e where "get_u64 bs 0 = Some a" "get_u64 bs 8 = Some b"
    "get_u32 bs 16 = Some c" "get_u64 bs 20 = Some d" "get_u64 bs 28 = Some e"
    using get_u64_in [of 0 bs] get_u64_in [of 8 bs] get_u32_in [of 16 bs]
      get_u64_in [of 20 bs] get_u64_in [of 28 bs]
    by (auto simp: kReadyHandoffBytes_def)
  then show ?thesis by (simp add: decode_ready_handoff_def)
qed (simp add: decode_ready_handoff_def)

lemma decode_encode_u64: "decode_u64 (encode_u64 v) = accept v"
  by (simp add: decode_u64_def encode_u64_def codec_rt)

lemma decode_u64_safe: "decode_u64 bs \<noteq> None"
  using get_u64_in [of 0 bs] by (auto simp: decode_u64_def not_less)

end
