(* ===== verification/Hux_Provider.thy ===== *)
theory Hux_Provider
  imports Hux_Control Complex_Main
begin

text \<open>
  transport/provider.h: what core hands down to a transport and what a transport reports
  back, the virtual functions of \<open>TransportProvider\<close> as a record of functions over the state
  \<open>'w\<close> of the transports, and the contract the header states as a locale. Pointers to
  connections are numbers handed out by the transport.
\<close>

type_synonym conn_id = nat

record control_message =
  cm_peer :: peer_id
  cm_type :: u16
  cm_payload :: bytes
  cm_conn :: "conn_id option"

record peer_arrival =
  pa_token :: u32
  pa_from :: peer_id

record provider_stats =
  subops_posted :: u64
  subops_completed :: u64
  subops_failed :: u64
  payload_bytes :: u64
  payload_bytes_copied :: u64

definition zero_stats :: provider_stats where
  "zero_stats = \<lparr>subops_posted = 0, subops_completed = 0, subops_failed = 0,
     payload_bytes = 0, payload_bytes_copied = 0\<rparr>"

text \<open>\<open>relative_capacity\<close> is a double in the source; the model computes with reals.\<close>

record provider_caps =
  pc_name :: string
  supports_read :: bool
  supports_write :: bool
  supports_vector :: bool
  supports_multi_qp :: bool
  needs_explicit_flush :: bool
  supports_peer_signal :: bool
  relative_capacity :: real
  max_segment_bytes :: u64
  max_sge :: u32

datatype subop_kind = kRead | kWrite

record subop =
  so_signal_peer :: bool
  so_peer_token :: u32
  so_kind :: subop_kind
  so_request :: request_id
  so_sub_id :: u64
  so_local_addr :: addr
  so_local_key :: u64
  so_remote_addr :: addr
  so_remote_key :: u64
  so_length :: u64

record completion_event =
  ce_request :: request_id
  ce_sub_id :: u64
  ce_bytes :: u64
  ce_status :: status
  ce_errno :: int
  ce_may_have_modified_target :: bool

record submit_result =
  sr_accepted :: nat
  sr_status :: status
  sr_errno :: int

text \<open>What identifies a sub-operation from submission to completion.\<close>

definition so_key :: "subop \<Rightarrow> request_id \<times> u64" where
  "so_key op = (so_request op, so_sub_id op)"

definition ce_key :: "completion_event \<Rightarrow> request_id \<times> u64" where
  "ce_key ev = (ce_request ev, ce_sub_id ev)"

section \<open>The virtual functions\<close>

record 'w provider_ops =
  po_caps :: provider_caps
  po_stats :: "'w \<Rightarrow> provider_stats"
  po_describe :: "'w \<Rightarrow> string"
  po_register_region :: "addr \<Rightarrow> u64 \<Rightarrow> device_id \<Rightarrow> access_flags \<Rightarrow> 'w \<Rightarrow> (u64 \<times> u64) result \<times> 'w"
  po_deregister_region :: "u64 \<Rightarrow> 'w \<Rightarrow> status \<times> 'w"
  po_connect :: "bytes \<Rightarrow> 'w \<Rightarrow> conn_id result \<times> 'w"
  po_disconnect :: "conn_id \<Rightarrow> 'w \<Rightarrow> status \<times> 'w"
  po_local_metadata :: "'w \<Rightarrow> bytes result"
  po_submit :: "conn_id option \<Rightarrow> subop list \<Rightarrow> 'w \<Rightarrow> submit_result \<times> 'w"
  po_poll :: "nat \<Rightarrow> 'w \<Rightarrow> (status \<times> completion_event list) \<times> 'w"
  po_send_control :: "conn_id option \<Rightarrow> u16 \<Rightarrow> bytes \<Rightarrow> 'w \<Rightarrow> status \<times> 'w"
  po_broadcast_control :: "u16 \<Rightarrow> bytes \<Rightarrow> 'w \<Rightarrow> (status \<times> nat \<times> nat) \<times> 'w"
  po_poll_control :: "nat \<Rightarrow> 'w \<Rightarrow> (status \<times> control_message list) \<times> 'w"
  po_poll_peer_arrivals :: "nat \<Rightarrow> 'w \<Rightarrow> (status \<times> peer_arrival list) \<times> 'w"
  po_flush :: "conn_id \<Rightarrow> 'w \<Rightarrow> status \<times> 'w"
  po_drain :: "conn_id \<Rightarrow> int \<Rightarrow> 'w \<Rightarrow> status \<times> 'w"
  po_qp_count :: "conn_id \<Rightarrow> 'w \<Rightarrow> u32"
  po_submit_capacity :: "conn_id \<Rightarrow> 'w \<Rightarrow> u32"
  po_alive :: "conn_id \<Rightarrow> 'w \<Rightarrow> bool"

section \<open>The contract\<close>

text \<open>
  \<open>inv\<close> is the transport's own invariant and \<open>outstanding w\<close> the sub-operations it has accepted
  and not yet reported. Submitting accepts a prefix and reports how long it is; polling hands
  over events of outstanding sub-operations, each once; nothing else makes a sub-operation
  appear or disappear, and in particular a connection that is dropped still completes its work
  through \<open>poll\<close>.
\<close>

locale transport_provider =
  fixes ops :: "'w provider_ops"
    and inv :: "'w \<Rightarrow> bool"
    and outstanding :: "'w \<Rightarrow> (request_id \<times> u64) multiset"
  assumes submit_law: "inv w \<Longrightarrow> po_submit ops c xs w = (r, w') \<Longrightarrow>
      inv w' \<and> sr_accepted r \<le> length xs \<and>
      outstanding w' = outstanding w + mset (map so_key (take (sr_accepted r) xs))"
    and submit_short_law: "inv w \<Longrightarrow> po_submit ops c xs w = (r, w') \<Longrightarrow>
      sr_accepted r < length xs \<Longrightarrow> sr_status r \<noteq> kOk"
    and poll_law: "inv w \<Longrightarrow> po_poll ops n w = ((s, evs), w') \<Longrightarrow>
      inv w' \<and> outstanding w = mset (map ce_key evs) + outstanding w'"
    and register_law: "inv w \<Longrightarrow> po_register_region ops a l d f w = (k, w') \<Longrightarrow>
      inv w' \<and> outstanding w' = outstanding w"
    and deregister_law: "inv w \<Longrightarrow> po_deregister_region ops key w = (s, w') \<Longrightarrow>
      inv w' \<and> outstanding w' = outstanding w"
    and connect_law: "inv w \<Longrightarrow> po_connect ops m w = (cr, w') \<Longrightarrow> inv w' \<and> outstanding w' = outstanding w"
    and disconnect_law: "inv w \<Longrightarrow> po_disconnect ops cn w = (s, w') \<Longrightarrow>
      inv w' \<and> outstanding w' = outstanding w"
    and send_control_law: "inv w \<Longrightarrow> po_send_control ops c t pl w = (s, w') \<Longrightarrow>
      inv w' \<and> outstanding w' = outstanding w"
    and broadcast_law: "inv w \<Longrightarrow> po_broadcast_control ops t pl w = (br, w') \<Longrightarrow>
      inv w' \<and> outstanding w' = outstanding w"
    and poll_control_law: "inv w \<Longrightarrow> po_poll_control ops n w = (cs, w') \<Longrightarrow>
      inv w' \<and> outstanding w' = outstanding w"
    and arrivals_law: "inv w \<Longrightarrow> po_poll_peer_arrivals ops n w = (as, w') \<Longrightarrow>
      inv w' \<and> outstanding w' = outstanding w"
begin

lemma poll_events_outstanding:
  assumes "inv w" "po_poll ops n w = ((s, evs), w')" "ev \<in> set evs"
  shows "ce_key ev \<in># outstanding w"
  using poll_law [OF assms(1,2)] assms(3) by simp

lemma poll_nothing_lost:
  assumes "inv w" "po_poll ops n w = ((s, evs), w')" "k \<in># outstanding w" "k \<notin> ce_key ` set evs"
  shows "k \<in># outstanding w'"
  using poll_law [OF assms(1,2)] assms(3,4) by auto

end

text \<open>A run of submissions and polls: what went in is what came out and what is still there.\<close>

datatype provider_call = CallSubmit "conn_id option" "subop list" | CallPoll nat

fun provider_run ::
  "'w provider_ops \<Rightarrow> provider_call list \<Rightarrow> 'w \<Rightarrow> (request_id \<times> u64) list \<times> (request_id \<times> u64) list \<times> 'w" where
  "provider_run ops [] w = ([], [], w)"
| "provider_run ops (CallSubmit c xs # cs) w =
    (case po_submit ops c xs w of (r, w1) \<Rightarrow>
     case provider_run ops cs w1 of (taken, done, w2) \<Rightarrow>
       (map so_key (take (sr_accepted r) xs) @ taken, done, w2))"
| "provider_run ops (CallPoll n # cs) w =
    (case po_poll ops n w of ((s, evs), w1) \<Rightarrow>
     case provider_run ops cs w1 of (taken, done, w2) \<Rightarrow> (taken, map ce_key evs @ done, w2))"

context transport_provider
begin

lemma run_conserves:
  "inv w \<Longrightarrow> provider_run ops cs w = (taken, done, w') \<Longrightarrow>
   inv w' \<and> outstanding w + mset taken = mset done + outstanding w'"
proof (induction cs arbitrary: w taken "done" w')
  case (Cons call cs)
  show ?case
  proof (cases call)
    case (CallSubmit c xs)
    obtain r w1 t1 d1 where
      sub: "po_submit ops c xs w = (r, w1)" and run: "provider_run ops cs w1 = (t1, d1, w')"
      and t: "taken = map so_key (take (sr_accepted r) xs) @ t1" "done = d1"
      using Cons.prems(2) CallSubmit by (auto split: prod.splits)
    have l: "inv w1" "outstanding w1 = outstanding w + mset (map so_key (take (sr_accepted r) xs))"
      using submit_law [OF Cons.prems(1) sub] by simp_all
    with Cons.IH [OF l(1) run] t show ?thesis by (simp add: add.assoc)
  next
    case (CallPoll n)
    obtain s evs w1 t1 d1 where
      poll: "po_poll ops n w = ((s, evs), w1)" and run: "provider_run ops cs w1 = (t1, d1, w')"
      and t: "taken = t1" "done = map ce_key evs @ d1"
      using Cons.prems(2) CallPoll by (auto split: prod.splits)
    have l: "inv w1" "outstanding w = mset (map ce_key evs) + outstanding w1"
      using poll_law [OF Cons.prems(1) poll] by simp_all
    with Cons.IH [OF l(1) run] t show ?thesis by (simp add: add.assoc)
  qed
qed simp

end

end
