(* ===== verification/Hux_CC.thy ===== *)
theory Hux_CC
  imports Hux_Provider
begin

text \<open>
  transport/cc/controller.*: the contract of a congestion controller as a locale, and the three
  controllers of the source with the proofs that they keep it. Time is an integer number of
  nanoseconds. The two-element arrays are functions of the direction. The adaptive controller
  computes with doubles in the source and with reals here: what is shown of it holds of exact
  arithmetic.
\<close>

type_synonym cc_time = int

datatype cc_direction = CC_kWrite | CC_kRead
datatype cc_verdict = kAllowed | kOverBudget | kPaced

text \<open>Releasing budget is clamped: never more than is outstanding.\<close>

definition release_bytes :: "u64 \<Rightarrow> u64 \<Rightarrow> u64" where
  "release_bytes used bytes = used - (if bytes < used then bytes else used)"

section \<open>No limit\<close>

record off_cc = off_inflight :: "cc_direction \<Rightarrow> u64"

definition make_cc_off :: off_cc where
  "make_cc_off = \<lparr>off_inflight = (\<lambda>_. 0)\<rparr>"

definition off_allow :: "cc_direction \<Rightarrow> u64 \<Rightarrow> cc_time \<Rightarrow> off_cc \<Rightarrow> cc_verdict" where
  "off_allow d b now c = kAllowed"

definition off_on_post :: "cc_direction \<Rightarrow> u64 \<Rightarrow> cc_time \<Rightarrow> off_cc \<Rightarrow> off_cc" where
  "off_on_post d b now c = c\<lparr>off_inflight := (off_inflight c)(d := off_inflight c d + b)\<rparr>"

text \<open>
  The compare-and-swap loop: one round computes the decrement from the value it read and
  succeeds only if that is still the value, so that its effect is one atomic update.
\<close>

definition off_release :: "cc_direction \<Rightarrow> u64 \<Rightarrow> off_cc \<Rightarrow> off_cc" where
  "off_release d b c =
    (let cur = off_inflight c d; dec = (if b < cur then b else cur) in
     if dec = 0 then c else c\<lparr>off_inflight := (off_inflight c)(d := cur - dec)\<rparr>)"

definition off_on_feedback :: "cc_direction \<Rightarrow> u64 \<Rightarrow> int \<Rightarrow> cc_time \<Rightarrow> off_cc \<Rightarrow> off_cc" where
  "off_on_feedback d b rtt now c = off_release d b c"

definition off_on_error :: "cc_direction \<Rightarrow> u64 \<Rightarrow> cc_time \<Rightarrow> off_cc \<Rightarrow> off_cc" where
  "off_on_error d b now c = off_release d b c"

definition off_window_bytes :: "cc_direction \<Rightarrow> off_cc \<Rightarrow> u64" where
  "off_window_bytes d c = 0"

section \<open>Fixed window\<close>

record fixed_cc =
  fw_window :: u64
  fw_inflight :: "cc_direction \<Rightarrow> u64"
  fw_samples :: "cc_direction \<Rightarrow> u64"
  fw_last_rtt :: "cc_direction \<Rightarrow> int"

definition make_cc_fixed_window :: "u64 \<Rightarrow> fixed_cc" where
  "make_cc_fixed_window w = \<lparr>fw_window = w, fw_inflight = (\<lambda>_. 0), fw_samples = (\<lambda>_. 0),
     fw_last_rtt = (\<lambda>_. 0)\<rparr>"

definition fw_allow :: "cc_direction \<Rightarrow> u64 \<Rightarrow> cc_time \<Rightarrow> fixed_cc \<Rightarrow> cc_verdict" where
  "fw_allow d b now c =
    (let used = fw_inflight c d in
     if used + b \<le> fw_window c then kAllowed
     else if b > fw_window c \<and> used = 0 then kAllowed
     else kOverBudget)"

definition fw_on_post :: "cc_direction \<Rightarrow> u64 \<Rightarrow> cc_time \<Rightarrow> fixed_cc \<Rightarrow> fixed_cc" where
  "fw_on_post d b now c = c\<lparr>fw_inflight := (fw_inflight c)(d := fw_inflight c d + b)\<rparr>"

definition fw_release :: "cc_direction \<Rightarrow> u64 \<Rightarrow> fixed_cc \<Rightarrow> fixed_cc" where
  "fw_release d b c = c\<lparr>fw_inflight := (fw_inflight c)(d := release_bytes (fw_inflight c d) b)\<rparr>"

definition fw_on_feedback :: "cc_direction \<Rightarrow> u64 \<Rightarrow> int \<Rightarrow> cc_time \<Rightarrow> fixed_cc \<Rightarrow> fixed_cc" where
  "fw_on_feedback d b rtt now c =
    (let c1 = fw_release d b c in
     c1\<lparr>fw_samples := (fw_samples c1)(d := fw_samples c1 d + 1),
        fw_last_rtt := (fw_last_rtt c1)(d := rtt)\<rparr>)"

definition fw_on_error :: "cc_direction \<Rightarrow> u64 \<Rightarrow> cc_time \<Rightarrow> fixed_cc \<Rightarrow> fixed_cc" where
  "fw_on_error d b now c = fw_release d b c"

definition fw_window_bytes :: "cc_direction \<Rightarrow> fixed_cc \<Rightarrow> u64" where
  "fw_window_bytes d c = fw_window c"

section \<open>TIMELY\<close>

record timely_params =
  tp_t_low_us :: int
  tp_t_high_us :: int
  tp_beta :: real
  tp_additive_increase :: real
  tp_ewma_alpha :: real
  tp_min_rate :: real
  tp_max_rate :: real

definition default_timely :: timely_params where
  "default_timely = \<lparr>tp_t_low_us = 50, tp_t_high_us = 500, tp_beta = 8 / 1000,
     tp_additive_increase = 10000000, tp_ewma_alpha = 3 / 10, tp_min_rate = 1000000,
     tp_max_rate = 12500000000\<rparr>"

record timely_dir =
  td_inflight :: u64
  td_rate :: real
  td_min_delay :: int
  td_prev_delay :: int
  td_avg_delay_diff :: real
  td_have_prev :: bool
  td_next_send :: cc_time
  td_last_update :: cc_time
  td_have_last_update :: bool

record timely_cc =
  tc_params :: timely_params
  tc_dir :: "cc_direction \<Rightarrow> timely_dir"

definition max_ns :: int where "max_ns = 2 ^ 63 - 1"

definition make_cc_timely :: "timely_params \<Rightarrow> cc_time \<Rightarrow> timely_cc" where
  "make_cc_timely p now = \<lparr>tc_params = p, tc_dir = (\<lambda>_.
     \<lparr>td_inflight = 0, td_rate = tp_additive_increase p * 10, td_min_delay = max_ns,
      td_prev_delay = 0, td_avg_delay_diff = 0, td_have_prev = False, td_next_send = now,
      td_last_update = 0, td_have_last_update = False\<rparr>)\<rparr>"

definition base_ns :: "timely_dir \<Rightarrow> real" where
  "base_ns d = (if td_min_delay d = max_ns then 1000000 else real_of_int (td_min_delay d))"

text \<open>The cast of the product to 64 bits is a wrap here; in the source it is undefined above 2^64.\<close>

definition window_locked :: "timely_dir \<Rightarrow> u64" where
  "window_locked d =
    (let w = (word_of_int \<lfloor>td_rate d * base_ns d / 1000000000\<rfloor> :: u64)
     in if w < 65536 then 65536 else w)"

definition rounds_since_locked :: "timely_dir \<Rightarrow> cc_time \<Rightarrow> real" where
  "rounds_since_locked d now =
    (if \<not> td_have_last_update d then 1
     else if base_ns d \<le> 0 then 1
     else let dt = real_of_int (now - td_last_update d) in
       if dt \<le> 0 then 0
       else let rounds = dt / base_ns d in if rounds > 64 then 64 else rounds)"

text \<open>The rate the sample asks for, before it is clamped.\<close>

definition wanted_rate :: "timely_params \<Rightarrow> timely_dir \<Rightarrow> real \<Rightarrow> int \<Rightarrow> real" where
  "wanted_rate p d rounds rtt =
    (let sample_us = real_of_int rtt / 1000 in
     if sample_us < real_of_int (tp_t_low_us p) then
       td_rate d + tp_additive_increase p * rounds
     else if sample_us > real_of_int (tp_t_high_us p) then
       td_rate d * (1 - tp_beta p * (1 - real_of_int (tp_t_high_us p) / sample_us))
     else
       let min_us = real_of_int (td_min_delay d) / 1000;
           norm_grad = td_avg_delay_diff d / (if min_us > 0 then min_us else 1)
       in if norm_grad \<le> 0 then td_rate d + tp_additive_increase p * rounds
          else td_rate d * (1 - tp_beta p * norm_grad))"

definition clamp_rate :: "timely_params \<Rightarrow> real \<Rightarrow> real" where
  "clamp_rate p r =
    (let r1 = (if r < tp_min_rate p then tp_min_rate p else r)
     in if r1 > tp_max_rate p then tp_max_rate p else r1)"

definition update_rate_locked :: "timely_params \<Rightarrow> int \<Rightarrow> cc_time \<Rightarrow> timely_dir \<Rightarrow> timely_dir" where
  "update_rate_locked p rtt now d =
    (if rtt \<le> 0 then d
     else let
       d1 = (if rtt < td_min_delay d then d\<lparr>td_min_delay := rtt\<rparr> else d);
       rounds = rounds_since_locked d1 now;
       d2 = d1\<lparr>td_last_update := now, td_have_last_update := True\<rparr>
     in if \<not> td_have_prev d2 then d2\<lparr>td_prev_delay := rtt, td_have_prev := True\<rparr>
        else let
          diff_us = real_of_int (rtt - td_prev_delay d2) / 1000;
          d3 = d2\<lparr>td_prev_delay := rtt,
                  td_avg_delay_diff := (1 - tp_ewma_alpha p) * td_avg_delay_diff d2 +
                                       tp_ewma_alpha p * diff_us\<rparr>
        in d3\<lparr>td_rate := clamp_rate p (wanted_rate p d3 rounds rtt)\<rparr>)"

definition tc_allow :: "cc_direction \<Rightarrow> u64 \<Rightarrow> cc_time \<Rightarrow> timely_cc \<Rightarrow> cc_verdict" where
  "tc_allow dir b now c =
    (let d = tc_dir c dir in
     if now < td_next_send d then kPaced
     else let window = window_locked d in
       if td_inflight d + b \<le> window then kAllowed
       else if b > window \<and> td_inflight d = 0 then kAllowed
       else kOverBudget)"

definition tc_on_post :: "cc_direction \<Rightarrow> u64 \<Rightarrow> cc_time \<Rightarrow> timely_cc \<Rightarrow> timely_cc" where
  "tc_on_post dir b now c =
    (let d = tc_dir c dir;
         gap = \<lfloor>real (unat b) / td_rate d * 1000000000\<rfloor>;
         base = (if now > td_next_send d then now else td_next_send d)
     in c\<lparr>tc_dir := (tc_dir c)(dir := d\<lparr>td_inflight := td_inflight d + b, td_next_send := base + gap\<rparr>)\<rparr>)"

definition td_release :: "u64 \<Rightarrow> timely_dir \<Rightarrow> timely_dir" where
  "td_release b d = d\<lparr>td_inflight := release_bytes (td_inflight d) b\<rparr>"

definition tc_on_feedback :: "cc_direction \<Rightarrow> u64 \<Rightarrow> int \<Rightarrow> cc_time \<Rightarrow> timely_cc \<Rightarrow> timely_cc" where
  "tc_on_feedback dir b rtt now c = c\<lparr>tc_dir := (tc_dir c)(dir :=
     update_rate_locked (tc_params c) rtt now (td_release b (tc_dir c dir)))\<rparr>"

definition tc_on_error :: "cc_direction \<Rightarrow> u64 \<Rightarrow> cc_time \<Rightarrow> timely_cc \<Rightarrow> timely_cc" where
  "tc_on_error dir b now c = c\<lparr>tc_dir := (tc_dir c)(dir := td_release b (tc_dir c dir))\<rparr>"

definition tc_inflight_bytes :: "cc_direction \<Rightarrow> timely_cc \<Rightarrow> u64" where
  "tc_inflight_bytes dir c = td_inflight (tc_dir c dir)"

definition tc_window_bytes :: "cc_direction \<Rightarrow> timely_cc \<Rightarrow> u64" where
  "tc_window_bytes dir c = window_locked (tc_dir c dir)"

definition tc_next_send_time :: "cc_direction \<Rightarrow> timely_cc \<Rightarrow> cc_time" where
  "tc_next_send_time dir c = td_next_send (tc_dir c dir)"

section \<open>Dispatch\<close>

text \<open>A \<open>CongestionControllerPtr\<close>: one of the three, with the virtual calls.\<close>

datatype controller = CcOff off_cc | CcFixed fixed_cc | CcTimely timely_cc

fun cc_allow :: "cc_direction \<Rightarrow> u64 \<Rightarrow> cc_time \<Rightarrow> controller \<Rightarrow> cc_verdict" where
  "cc_allow d b now (CcOff c) = off_allow d b now c"
| "cc_allow d b now (CcFixed c) = fw_allow d b now c"
| "cc_allow d b now (CcTimely c) = tc_allow d b now c"

fun cc_on_post :: "cc_direction \<Rightarrow> u64 \<Rightarrow> cc_time \<Rightarrow> controller \<Rightarrow> controller" where
  "cc_on_post d b now (CcOff c) = CcOff (off_on_post d b now c)"
| "cc_on_post d b now (CcFixed c) = CcFixed (fw_on_post d b now c)"
| "cc_on_post d b now (CcTimely c) = CcTimely (tc_on_post d b now c)"

fun cc_on_feedback :: "cc_direction \<Rightarrow> u64 \<Rightarrow> int \<Rightarrow> cc_time \<Rightarrow> controller \<Rightarrow> controller" where
  "cc_on_feedback d b rtt now (CcOff c) = CcOff (off_on_feedback d b rtt now c)"
| "cc_on_feedback d b rtt now (CcFixed c) = CcFixed (fw_on_feedback d b rtt now c)"
| "cc_on_feedback d b rtt now (CcTimely c) = CcTimely (tc_on_feedback d b rtt now c)"

fun cc_on_error :: "cc_direction \<Rightarrow> u64 \<Rightarrow> cc_time \<Rightarrow> controller \<Rightarrow> controller" where
  "cc_on_error d b now (CcOff c) = CcOff (off_on_error d b now c)"
| "cc_on_error d b now (CcFixed c) = CcFixed (fw_on_error d b now c)"
| "cc_on_error d b now (CcTimely c) = CcTimely (tc_on_error d b now c)"

fun cc_inflight :: "cc_direction \<Rightarrow> controller \<Rightarrow> u64" where
  "cc_inflight d (CcOff c) = off_inflight c d"
| "cc_inflight d (CcFixed c) = fw_inflight c d"
| "cc_inflight d (CcTimely c) = tc_inflight_bytes d c"

fun cc_window :: "cc_direction \<Rightarrow> controller \<Rightarrow> u64" where
  "cc_window d (CcOff c) = off_window_bytes d c"
| "cc_window d (CcFixed c) = fw_window_bytes d c"
| "cc_window d (CcTimely c) = tc_window_bytes d c"

section \<open>The contract\<close>

text \<open>The posts that have not completed, and what they add up to in each direction.\<close>

type_synonym ledger = "(cc_direction \<times> u64) list"

definition ledger_bytes :: "cc_direction \<Rightarrow> ledger \<Rightarrow> nat" where
  "ledger_bytes d out = sum_list (map (\<lambda>x. unat (snd x)) (filter (\<lambda>x. fst x = d) out))"

definition tracks :: "(cc_direction \<Rightarrow> 's \<Rightarrow> u64) \<Rightarrow> ledger \<Rightarrow> 's \<Rightarrow> bool" where
  "tracks inflight out s \<longleftrightarrow> (\<forall>d. unat (inflight d s) = ledger_bytes d out)"

lemma ledger_bytes_Nil [simp]: "ledger_bytes d [] = 0"
  by (simp add: ledger_bytes_def)

lemma ledger_bytes_Cons [simp]:
  "ledger_bytes d (x # out) = (if fst x = d then unat (snd x) else 0) + ledger_bytes d out"
  by (simp add: ledger_bytes_def)

lemma ledger_bytes_remove1:
  "x \<in> set out \<Longrightarrow>
   ledger_bytes d out = (if fst x = d then unat (snd x) else 0) + ledger_bytes d (remove1 x out)"
  by (induction out) auto

lemma unat_release:
  "unat b \<le> unat used \<Longrightarrow> unat (release_bytes used b) = unat used - unat b"
  by (cases "b = used") (auto simp: release_bytes_def word_less_nat_alt word_le_nat_alt)

locale congestion_controller =
  fixes allow :: "cc_direction \<Rightarrow> u64 \<Rightarrow> cc_time \<Rightarrow> 's \<Rightarrow> cc_verdict"
    and on_post :: "cc_direction \<Rightarrow> u64 \<Rightarrow> cc_time \<Rightarrow> 's \<Rightarrow> 's"
    and on_feedback :: "cc_direction \<Rightarrow> u64 \<Rightarrow> int \<Rightarrow> cc_time \<Rightarrow> 's \<Rightarrow> 's"
    and on_error :: "cc_direction \<Rightarrow> u64 \<Rightarrow> cc_time \<Rightarrow> 's \<Rightarrow> 's"
    and inflight :: "cc_direction \<Rightarrow> 's \<Rightarrow> u64"
    and window :: "cc_direction \<Rightarrow> 's \<Rightarrow> u64"
  assumes inflight_post:
      "inflight e (on_post d b t s) = (if e = d then inflight d s + b else inflight e s)"
    and inflight_feedback:
      "inflight e (on_feedback d b rtt t s) = (if e = d then release_bytes (inflight d s) b else inflight e s)"
    and inflight_error:
      "inflight e (on_error d b t s) = (if e = d then release_bytes (inflight d s) b else inflight e s)"
    and allow_budget: "allow d b t s = kAllowed \<Longrightarrow>
      window d s = 0 \<or> inflight d s + b \<le> window d s \<or> inflight d s = 0"
    and allow_alone: "inflight d s = 0 \<Longrightarrow> allow d b t s \<noteq> kOverBudget"
begin

lemma tracks_post:
  assumes "tracks inflight out s" "ledger_bytes d out + unat b < 2 ^ 64"
  shows "tracks inflight ((d, b) # out) (on_post d b t s)"
  using assms unat_add_small [of "inflight d s" b] by (auto simp: tracks_def inflight_post)

lemma tracks_feedback:
  assumes "tracks inflight out s" "(d, b) \<in> set out"
  shows "tracks inflight (remove1 (d, b) out) (on_feedback d b rtt t s)"
  using assms ledger_bytes_remove1 [OF assms(2)]
  by (auto simp: tracks_def inflight_feedback unat_release)

lemma tracks_error:
  assumes "tracks inflight out s" "(d, b) \<in> set out"
  shows "tracks inflight (remove1 (d, b) out) (on_error d b t s)"
  using assms ledger_bytes_remove1 [OF assms(2)]
  by (auto simp: tracks_def inflight_error unat_release)

lemma drained_allows:
  assumes "tracks inflight [] s"
  shows "inflight d s = 0 \<and> allow d b t s \<noteq> kOverBudget"
proof -
  have "inflight d s = 0" using assms by (simp add: tracks_def unat_eq_0)
  with allow_alone show ?thesis by blast
qed

lemma admitted_within_window:
  assumes "allow d b t s = kAllowed" "window d s \<noteq> 0" "unat (inflight d s) + unat b < 2 ^ 64"
  shows "unat (inflight d (on_post d b t s)) \<le> max (unat (window d s)) (unat b)"
proof -
  have "unat (inflight d (on_post d b t s)) = unat (inflight d s) + unat b"
    using assms(3) unat_add_small [of "inflight d s" b] by (simp add: inflight_post)
  with allow_budget [OF assms(1)] assms unat_add_small [of "inflight d s" b] show ?thesis
    by (auto simp: word_le_nat_alt)
qed

end

lemmas off_defs = off_allow_def off_on_post_def off_on_feedback_def off_on_error_def off_release_def
  off_window_bytes_def
lemmas fw_defs = fw_allow_def fw_on_post_def fw_on_feedback_def fw_on_error_def fw_release_def
  fw_window_bytes_def
lemmas tc_defs = tc_allow_def tc_on_post_def tc_on_feedback_def tc_on_error_def td_release_def
  tc_inflight_bytes_def tc_window_bytes_def

lemma inflight_update_rate [simp]: "td_inflight (update_rate_locked p rtt now d) = td_inflight d"
  by (simp add: update_rate_locked_def Let_def)

interpretation off_cc: congestion_controller off_allow off_on_post off_on_feedback off_on_error
  "\<lambda>d c. off_inflight c d" off_window_bytes
  by unfold_locales (auto simp: off_defs release_bytes_def Let_def)

interpretation fixed_cc: congestion_controller fw_allow fw_on_post fw_on_feedback fw_on_error
  "\<lambda>d c. fw_inflight c d" fw_window_bytes
  by unfold_locales (auto simp: fw_defs Let_def not_less split: if_splits)

interpretation timely_cc: congestion_controller tc_allow tc_on_post tc_on_feedback tc_on_error
  tc_inflight_bytes tc_window_bytes
  by unfold_locales (auto simp: tc_defs Let_def not_less split: if_splits)

interpretation any_cc: congestion_controller cc_allow cc_on_post cc_on_feedback cc_on_error
  cc_inflight cc_window
proof
  fix d e b t rtt and s :: controller
  show "cc_inflight e (cc_on_post d b t s) = (if e = d then cc_inflight d s + b else cc_inflight e s)"
    by (cases s) (simp_all add: off_cc.inflight_post fixed_cc.inflight_post timely_cc.inflight_post)
  show "cc_inflight e (cc_on_feedback d b rtt t s) =
      (if e = d then release_bytes (cc_inflight d s) b else cc_inflight e s)"
    by (cases s) (simp_all add: off_cc.inflight_feedback fixed_cc.inflight_feedback timely_cc.inflight_feedback)
  show "cc_inflight e (cc_on_error d b t s) =
      (if e = d then release_bytes (cc_inflight d s) b else cc_inflight e s)"
    by (cases s) (simp_all add: off_cc.inflight_error fixed_cc.inflight_error timely_cc.inflight_error)
  show "cc_allow d b t s = kAllowed \<Longrightarrow>
      cc_window d s = 0 \<or> cc_inflight d s + b \<le> cc_window d s \<or> cc_inflight d s = 0"
    by (cases s) (auto dest: off_cc.allow_budget fixed_cc.allow_budget timely_cc.allow_budget)
  show "cc_inflight d s = 0 \<Longrightarrow> cc_allow d b t s \<noteq> kOverBudget"
    by (cases s) (simp_all add: off_cc.allow_alone fixed_cc.allow_alone timely_cc.allow_alone)
qed

section \<open>Posts and completions in any order\<close>

datatype cc_event = CcPost cc_direction u64 | CcDone cc_direction u64 int | CcFailed cc_direction u64

text \<open>
  The ledger after an event, and whether the event is one a transport makes: a completion is
  of a post that is outstanding, and a post does not take the outstanding bytes past 2^64.
\<close>

fun ledger_after :: "cc_event \<Rightarrow> ledger \<Rightarrow> ledger" where
  "ledger_after (CcPost d b) out = (d, b) # out"
| "ledger_after (CcDone d b rtt) out = remove1 (d, b) out"
| "ledger_after (CcFailed d b) out = remove1 (d, b) out"

fun event_ok :: "cc_event \<Rightarrow> ledger \<Rightarrow> bool" where
  "event_ok (CcPost d b) out \<longleftrightarrow> ledger_bytes d out + unat b < 2 ^ 64"
| "event_ok (CcDone d b rtt) out \<longleftrightarrow> (d, b) \<in> set out"
| "event_ok (CcFailed d b) out \<longleftrightarrow> (d, b) \<in> set out"

fun cc_apply :: "cc_event \<Rightarrow> cc_time \<Rightarrow> controller \<Rightarrow> controller" where
  "cc_apply (CcPost d b) now c = cc_on_post d b now c"
| "cc_apply (CcDone d b rtt) now c = cc_on_feedback d b rtt now c"
| "cc_apply (CcFailed d b) now c = cc_on_error d b now c"

fun cc_run :: "(cc_event \<times> cc_time) list \<Rightarrow> ledger \<times> controller \<Rightarrow> (ledger \<times> controller) option" where
  "cc_run [] (out, c) = Some (out, c)"
| "cc_run ((ev, now) # evs) (out, c) =
    (if event_ok ev out then cc_run evs (ledger_after ev out, cc_apply ev now c) else None)"

lemma cc_apply_tracks:
  "tracks cc_inflight out c \<Longrightarrow> event_ok ev out \<Longrightarrow> tracks cc_inflight (ledger_after ev out) (cc_apply ev now c)"
  by (cases ev) (simp_all add: any_cc.tracks_post any_cc.tracks_feedback any_cc.tracks_error)

lemma cc_run_tracks:
  "cc_run evs (out, c) = Some (out', c') \<Longrightarrow> tracks cc_inflight out c \<Longrightarrow> tracks cc_inflight out' c'"
proof (induction evs arbitrary: out c)
  case (Cons e evs)
  then show ?case by (cases e) (auto split: if_splits intro: cc_apply_tracks)
qed simp

fun cc_fresh :: "controller \<Rightarrow> bool" where
  "cc_fresh (CcOff c) \<longleftrightarrow> c = make_cc_off"
| "cc_fresh (CcFixed c) \<longleftrightarrow> (\<exists>w. c = make_cc_fixed_window w)"
| "cc_fresh (CcTimely c) \<longleftrightarrow> (\<exists>p now. c = make_cc_timely p now)"

lemma tracks_fresh: "cc_fresh c \<Longrightarrow> tracks cc_inflight [] c"
  by (cases c) (auto simp: tracks_def make_cc_off_def make_cc_fixed_window_def make_cc_timely_def
      tc_inflight_bytes_def)

section \<open>The adaptive rate\<close>

definition timely_params_ok :: "timely_params \<Rightarrow> bool" where
  "timely_params_ok p \<longleftrightarrow> 0 < tp_min_rate p \<and> tp_min_rate p \<le> tp_additive_increase p * 10 \<and>
     tp_additive_increase p * 10 \<le> tp_max_rate p"

definition rate_ok :: "timely_params \<Rightarrow> timely_dir \<Rightarrow> bool" where
  "rate_ok p d \<longleftrightarrow> tp_min_rate p \<le> td_rate d \<and> td_rate d \<le> tp_max_rate p"

lemma clamp_rate_range: "tp_min_rate p \<le> tp_max_rate p \<Longrightarrow>
   tp_min_rate p \<le> clamp_rate p r \<and> clamp_rate p r \<le> tp_max_rate p"
  by (simp add: clamp_rate_def Let_def)

lemma update_rate_ok: "timely_params_ok p \<Longrightarrow> rate_ok p d \<Longrightarrow> rate_ok p (update_rate_locked p rtt now d)"
  using clamp_rate_range [of p]
  by (simp add: update_rate_locked_def rate_ok_def timely_params_ok_def Let_def)

lemma next_send_update_rate [simp]: "td_next_send (update_rate_locked p rtt now d) = td_next_send d"
  by (simp add: update_rate_locked_def Let_def)

text \<open>One call on the adaptive controller.\<close>

fun tc_apply :: "cc_event \<Rightarrow> cc_time \<Rightarrow> timely_cc \<Rightarrow> timely_cc" where
  "tc_apply (CcPost d b) now c = tc_on_post d b now c"
| "tc_apply (CcDone d b rtt) now c = tc_on_feedback d b rtt now c"
| "tc_apply (CcFailed d b) now c = tc_on_error d b now c"

definition timely_inv :: "timely_params \<Rightarrow> timely_cc \<Rightarrow> bool" where
  "timely_inv p c \<longleftrightarrow> tc_params c = p \<and> (\<forall>d. rate_ok p (tc_dir c d))"

lemma timely_inv_make: "timely_params_ok p \<Longrightarrow> timely_inv p (make_cc_timely p now)"
  by (simp add: timely_inv_def make_cc_timely_def rate_ok_def timely_params_ok_def)

lemma timely_inv_apply: "timely_params_ok p \<Longrightarrow> timely_inv p c \<Longrightarrow> timely_inv p (tc_apply ev now c)"
  by (cases ev) (auto simp: timely_inv_def tc_on_post_def tc_on_feedback_def tc_on_error_def Let_def
      td_release_def rate_ok_def intro!: update_rate_ok [unfolded rate_ok_def])

lemma timely_inv_fold:
  "timely_params_ok p \<Longrightarrow> timely_inv p c \<Longrightarrow> timely_inv p (fold (\<lambda>(ev, now). tc_apply ev now) evs c)"
  by (induction evs arbitrary: c) (auto intro: timely_inv_apply)

lemma gap_nonneg:
  "timely_params_ok p \<Longrightarrow> rate_ok p d \<Longrightarrow> 0 \<le> \<lfloor>real (unat b) / td_rate d * 1000000000\<rfloor>"
  unfolding zero_le_floor by (intro mult_nonneg_nonneg divide_nonneg_nonneg of_nat_0_le_iff)
    (simp_all add: timely_params_ok_def rate_ok_def)

lemma next_send_mono:
  "timely_params_ok p \<Longrightarrow> timely_inv p c \<Longrightarrow> tc_next_send_time d c \<le> tc_next_send_time d (tc_apply ev now c)"
  using gap_nonneg [of p "tc_dir c d"]
  by (cases ev) (auto simp: tc_next_send_time_def timely_inv_def tc_on_post_def tc_on_feedback_def
      tc_on_error_def td_release_def Let_def add_increasing2)

lemma next_send_mono_fold:
  "timely_params_ok p \<Longrightarrow> timely_inv p c \<Longrightarrow>
   tc_next_send_time d c \<le> tc_next_send_time d (fold (\<lambda>(ev, now). tc_apply ev now) evs c)"
proof (induction evs arbitrary: c)
  case (Cons e evs)
  obtain ev now where e: "e = (ev, now)" by (cases e)
  have "tc_next_send_time d c \<le> tc_next_send_time d (tc_apply ev now c)"
    using Cons.prems by (rule next_send_mono)
  also have "\<dots> \<le> tc_next_send_time d (fold (\<lambda>(ev, now). tc_apply ev now) evs (tc_apply ev now c))"
    using Cons.prems by (intro Cons.IH timely_inv_apply)
  finally show ?case by (simp add: e)
qed simp

lemma rounds_range: "0 \<le> rounds_since_locked d now \<and> rounds_since_locked d now \<le> 64"
  by (simp add: rounds_since_locked_def Let_def)

section \<open>Properties\<close>

text \<open>
  (C15) Budget is conserved, whichever controller is installed: after any sequence of posts and
  completions, successful or failed, in which each completion is of an outstanding post, the
  in-flight count of each direction is exactly the bytes outstanding in that direction. Nothing
  leaks: with nothing outstanding the count is zero, and no post is refused for budget however
  large it is.
\<close>

theorem cc_budget_conserved:
  assumes "cc_fresh c0" "cc_run evs ([], c0) = Some (out, c)"
  shows "unat (cc_inflight d c) = ledger_bytes d out \<and>
         (out = [] \<longrightarrow> cc_allow d b now c \<noteq> kOverBudget)"
proof -
  have t: "tracks cc_inflight out c"
    using cc_run_tracks [OF assms(2) tracks_fresh [OF assms(1)]] .
  then have "out = [] \<Longrightarrow> cc_allow d b now c \<noteq> kOverBudget"
    using any_cc.drained_allows by blast
  with t show ?thesis by (simp add: tracks_def)
qed

theorem cc_budget_conserved_witness:
  "unat (cc_inflight CC_kWrite (cc_apply (CcDone CC_kWrite 100 7) 5 (cc_apply (CcPost CC_kWrite 300) 4
      (cc_apply (CcPost CC_kWrite 100) 3 (CcFixed (make_cc_fixed_window 1000)))))) = 300"
proof -
  let ?c = "CcFixed (make_cc_fixed_window 1000)"
  have run: "cc_run [(CcPost CC_kWrite 100, 3), (CcPost CC_kWrite 300, 4), (CcDone CC_kWrite 100 7, 5)] ([], ?c)
      = Some ([(CC_kWrite, 300)], cc_apply (CcDone CC_kWrite 100 7) 5 (cc_apply (CcPost CC_kWrite 300) 4
        (cc_apply (CcPost CC_kWrite 100) 3 ?c)))"
    by simp
  have "cc_fresh ?c" by auto
  from cc_budget_conserved [OF this run, of CC_kWrite 0 0] show ?thesis
    by (simp only: ledger_bytes_Cons ledger_bytes_Nil) simp
qed

text \<open>
  (C30) The window is respected: when a controller with a window admits a post, the bytes in flight
  after it are within the window, or the post is alone in flight.
\<close>

theorem cc_window_respected:
  assumes "cc_allow d b now c = kAllowed" "cc_window d c \<noteq> 0" "unat (cc_inflight d c) + unat b < 2 ^ 64"
  shows "unat (cc_inflight d (cc_on_post d b now c)) \<le> max (unat (cc_window d c)) (unat b)"
  using assms by (rule any_cc.admitted_within_window)

theorem cc_window_respected_witness:
  "unat (cc_inflight CC_kRead (cc_on_post CC_kRead 600 0 (cc_on_post CC_kRead 400 0
      (CcFixed (make_cc_fixed_window 1000))))) \<le> 1000"
  using cc_window_respected [of CC_kRead 600 0 "cc_on_post CC_kRead 400 0 (CcFixed (make_cc_fixed_window 1000))"]
  by (simp add: fw_defs make_cc_fixed_window_def word_le_nat_alt)

text \<open>
  (C31) The adaptive controller stays within its bounds whatever delays it is fed: the rate of each
  direction is between the configured minimum and maximum, the window never closes below 64 KiB,
  the pacing time never moves back, and no stretch of idleness counts for more than 64 rounds.
\<close>

theorem timely_bounds:
  assumes "timely_params_ok p" "c = fold (\<lambda>(ev, t). tc_apply ev t) evs (make_cc_timely p start)"
  shows "tp_min_rate p \<le> td_rate (tc_dir c d) \<and> td_rate (tc_dir c d) \<le> tp_max_rate p \<and>
         65536 \<le> tc_window_bytes d c \<and> start \<le> tc_next_send_time d c \<and>
         rounds_since_locked (tc_dir c d) now \<le> 64"
proof -
  have "timely_inv p c"
    using assms timely_inv_fold timely_inv_make by simp
  moreover have "tc_next_send_time d (make_cc_timely p start) \<le> tc_next_send_time d c"
    using assms next_send_mono_fold timely_inv_make by simp
  moreover have "65536 \<le> tc_window_bytes d c"
    by (simp add: tc_window_bytes_def window_locked_def Let_def not_less)
  ultimately show ?thesis
    using rounds_range by (simp add: timely_inv_def rate_ok_def tc_next_send_time_def make_cc_timely_def)
qed

theorem timely_bounds_witness:
  "65536 \<le> tc_window_bytes CC_kWrite (fold (\<lambda>(ev, t). tc_apply ev t)
      [(CcPost CC_kWrite 4096, 10), (CcDone CC_kWrite 4096 60000, 60010)] (make_cc_timely default_timely 0))"
proof -
  have "timely_params_ok default_timely" by (simp add: timely_params_ok_def default_timely_def)
  from timely_bounds [OF this refl] show ?thesis by blast
qed

text \<open>
  Pacing is applied to the post itself: after a post of \<open>b\<close> bytes at time \<open>now\<close>, the adaptive
  controller answers kPaced to everything until the time those bytes take at the current rate
  has passed, counted from \<open>now\<close> or from the end of the previous gap if that is later.
\<close>

theorem timely_paces:
  assumes "t < max now (tc_next_send_time d c) + \<lfloor>real (unat b) / td_rate (tc_dir c d) * 1000000000\<rfloor>"
  shows "tc_allow d b' t (tc_on_post d b now c) = kPaced"
  using assms by (simp add: tc_allow_def tc_on_post_def tc_next_send_time_def Let_def max_def split: if_splits)

theorem timely_paces_witness:
  "tc_allow CC_kWrite 1 999 (tc_on_post CC_kWrite 100 0 (make_cc_timely default_timely 0)) = kPaced"
  by (rule timely_paces) (simp add: make_cc_timely_def default_timely_def tc_next_send_time_def)

end
