(* ===== verification/Hux_Outbox.thy ===== *)
theory Hux_Outbox
  imports Hux_Control "HOL-Library.Sublist"
begin

text \<open>
  transport/control_outbox.*: the queue in front of a control socket. The socket is what the
  kernel answers to each \<open>send\<close>: a list of outcomes, of which a call consumes as many as it
  makes sends; a list that has run out answers EAGAIN. Every byte the kernel took is appended
  to \<open>ob_wire\<close>, which the program does not have: it is what the peer will read.
\<close>

datatype send_outcome = Sent nat | Interrupted | Again | SendError

text \<open>
  What the transports' sockets answer besides: to a \<open>recv\<close>, where no bytes are the end of the
  stream, and to one turn of a wait for a peer to dial in, a socket (negative if taking it
  failed) or nothing, and whether the deadline has passed by then.
\<close>

datatype recv_outcome = Got bytes | RecvInterrupted | RecvAgain | RecvError
datatype accept_turn = Came int | Nothing bool

record outbox =
  ob_fd :: int
  ob_limit :: nat
  ob_q :: "bytes list"
  ob_front_off :: nat
  ob_bytes :: nat
  ob_broken :: bool
  ob_wire :: bytes

definition kDefaultLimit :: nat where "kDefaultLimit = 2 ^ 20"

definition reset :: "int \<Rightarrow> nat \<Rightarrow> outbox" where
  "reset fd limit = \<lparr>ob_fd = fd, ob_limit = limit, ob_q = [], ob_front_off = 0, ob_bytes = 0,
     ob_broken = False, ob_wire = []\<rparr>"

text \<open>One \<open>send\<close> of \<open>left\<close> bytes: how many the kernel took, at most those offered.\<close>

definition taken :: "nat \<Rightarrow> nat \<Rightarrow> nat" where
  "taken k left = min k left"

text \<open>The front message after \<open>n\<close> more of its bytes have gone out.\<close>

definition advance :: "nat \<Rightarrow> outbox \<Rightarrow> outbox" where
  "advance n ob =
    (let m = hd (ob_q ob);
         off = ob_front_off ob + n;
         ob1 = ob\<lparr>ob_front_off := off, ob_bytes := ob_bytes ob - n,
                  ob_wire := ob_wire ob @ take n (drop (ob_front_off ob) m)\<rparr>
     in if off = length m then ob1\<lparr>ob_q := tl (ob_q ob), ob_front_off := 0\<rparr> else ob1)"

fun flush_loop :: "send_outcome list \<Rightarrow> outbox \<Rightarrow> status \<times> outbox \<times> send_outcome list" where
  "flush_loop os ob =
    (case ob_q ob of
       [] \<Rightarrow> (kOk, ob, os)
     | m # q \<Rightarrow>
        (case os of
           [] \<Rightarrow> (kWouldBlock, ob, [])
         | Sent k # os' \<Rightarrow>
            (let n = taken k (length m - ob_front_off ob) in
             if 0 < n then flush_loop os' (advance n ob)
             else (kPeerDisconnected, ob\<lparr>ob_broken := True\<rparr>, os'))
         | Interrupted # os' \<Rightarrow> flush_loop os' ob
         | Again # os' \<Rightarrow> (kWouldBlock, ob, os')
         | SendError # os' \<Rightarrow> (kPeerDisconnected, ob\<lparr>ob_broken := True\<rparr>, os')))"

declare flush_loop.simps [simp del]

definition flush_locked :: "send_outcome list \<Rightarrow> outbox \<Rightarrow> status \<times> outbox \<times> send_outcome list" where
  "flush_locked os ob =
    (if ob_broken ob then (kPeerDisconnected, ob, os)
     else if ob_fd ob < 0 then (kPeerDisconnected, ob, os)
     else flush_loop os ob)"

text \<open>The direct write of a message onto an idle socket: how far it got, or \<open>None\<close> if it broke.\<close>

fun send_loop :: "send_outcome list \<Rightarrow> bytes \<Rightarrow> nat \<Rightarrow> nat option \<times> nat" where
  "send_loop os msg off =
    (if length msg \<le> off then (Some off, off)
     else case os of
       [] \<Rightarrow> (Some off, off)
     | Sent k # os' \<Rightarrow>
        (let n = taken k (length msg - off) in
         if 0 < n then send_loop os' msg (off + n) else (None, off))
     | Interrupted # os' \<Rightarrow> send_loop os' msg off
     | Again # os' \<Rightarrow> (Some off, off)
     | SendError # os' \<Rightarrow> (None, off))"

declare send_loop.simps [simp del]

text \<open>Posting onto an idle socket, and behind a backlog.\<close>

definition post_direct :: "send_outcome list \<Rightarrow> bytes \<Rightarrow> outbox \<Rightarrow> status \<times> outbox" where
  "post_direct os msg ob =
    (case send_loop os msg 0 of
       (None, off) \<Rightarrow> (kPeerDisconnected, ob\<lparr>ob_broken := True, ob_wire := ob_wire ob @ take off msg\<rparr>)
     | (Some off, _) \<Rightarrow>
        (let ob2 = ob\<lparr>ob_wire := ob_wire ob @ take off msg\<rparr> in
         if off = length msg then (kOk, ob2)
         else (kOk, ob2\<lparr>ob_bytes := ob_bytes ob2 + (length msg - off),
                        ob_q := ob_q ob2 @ [msg], ob_front_off := off\<rparr>)))"

definition post_queued :: "bytes \<Rightarrow> outbox \<Rightarrow> status \<times> outbox" where
  "post_queued msg ob =
    (if ob_limit ob < ob_bytes ob + length msg then (kWouldBlock, ob)
     else (kOk, ob\<lparr>ob_bytes := ob_bytes ob + length msg, ob_q := ob_q ob @ [msg]\<rparr>))"

definition post :: "send_outcome list \<Rightarrow> bytes \<Rightarrow> outbox \<Rightarrow> status \<times> outbox" where
  "post os msg ob =
    (if msg = [] then (kInvalidArgument, ob)
     else if ob_broken ob \<or> ob_fd ob < 0 then (kPeerDisconnected, ob)
     else case flush_locked os ob of (s, ob1, os1) \<Rightarrow>
       if s = kPeerDisconnected then (s, ob1)
       else if ob_q ob1 = [] then post_direct os1 msg ob1
       else post_queued msg ob1)"

definition flush :: "send_outcome list \<Rightarrow> outbox \<Rightarrow> status \<times> outbox" where
  "flush os ob = (case flush_locked os ob of (s, ob', _) \<Rightarrow> (s, ob'))"

section \<open>The stream invariant\<close>

text \<open>What is queued and has not gone out yet.\<close>

definition backlog :: "outbox \<Rightarrow> bytes" where
  "backlog ob = drop (ob_front_off ob) (concat (ob_q ob))"

text \<open>
  \<open>outbox_inv P acc ob\<close>: \<open>acc\<close> are the messages taken so far, \<open>P\<close> those posted. While the channel works, what went
  out followed by what is queued is exactly those messages, whole and in order; once it broke,
  what went out is the beginning of them and perhaps of one posted message more.
\<close>

definition outbox_wf :: "outbox \<Rightarrow> bool" where
  "outbox_wf ob \<longleftrightarrow> ob_bytes ob = length (backlog ob) \<and> (\<forall>m\<in>set (ob_q ob). m \<noteq> []) \<and>
     (case ob_q ob of [] \<Rightarrow> ob_front_off ob = 0 | m # _ \<Rightarrow> ob_front_off ob < length m)"

definition outbox_inv :: "bytes set \<Rightarrow> bytes list \<Rightarrow> outbox \<Rightarrow> bool" where
  "outbox_inv P acc ob \<longleftrightarrow> outbox_wf ob \<and>
     (if ob_broken ob then \<exists>m\<in>insert [] P. prefix (ob_wire ob) (concat acc @ m)
      else ob_wire ob @ backlog ob = concat acc)"

lemma outbox_inv_reset: "outbox_inv P [] (reset fd limit)"
  by (simp add: outbox_inv_def outbox_wf_def backlog_def reset_def)

lemma advance_keeps:
  assumes wf: "outbox_wf ob" and q: "ob_q ob = m # q" and n: "n \<le> length m - ob_front_off ob"
  shows "outbox_wf (advance n ob)"
    "ob_wire (advance n ob) @ backlog (advance n ob) = ob_wire ob @ backlog ob"
    "ob_bytes (advance n ob) \<le> ob_bytes ob"
    "ob_broken (advance n ob) = ob_broken ob" "ob_limit (advance n ob) = ob_limit ob"
    "ob_fd (advance n ob) = ob_fd ob"
proof -
  have off: "ob_front_off ob < length m" and bytes: "ob_bytes ob = length (backlog ob)"
    and ne: "\<forall>m\<in>set q. m \<noteq> []"
    using wf q by (simp_all add: outbox_wf_def)
  have bl: "backlog ob = drop (ob_front_off ob) m @ concat q"
    using off q by (simp add: backlog_def)
  have split: "take n (drop (ob_front_off ob) m) @ drop (ob_front_off ob + n) m = drop (ob_front_off ob) m"
    by (metis add.commute append_take_drop_id drop_drop)
  have bl': "backlog (advance n ob) = drop (ob_front_off ob + n) m @ concat q"
    using n off q by (auto simp: advance_def Let_def backlog_def)
  show "ob_wire (advance n ob) @ backlog (advance n ob) = ob_wire ob @ backlog ob"
  proof -
    have "ob_wire (advance n ob) = ob_wire ob @ take n (drop (ob_front_off ob) m)"
      using q by (simp add: advance_def Let_def)
    then show ?thesis unfolding bl' bl using split by (metis append_assoc)
  qed
  have "ob_bytes (advance n ob) = length (backlog (advance n ob))"
    unfolding bl' using bl bytes n off q by (simp add: advance_def Let_def)
  moreover have "\<forall>m\<in>set (ob_q (advance n ob)). m \<noteq> []"
    using ne wf q by (auto simp: advance_def Let_def outbox_wf_def)
  moreover have "case ob_q (advance n ob) of [] \<Rightarrow> ob_front_off (advance n ob) = 0
      | m # _ \<Rightarrow> ob_front_off (advance n ob) < length m"
    using n off q ne by (auto simp: advance_def Let_def split: list.splits)
  ultimately show "outbox_wf (advance n ob)" by (simp add: outbox_wf_def)
qed (simp_all add: advance_def Let_def)

lemma outbox_wf_broken [simp]: "outbox_wf (ob\<lparr>ob_broken := b\<rparr>) = outbox_wf ob"
  "backlog (ob\<lparr>ob_broken := b\<rparr>) = backlog ob"
  by (cases "ob_q ob"; simp add: outbox_wf_def backlog_def)+

definition flush_post :: "outbox \<Rightarrow> status \<times> outbox \<times> send_outcome list \<Rightarrow> bool" where
  "flush_post ob = (\<lambda>(s, ob', os'). outbox_wf ob' \<and>
     ob_wire ob' @ backlog ob' = ob_wire ob @ backlog ob \<and>
     ob_bytes ob' \<le> ob_bytes ob \<and> ob_limit ob' = ob_limit ob \<and> ob_fd ob' = ob_fd ob \<and>
     (s = kPeerDisconnected \<longleftrightarrow> ob_broken ob') \<and> (s = kOk \<longrightarrow> ob_q ob' = []))"

lemma flush_loop_keeps:
  "outbox_wf ob \<Longrightarrow> \<not> ob_broken ob \<Longrightarrow> flush_post ob (flush_loop os ob)"
proof (induction os ob rule: flush_loop.induct)
  case (1 os ob)
  show ?case
  proof (cases "ob_q ob")
    case Nil
    with 1 show ?thesis by (subst flush_loop.simps) (simp add: flush_post_def)
  next
    case q: (Cons m q)
    show ?thesis
    proof (cases os)
      case Nil
      with 1 q show ?thesis by (subst flush_loop.simps) (simp add: flush_post_def)
    next
      case os: (Cons a os1)
      show ?thesis
      proof (cases a)
        case (Sent k)
        let ?n = "taken k (length m - ob_front_off ob)"
        show ?thesis
        proof (cases "0 < ?n")
          case True
          note adv = advance_keeps [OF 1(3) q, of ?n, unfolded taken_def, simplified]
          have "flush_post (advance ?n ob) (flush_loop os1 (advance ?n ob))"
            using 1 q os Sent True adv by (simp add: taken_def)
          with True q os Sent adv show ?thesis
            by (subst flush_loop.simps)
              (auto simp: flush_post_def taken_def Let_def split: prod.splits)
        qed (use 1 q os Sent in \<open>subst flush_loop.simps, simp add: flush_post_def\<close>)
      qed (use 1 q os in \<open>(subst flush_loop.simps, simp add: flush_post_def)+\<close>)
    qed
  qed
qed

lemma flush_locked_keeps:
  assumes "outbox_wf ob"
  shows "case flush_locked os ob of (s, ob', os') \<Rightarrow> outbox_wf ob' \<and>
     ob_wire ob' @ backlog ob' = ob_wire ob @ backlog ob \<and>
     ob_bytes ob' \<le> ob_bytes ob \<and> ob_limit ob' = ob_limit ob \<and>
     (ob_broken ob' \<longrightarrow> s = kPeerDisconnected) \<and> (ob_broken ob \<longrightarrow> ob' = ob)"
  using assms flush_loop_keeps [of ob os]
  by (auto simp: flush_locked_def flush_post_def split: prod.splits)

lemma send_loop_off:
  "off \<le> length msg \<Longrightarrow> send_loop os msg off = (r, off') \<Longrightarrow>
   off \<le> off' \<and> off' \<le> length msg \<and> (r = None \<or> r = Some off')"
proof (induction os msg off arbitrary: r off' rule: send_loop.induct)
  case (1 os msg off)
  then show ?case
    by (subst (asm) (3) send_loop.simps)
      (fastforce simp: taken_def Let_def split: if_splits list.splits send_outcome.splits)
qed

lemma flush_locked_inv:
  assumes "outbox_inv P acc ob" "flush_locked os ob = (s, ob', os')"
  shows "outbox_inv P acc ob'"
proof (cases "ob_broken ob")
  case True
  with assms show ?thesis by (simp add: flush_locked_def)
next
  case False
  have wf: "outbox_wf ob" using assms(1) by (simp add: outbox_inv_def)
  have "outbox_wf ob'" "ob_wire ob' @ backlog ob' = concat acc"
    using flush_locked_keeps [OF wf, of os] assms False by (simp_all add: outbox_inv_def)
  moreover from this have "prefix (ob_wire ob') (concat acc @ [])"
    by (metis append_Nil2 prefixI)
  ultimately show ?thesis unfolding outbox_inv_def by auto
qed

lemma post_cases:
  assumes "post os msg ob = (s, ob')"
  obtains (refused) "ob' = ob" "s \<noteq> kOk"
  | (broke) os1 where "flush_locked os ob = (s, ob', os1)" "s = kPeerDisconnected"
  | (direct) s1 ob1 os1 where "flush_locked os ob = (s1, ob1, os1)" "s1 \<noteq> kPeerDisconnected"
      "ob_q ob1 = []" "msg \<noteq> []" "post_direct os1 msg ob1 = (s, ob')"
  | (queued) s1 ob1 os1 where "flush_locked os ob = (s1, ob1, os1)" "s1 \<noteq> kPeerDisconnected"
      "ob_q ob1 \<noteq> []" "msg \<noteq> []" "post_queued msg ob1 = (s, ob')"
  using assms unfolding post_def
  by (cases "flush_locked os ob") (auto split: if_splits)

lemma post_direct_inv:
  assumes wf: "outbox_wf ob" and q: "ob_q ob = []" and nb: "\<not> ob_broken ob" and ne: "msg \<noteq> []"
    and str: "ob_wire ob @ backlog ob = concat acc" and p: "post_direct os msg ob = (s, ob')"
    and P: "msg \<in> P"
  shows "outbox_inv P (if s = kOk then acc @ [msg] else acc) ob'"
proof -
  have bl: "backlog ob = []" "ob_bytes ob = 0" using wf q by (simp_all add: outbox_wf_def backlog_def)
  obtain r off where sl: "send_loop os msg 0 = (r, off)" by (cases "send_loop os msg 0")
  have off: "off \<le> length msg" "r = None \<or> r = Some off" using send_loop_off [OF _ sl] by simp_all
  have w: "ob_wire ob = concat acc" using str bl by simp
  show ?thesis
  proof (cases r)
    case None
    have "prefix (concat acc @ take off msg) (concat acc @ msg)" by (simp add: take_is_prefix)
    with None p sl w wf q P show ?thesis
      by (auto simp: post_direct_def outbox_inv_def outbox_wf_def backlog_def)
  next
    case (Some k)
    with p sl off w nb bl wf q ne show ?thesis
      by (auto simp: post_direct_def Let_def outbox_inv_def outbox_wf_def backlog_def split: if_splits)
  qed
qed

lemma post_queued_inv:
  assumes wf: "outbox_wf ob" and q: "ob_q ob \<noteq> []" and nb: "\<not> ob_broken ob" and ne: "msg \<noteq> []"
    and str: "ob_wire ob @ backlog ob = concat acc" and p: "post_queued msg ob = (s, ob')"
  shows "outbox_inv P (if s = kOk then acc @ [msg] else acc) ob'"
proof -
  have "ob_front_off ob \<le> length (concat (ob_q ob))"
    using wf q by (cases "ob_q ob") (auto simp: outbox_wf_def)
  then have bl: "backlog (ob\<lparr>ob_bytes := b, ob_q := ob_q ob @ [msg]\<rparr>) = backlog ob @ msg" for b
    by (simp add: backlog_def)
  moreover have "outbox_wf (ob\<lparr>ob_bytes := ob_bytes ob + length msg, ob_q := ob_q ob @ [msg]\<rparr>)"
    using wf q ne bl by (cases "ob_q ob") (auto simp: outbox_wf_def)
  ultimately show ?thesis
    using p str nb wf
    by (auto simp: post_queued_def outbox_inv_def simp flip: append_assoc split: if_splits)
qed

lemma post_inv:
  assumes inv: "outbox_inv P acc ob" and post: "post os msg ob = (s, ob')" and P: "msg \<in> P"
  shows "outbox_inv P (if s = kOk then acc @ [msg] else acc) ob'"
proof -
  have live: "outbox_wf ob1 \<and> \<not> ob_broken ob1 \<and> ob_wire ob1 @ backlog ob1 = concat acc"
    if fl: "flush_locked os ob = (s1, ob1, os1)" and "s1 \<noteq> kPeerDisconnected" for s1 ob1 os1
    using flush_locked_keeps [of ob os] flush_locked_inv [OF inv fl] inv that
    by (auto simp: outbox_inv_def split: if_splits)
  from post show ?thesis
  proof (cases rule: post_cases)
    case (direct s1 ob1 os1)
    with live P post_direct_inv show ?thesis by blast
  next
    case (queued s1 ob1 os1)
    with live post_queued_inv show ?thesis by blast
  qed (use inv flush_locked_inv in auto)
qed

lemma post_bound:
  assumes "outbox_wf ob" "post os msg ob = (s, ob')" "ob_bytes ob \<le> M" "ob_limit ob \<le> M" "length msg \<le> M"
  shows "ob_bytes ob' \<le> M \<and> ob_limit ob' = ob_limit ob"
proof -
  have fl: "outbox_wf ob1 \<and> ob_bytes ob1 \<le> M \<and> ob_limit ob1 = ob_limit ob"
    if "flush_locked os ob = (s1, ob1, os1)" for s1 ob1 os1
    using flush_locked_keeps [OF assms(1), of os] that assms(3) by auto
  from assms(2) show ?thesis
  proof (cases rule: post_cases)
    case (direct s1 ob1 os1)
    then have "ob_bytes ob1 = 0" using fl by (simp add: outbox_wf_def backlog_def)
    with direct fl assms(4,5) show ?thesis
      by (auto simp: post_direct_def Let_def split: prod.splits option.splits if_splits)
  next
    case (queued s1 ob1 os1)
    with fl [OF queued(1)] assms(4) show ?thesis by (auto simp: post_queued_def split: if_splits)
  qed (use assms fl in auto)
qed

section \<open>Any sequence of calls\<close>

datatype outbox_call = CallPost "send_outcome list" bytes | CallFlush "send_outcome list"

text \<open>The messages \<open>post\<close> took, in order, and the outbox after the calls.\<close>

fun outbox_run :: "outbox_call list \<Rightarrow> bytes list \<Rightarrow> outbox \<Rightarrow> bytes list \<times> outbox" where
  "outbox_run [] acc ob = (acc, ob)"
| "outbox_run (CallPost os msg # cs) acc ob =
     (case post os msg ob of (s, ob') \<Rightarrow> outbox_run cs (if s = kOk then acc @ [msg] else acc) ob')"
| "outbox_run (CallFlush os # cs) acc ob = (case flush os ob of (s, ob') \<Rightarrow> outbox_run cs acc ob')"

fun call_msgs :: "outbox_call \<Rightarrow> bytes set" where
  "call_msgs (CallPost os msg) = {msg}"
| "call_msgs (CallFlush os) = {}"

fun call_size :: "outbox_call \<Rightarrow> nat" where
  "call_size (CallPost os msg) = length msg"
| "call_size (CallFlush os) = 0"

lemma outbox_run_inv:
  "outbox_inv P acc ob \<Longrightarrow> outbox_run cs acc ob = (acc', ob') \<Longrightarrow> (\<Union>c\<in>set cs. call_msgs c) \<subseteq> P \<Longrightarrow>
   outbox_inv P acc' ob'"
proof (induction cs acc ob rule: outbox_run.induct)
  case (2 os msg cs acc ob)
  obtain s ob1 where p: "post os msg ob = (s, ob1)" by (cases "post os msg ob")
  with 2 post_inv [OF 2(2) p] show ?case by simp
next
  case (3 os cs acc ob)
  obtain s ob1 os1 where f: "flush_locked os ob = (s, ob1, os1)" by (cases "flush_locked os ob")
  with 3 flush_locked_inv [OF 3(2) f] show ?case by (simp add: flush_def)
qed simp

lemma outbox_run_bound:
  "outbox_inv UNIV acc ob \<Longrightarrow> outbox_run cs acc ob = (acc', ob') \<Longrightarrow> \<forall>c\<in>set cs. call_size c \<le> M \<Longrightarrow>
   ob_bytes ob \<le> M \<Longrightarrow> ob_limit ob \<le> M \<Longrightarrow> ob_bytes ob' \<le> M"
proof (induction cs acc ob rule: outbox_run.induct)
  case (2 os msg cs acc ob)
  obtain s ob1 where p: "post os msg ob = (s, ob1)" by (cases "post os msg ob")
  have "ob_bytes ob1 \<le> M \<and> ob_limit ob1 = ob_limit ob"
    using 2 p by (intro post_bound [of ob os msg s]) (simp_all add: outbox_inv_def)
  with 2 p post_inv [OF 2(2) p] show ?case by simp
next
  case (3 os cs acc ob)
  obtain s ob1 os1 where f: "flush_locked os ob = (s, ob1, os1)" by (cases "flush_locked os ob")
  have "ob_bytes ob1 \<le> M \<and> ob_limit ob1 = ob_limit ob"
    using flush_locked_keeps [of ob os] 3 f by (simp add: outbox_inv_def)
  with 3 f flush_locked_inv [OF 3(2) f] show ?case by (simp add: flush_def)
qed simp

lemma flush_loop_drains:
  "outbox_wf ob \<Longrightarrow> ob_bytes ob \<le> length os \<Longrightarrow> \<forall>r\<in>set os. \<exists>k>0. r = Sent k \<Longrightarrow>
   fst (flush_loop os ob) = kOk"
proof (induction os ob rule: flush_loop.induct)
  case (1 os ob)
  show ?case
  proof (cases "ob_q ob")
    case Nil
    then show ?thesis by (subst flush_loop.simps) simp
  next
    case q: (Cons m q)
    then have fo: "ob_front_off ob < length m" and
      b: "ob_bytes ob = length m - ob_front_off ob + length (concat q)"
      using 1(3) by (auto simp: outbox_wf_def backlog_def)
    then obtain k os1 where os: "os = Sent k # os1" "0 < k"
      using 1(4,5) by (cases os) auto
    let ?n = "taken k (length m - ob_front_off ob)"
    have n: "0 < ?n" using fo os by (simp add: taken_def)
    note adv = advance_keeps [OF 1(3) q, of ?n, unfolded taken_def, simplified]
    have "ob_bytes (advance ?n ob) = ob_bytes ob - ?n" by (simp add: advance_def Let_def)
    then have "fst (flush_loop os1 (advance ?n ob)) = kOk"
      using 1 q os n adv(1) by (simp add: taken_def)
    with q os n show ?thesis by (subst flush_loop.simps) simp
  qed
qed

section \<open>Properties\<close>

text \<open>
  (C14) Integrity of the control stream. After any sequence of posts and flushes, against any answers
  of the kernel: while the channel works, the bytes that went out followed by the bytes still
  queued are exactly the messages \<open>post\<close> answered kOk for, whole and in order, so that a partial
  write never splits one message with another and a refused message leaves no trace; once the
  channel broke, what went out is a prefix of those messages followed by at most one other posted message.
\<close>

theorem outbox_stream_integrity:
  assumes "outbox_run cs [] (reset fd limit) = (acc, ob)"
  shows "if ob_broken ob
         then \<exists>m\<in>insert [] (\<Union>c\<in>set cs. call_msgs c). prefix (ob_wire ob) (concat acc @ m)
         else ob_wire ob @ drop (ob_front_off ob) (concat (ob_q ob)) = concat acc"
  using outbox_run_inv [OF outbox_inv_reset assms order_refl]
  unfolding outbox_inv_def backlog_def by (rule conjunct2)

theorem outbox_stream_integrity_witness:
  "snd (outbox_run [CallPost [Sent 2, Again] [1, 2, 3], CallPost [Again] [4, 5], CallFlush [Sent 1, Sent 1]]
      [] (reset 3 8)) =
     \<lparr>ob_fd = 3, ob_limit = 8, ob_q = [[4, 5]], ob_front_off = 1, ob_bytes = 1, ob_broken = False,
      ob_wire = [1, 2, 3, 4]\<rparr> \<and>
   [1, 2, 3, 4] @ drop 1 (concat [[4, 5]]) = concat [[1, 2, 3], [4, 5 :: u8]]"
proof -
  let ?run = "outbox_run [CallPost [Sent 2, Again] [1, 2, 3], CallPost [Again] [4, 5],
      CallFlush [Sent 1, Sent 1]] [] (reset 3 8)"
  have run: "?run = ([[1, 2, 3], [4, 5]], \<lparr>ob_fd = 3, ob_limit = 8, ob_q = [[4, 5]], ob_front_off = 1,
      ob_bytes = 1, ob_broken = False, ob_wire = [1, 2, 3, 4]\<rparr>)"
    by code_simp
  from outbox_stream_integrity [OF run] run show ?thesis by simp
qed

text \<open>
  The backlog is accounted for to the byte and bounded: the counter is the length of what is
  queued, and never exceeds the larger of the limit and the largest message posted.
\<close>

theorem outbox_backlog_bounded:
  assumes "outbox_run cs [] (reset fd limit) = (acc, ob)" "\<forall>c\<in>set cs. call_size c \<le> M"
  shows "ob_bytes ob = length (backlog ob) \<and> ob_bytes ob \<le> max limit M"
proof -
  have "ob_bytes ob \<le> max limit M"
    using assms(2)
    by (intro outbox_run_bound [OF outbox_inv_reset assms(1)]) (auto simp: reset_def)
  with outbox_run_inv [OF outbox_inv_reset [of UNIV] assms(1)] show ?thesis
    by (simp add: outbox_inv_def outbox_wf_def)
qed

theorem outbox_backlog_bounded_witness:
  "ob_bytes (snd (outbox_run [CallPost [Sent 1] [1, 2, 3], CallPost [] [4, 5]] [] (reset 3 2))) \<le> 3"
proof -
  obtain acc ob where run:
    "outbox_run [CallPost [Sent 1] [1, 2, 3], CallPost [] [4, 5]] [] (reset 3 2) = (acc, ob)"
    by (meson surj_pair)
  from outbox_backlog_bounded [OF run, of 3] run show ?thesis by simp
qed

text \<open>
  (C29) A peer that reads drains the backlog: if every \<open>send\<close> takes at least one byte, one flush with as
  many sends as there are bytes queued comes back kOk with nothing left, so the loop ends.
\<close>

theorem outbox_flush_drains:
  assumes "outbox_inv P acc ob" "\<not> ob_broken ob" "0 \<le> ob_fd ob"
    "ob_bytes ob \<le> length os" "\<forall>r\<in>set os. \<exists>k>0. r = Sent k"
  shows "fst (flush os ob) = kOk \<and> ob_q (snd (flush os ob)) = [] \<and> ob_wire (snd (flush os ob)) = concat acc"
proof -
  have wf: "outbox_wf ob" using assms(1) by (simp add: outbox_inv_def)
  obtain s ob' os' where fl: "flush_loop os ob = (s, ob', os')" by (cases "flush_loop os ob")
  have "s = kOk" using flush_loop_drains [OF wf assms(4,5)] fl by simp
  with flush_loop_keeps [OF wf assms(2), of os] fl have
    "ob_q ob' = []" "ob_wire ob' @ backlog ob' = ob_wire ob @ backlog ob"
    by (simp_all add: flush_post_def)
  with assms fl \<open>s = kOk\<close> show ?thesis
    by (simp add: flush_def flush_locked_def outbox_inv_def backlog_def)
qed

theorem outbox_flush_drains_witness:
  "ob_wire (snd (flush [Sent 1, Sent 9, Sent 1] (snd (post [] [1, 2, 3] (reset 3 8))))) = [1, 2, 3]"
proof -
  have "post [] [1, 2, 3] (reset 3 8) = (kOk, \<lparr>ob_fd = 3, ob_limit = 8, ob_q = [[1, 2, 3]],
     ob_front_off = 0, ob_bytes = 3, ob_broken = False, ob_wire = []\<rparr>)"
    by code_simp
  moreover from this have "outbox_inv UNIV [[1, 2, 3]] (snd (post [] [1, 2, 3] (reset 3 8)))"
    using post_inv [OF outbox_inv_reset [of UNIV]] by fastforce
  ultimately show ?thesis
    using outbox_flush_drains [of UNIV "[[1, 2, 3]]" "snd (post [] [1, 2, 3] (reset 3 8))"
        "[Sent 1, Sent 9, Sent 1]"] by simp
qed

end
