(* ===== verification/Hux_Request.thy ===== *)
theory Hux_Request
  imports Hux_Provider
begin

text \<open>
  core/request_impl.*: the state of one logical request. Each method takes the request's
  mutex for its whole body, so each is one atomic step of the model. Objects the request
  holds references to (regions, connections, its transport) are named by their numbers.
\<close>

section \<open>State\<close>

record remote_target =
  rt_region :: region_id
  rt_generation :: generation
  rt_span :: span

record request =
  rq_id :: request_id
  rq_kind :: subop_kind
  rq_total :: u32
  rq_context :: u64
  rq_state :: request_state
  rq_completed :: u32
  rq_accepted :: u32
  rq_sealed :: bool
  rq_parts_left :: u32
  rq_cancel_requested :: bool
  rq_stages :: u32
  rq_error :: error_info
  rq_held_regions :: "region_id list"
  rq_conn :: "conn_id option"
  rq_lanes :: "(nat \<times> conn_id) list"
  rq_peer :: peer_id
  rq_provider :: "nat option"
  rq_device :: bool
  rq_target_addr :: addr
  rq_target_bytes :: u64
  rq_remote_targets :: "remote_target list"

fun stage_index :: "stage \<Rightarrow> nat" where
  "stage_index ST_kAccepted = 0"
| "stage_index ST_kSourceReusable = 1"
| "stage_index ST_kTransferComplete = 2"
| "stage_index ST_kTargetReady = 3"
| "stage_index ST_kFailedSafe = 4"
| "stage_index ST_kCancelledSafe = 5"

definition stage_bit :: "stage \<Rightarrow> u32" where
  "stage_bit s = push_bit (stage_index s) 1"

definition new_request :: "request_id \<Rightarrow> subop_kind \<Rightarrow> u32 \<Rightarrow> u64 \<Rightarrow> request" where
  "new_request i k tot ctx = \<lparr>rq_id = i, rq_kind = k, rq_total = tot, rq_context = ctx,
     rq_state = RS_kQueued, rq_completed = 0, rq_accepted = 0, rq_sealed = False,
     rq_parts_left = 0, rq_cancel_requested = False, rq_stages = stage_bit ST_kAccepted,
     rq_error = no_error, rq_held_regions = [], rq_conn = None, rq_lanes = [], rq_peer = 0,
     rq_provider = None, rq_device = False, rq_target_addr = 0, rq_target_bytes = 0,
     rq_remote_targets = []\<rparr>"

section \<open>Operations\<close>

definition record_error :: "error_info \<Rightarrow> request \<Rightarrow> request" where
  "record_error e r = (if ei_ok e \<or> \<not> ei_ok (rq_error r) then r else r\<lparr>rq_error := e\<rparr>)"

definition terminal :: "request \<Rightarrow> bool" where
  "terminal r \<longleftrightarrow> is_terminal (rq_state r)"

definition reached :: "request \<Rightarrow> stage \<Rightarrow> bool" where
  "reached r s \<longleftrightarrow> rq_stages r AND stage_bit s \<noteq> 0"

definition set_state :: "request_state \<Rightarrow> request \<Rightarrow> request" where
  "set_state s r = (if terminal r \<or> rq_cancel_requested r then r else r\<lparr>rq_state := s\<rparr>)"

definition mark_stage :: "stage \<Rightarrow> request \<Rightarrow> request" where
  "mark_stage s r = r\<lparr>rq_stages := rq_stages r OR stage_bit s\<rparr>"

definition add_accepted_subops :: "u32 \<Rightarrow> request \<Rightarrow> request" where
  "add_accepted_subops n r = r\<lparr>rq_accepted := rq_accepted r + n\<rparr>"

definition seal_accepted :: "request \<Rightarrow> request" where
  "seal_accepted r = r\<lparr>rq_sealed := True\<rparr>"

definition set_parts :: "u32 \<Rightarrow> request \<Rightarrow> request" where
  "set_parts n r = r\<lparr>rq_parts_left := n\<rparr>"

definition part_finished :: "request \<Rightarrow> bool \<times> request" where
  "part_finished r =
    (let r' = (if rq_parts_left r > 0 then r\<lparr>rq_parts_left := rq_parts_left r - 1\<rparr> else r)
     in (rq_parts_left r' = 0, r'))"

definition abandoning :: "request \<Rightarrow> bool" where
  "abandoning r \<longleftrightarrow> terminal r \<or> rq_cancel_requested r \<or> \<not> ei_ok (rq_error r)"

definition seal_if_idle :: "request \<Rightarrow> bool \<times> request" where
  "seal_if_idle r =
    (let r' = r\<lparr>rq_sealed := True\<rparr>
     in (\<not> terminal r' \<and> rq_completed r' \<ge> rq_accepted r', r'))"

definition set_target :: "addr \<Rightarrow> u64 \<Rightarrow> request \<Rightarrow> request" where
  "set_target a n r = r\<lparr>rq_target_addr := a, rq_target_bytes := n\<rparr>"

definition on_subop_complete :: "completion_event \<Rightarrow> request \<Rightarrow> bool \<times> request" where
  "on_subop_complete ev r =
    (if terminal r then (False, r)
     else let
       r1 = (if ce_status ev \<noteq> kOk then
               record_error (no_error\<lparr>ei_status := ce_status ev, ei_errno := ce_errno ev,
                 ei_may_have_modified_target := ce_may_have_modified_target ev\<rparr>) r
             else r);
       r2 = r1\<lparr>rq_completed := rq_completed r1 + 1\<rparr>;
       expected = (if rq_sealed r2 then rq_accepted r2 else rq_total r2)
     in (rq_completed r2 \<ge> expected, r2))"

definition outcome :: "request \<Rightarrow> status" where
  "outcome r =
    (if rq_state r = RS_kCancelled then kCancelled
     else if \<not> ei_ok (rq_error r) then ei_status (rq_error r)
     else if rq_state r = RS_kFailed then kInternal else kOk)"

text \<open>
  \<open>wait\<close>: what the call returns, given the request as the wait finds it and, when it blocks,
  the request the condition variable wakes it with, or \<open>None\<close> if nothing ever does. A negative
  timeout has no expiry, so that a wait nothing wakes does not return.
\<close>

definition wait :: "int \<Rightarrow> request \<Rightarrow> request option \<Rightarrow> status option" where
  "wait timeout_ms r woken =
    (if terminal r then Some (outcome r)
     else case woken of
       None \<Rightarrow> (if timeout_ms < 0 then None else Some kTimeout)
     | Some r' \<Rightarrow> Some (outcome r'))"

definition cancel :: "request \<Rightarrow> status \<times> request" where
  "cancel r =
    (if rq_state r = RS_kSucceeded then (kInvalidArgument, r)
     else if terminal r then (kOk, r)
     else (kOk, r\<lparr>rq_cancel_requested := True, rq_state := RS_kDraining\<rparr>))"

definition note_error :: "error_info \<Rightarrow> request \<Rightarrow> request" where
  "note_error e r = (if terminal r then r else record_error e r)"

definition fail :: "error_info \<Rightarrow> request \<Rightarrow> request" where
  "fail e r =
    (if terminal r then r
     else let r1 = record_error e r
          in r1\<lparr>rq_stages := rq_stages r1 OR stage_bit ST_kFailedSafe, rq_state := RS_kFailed\<rparr>)"

definition finish_success :: "request \<Rightarrow> request" where
  "finish_success r =
    (if terminal r then r
     else r\<lparr>rq_stages := rq_stages r OR (stage_bit ST_kTransferComplete OR
              stage_bit ST_kTargetReady OR stage_bit ST_kSourceReusable),
            rq_state := RS_kSucceeded\<rparr>)"

definition finish_cancelled :: "request \<Rightarrow> request" where
  "finish_cancelled r =
    (if terminal r then r
     else r\<lparr>rq_stages := rq_stages r OR stage_bit ST_kCancelledSafe, rq_state := RS_kCancelled\<rparr>)"

definition reached_or :: "stage \<Rightarrow> request \<Rightarrow> status" where
  "reached_or s r =
    (if rq_stages r AND stage_bit s \<noteq> 0 then kOk
     else if rq_state r = RS_kCancelled then kCancelled
     else if terminal r then (if ei_ok (rq_error r) then kInternal else ei_status (rq_error r))
     else kWouldBlock)"

text \<open>
  \<open>wait_on\<close> ends in the device backend's \<open>make_visible\<close>, a parameter here; a null stream is
  \<open>False\<close>.
\<close>

definition wait_on :: "(addr \<Rightarrow> u64 \<Rightarrow> status) \<Rightarrow> bool \<Rightarrow> request \<Rightarrow> status" where
  "wait_on make_visible stream r =
    (if \<not> stream then kInvalidArgument
     else if \<not> rq_device r then kUnsupported
     else let s = reached_or ST_kTargetReady r
          in if s \<noteq> kOk then s else make_visible (rq_target_addr r) (rq_target_bytes r))"

definition wait_source_reusable_on :: "bool \<Rightarrow> request \<Rightarrow> status" where
  "wait_source_reusable_on stream r =
    (if \<not> stream then kInvalidArgument
     else if rq_kind r \<noteq> kWrite then kInvalidArgument
     else if \<not> rq_device r then kUnsupported
     else reached_or ST_kSourceReusable r)"

definition add_remote_target :: "region_id \<Rightarrow> generation \<Rightarrow> span \<Rightarrow> request \<Rightarrow> request" where
  "add_remote_target reg g s r =
    (let ts = rq_remote_targets r; lst = last ts in
     if ts \<noteq> [] \<and> rt_region lst = reg \<and> rt_generation lst = g \<and>
        sp_offset (rt_span lst) + sp_length (rt_span lst) = sp_offset s
     then r\<lparr>rq_remote_targets := butlast ts @
            [lst\<lparr>rt_span := (rt_span lst)\<lparr>sp_length := sp_length (rt_span lst) + sp_length s\<rparr>\<rparr>]\<rparr>
     else r\<lparr>rq_remote_targets := ts @ [\<lparr>rt_region = reg, rt_generation = g, rt_span = s\<rparr>]\<rparr>)"

section \<open>Stages as bits\<close>

lemma reached_iff: "reached r s \<longleftrightarrow> bit (rq_stages r) (stage_index s)"
  unfolding reached_def stage_bit_def by (simp only: bit_iff_and_push_bit_not_eq_0)

lemma bit_stage_bit [simp]: "bit (stage_bit s) (stage_index t) \<longleftrightarrow> s = t"
  by (cases s; cases t) (simp_all add: stage_bit_def bit_simps)

section \<open>Every behaviour of a request\<close>

text \<open>
  One step is one method call by the engine or by the application, in any order and any
  number: whatever the threads of the program do to a request is a path of this relation.
  The engine marks two stages and moves a request only to the four states below
  (engine_impl.cpp); every other stage and state is reached through \<open>fail\<close>, \<open>finish_success\<close>,
  \<open>finish_cancelled\<close> and \<open>cancel\<close>.
\<close>

inductive req_step :: "request \<Rightarrow> request \<Rightarrow> bool" where
  st_set_state: "s \<in> {RS_kInflight, RS_kDraining, RS_kWaitDependency, RS_kWaitNotifyAck} \<Longrightarrow>
     req_step r (set_state s r)"
| st_mark_stage: "s \<in> {ST_kTransferComplete, ST_kTargetReady} \<Longrightarrow> req_step r (mark_stage s r)"
| st_accepted: "req_step r (add_accepted_subops n r)"
| st_seal: "req_step r (seal_accepted r)"
| st_set_parts: "req_step r (set_parts n r)"
| st_part: "req_step r (snd (part_finished r))"
| st_seal_if_idle: "req_step r (snd (seal_if_idle r))"
| st_target: "req_step r (set_target a n r)"
| st_remote: "req_step r (add_remote_target reg g sp r)"
| st_complete: "req_step r (snd (on_subop_complete ev r))"
| st_cancel: "req_step r (snd (cancel r))"
| st_note: "req_step r (note_error e r)"
| st_fail: "req_step r (fail e r)"
| st_success: "req_step r (finish_success r)"
| st_cancelled: "req_step r (finish_cancelled r)"

abbreviation req_steps :: "request \<Rightarrow> request \<Rightarrow> bool" where
  "req_steps \<equiv> req_step\<^sup>*\<^sup>*"

lemmas request_op_defs = set_state_def mark_stage_def add_accepted_subops_def seal_accepted_def
  set_parts_def part_finished_def seal_if_idle_def set_target_def add_remote_target_def
  on_subop_complete_def cancel_def note_error_def fail_def finish_success_def
  finish_cancelled_def record_error_def

lemma req_step_terminal:
  "req_step r r' \<Longrightarrow> terminal r \<Longrightarrow> rq_state r' = rq_state r \<and> rq_error r' = rq_error r"
  by (induction rule: req_step.induct) (auto simp: request_op_defs Let_def)

lemma req_step_error: "req_step r r' \<Longrightarrow> \<not> ei_ok (rq_error r) \<Longrightarrow> rq_error r' = rq_error r"
  by (induction rule: req_step.induct) (auto simp: request_op_defs Let_def)

lemma req_step_stages: "req_step r r' \<Longrightarrow> reached r s \<Longrightarrow> reached r' s"
  by (induction rule: req_step.induct) (auto simp: request_op_defs Let_def reached_iff bit_simps)

lemma req_step_cancel_requested: "req_step r r' \<Longrightarrow> rq_cancel_requested r \<Longrightarrow> rq_cancel_requested r'"
  by (induction rule: req_step.induct) (auto simp: request_op_defs Let_def)

text \<open>What the stages say, whenever they are read.\<close>

definition request_inv :: "request \<Rightarrow> bool" where
  "request_inv r \<longleftrightarrow>
     reached r ST_kAccepted \<and>
     (reached r ST_kSourceReusable \<longleftrightarrow> rq_state r = RS_kSucceeded) \<and>
     (reached r ST_kFailedSafe \<longleftrightarrow> rq_state r = RS_kFailed) \<and>
     (reached r ST_kCancelledSafe \<longleftrightarrow> rq_state r = RS_kCancelled) \<and>
     (rq_state r = RS_kSucceeded \<longrightarrow> reached r ST_kTransferComplete \<and> reached r ST_kTargetReady) \<and>
     (rq_cancel_requested r \<longrightarrow> rq_state r = RS_kDraining \<or> terminal r)"

lemma request_inv_new: "request_inv (new_request i k tot ctx)"
  by (simp add: request_inv_def new_request_def reached_def stage_bit_def)

lemma request_inv_bits:
  "request_inv r \<longleftrightarrow>
     bit (rq_stages r) 0 \<and> (bit (rq_stages r) 1 \<longleftrightarrow> rq_state r = RS_kSucceeded) \<and>
     (bit (rq_stages r) 4 \<longleftrightarrow> rq_state r = RS_kFailed) \<and>
     (bit (rq_stages r) 5 \<longleftrightarrow> rq_state r = RS_kCancelled) \<and>
     (rq_state r = RS_kSucceeded \<longrightarrow> bit (rq_stages r) 2 \<and> bit (rq_stages r) 3) \<and>
     (rq_cancel_requested r \<longrightarrow> rq_state r = RS_kDraining \<or> terminal r)"
  by (simp add: request_inv_def reached_iff)

lemma bit_stage_bit_numeral [simp]:
  "bit (stage_bit s) 0 \<longleftrightarrow> s = ST_kAccepted"
  "bit (stage_bit s) (Suc 0) \<longleftrightarrow> s = ST_kSourceReusable"
  "bit (stage_bit s) 2 \<longleftrightarrow> s = ST_kTransferComplete"
  "bit (stage_bit s) 3 \<longleftrightarrow> s = ST_kTargetReady"
  "bit (stage_bit s) 4 \<longleftrightarrow> s = ST_kFailedSafe"
  "bit (stage_bit s) 5 \<longleftrightarrow> s = ST_kCancelledSafe"
  by (cases s; simp add: stage_bit_def bit_simps)+

lemma req_step_inv: "req_step r r' \<Longrightarrow> request_inv r \<Longrightarrow> request_inv r'"
  unfolding request_inv_bits
  by (induction rule: req_step.induct)
    (auto simp: request_op_defs Let_def terminal_def is_terminal_def bit_or_iff)

lemma req_steps_inv: "req_steps r r' \<Longrightarrow> request_inv r \<Longrightarrow> request_inv r'"
  by (induction rule: rtranclp_induct) (auto intro: req_step_inv)

lemma req_steps_terminal:
  "req_steps r r' \<Longrightarrow> terminal r \<Longrightarrow> rq_state r' = rq_state r \<and> rq_error r' = rq_error r"
proof (induction rule: rtranclp_induct)
  case (step y z)
  then have "terminal y" by (simp add: terminal_def)
  with step req_step_terminal show ?case by metis
qed simp

section \<open>Who ends a request\<close>

text \<open>
  Two paths may end a request that will not succeed: the completion that finds nothing else
  outstanding, and the submission path that finds it idle when its last lane gives up. Both
  answer under the request's mutex. \<open>run_enders\<close> counts how many of a sequence of such calls
  are told to end the request.
\<close>

datatype end_call = Complete completion_event | SealIfIdle

fun run_enders :: "end_call list \<Rightarrow> request \<Rightarrow> nat" where
  "run_enders [] r = 0"
| "run_enders (Complete ev # cs) r =
     (case on_subop_complete ev r of (b, r') \<Rightarrow> (if b then 1 else 0) + run_enders cs r')"
| "run_enders (SealIfIdle # cs) r =
     (case seal_if_idle r of (b, r') \<Rightarrow> (if b then 1 else 0) + run_enders cs r')"

fun completions :: "end_call list \<Rightarrow> nat" where
  "completions [] = 0"
| "completions (Complete ev # cs) = Suc (completions cs)"
| "completions (SealIfIdle # cs) = completions cs"

fun seals :: "end_call list \<Rightarrow> nat" where
  "seals [] = 0"
| "seals (Complete ev # cs) = seals cs"
| "seals (SealIfIdle # cs) = Suc (seals cs)"

lemma record_error_simps [simp]:
  "rq_completed (record_error e r) = rq_completed r" "rq_accepted (record_error e r) = rq_accepted r"
  "rq_total (record_error e r) = rq_total r" "rq_sealed (record_error e r) = rq_sealed r"
  "rq_state (record_error e r) = rq_state r" "terminal (record_error e r) = terminal r"
  by (simp_all add: record_error_def terminal_def)

lemma on_subop_complete_simps:
  assumes "\<not> terminal r"
  shows "rq_completed (snd (on_subop_complete ev r)) = rq_completed r + 1"
    "rq_accepted (snd (on_subop_complete ev r)) = rq_accepted r"
    "rq_total (snd (on_subop_complete ev r)) = rq_total r"
    "rq_sealed (snd (on_subop_complete ev r)) = rq_sealed r"
    "rq_state (snd (on_subop_complete ev r)) = rq_state r"
    "\<not> terminal (snd (on_subop_complete ev r))"
    "fst (on_subop_complete ev r) \<longleftrightarrow>
       (if rq_sealed r then rq_accepted r else rq_total r) \<le> rq_completed r + 1"
  using assms by (simp_all add: on_subop_complete_def Let_def terminal_def)

lemma run_enders_sealed:
  "\<not> terminal r \<Longrightarrow> rq_sealed r \<Longrightarrow> seals cs = 0 \<Longrightarrow>
   unat (rq_completed r) + completions cs = unat (rq_accepted r) \<Longrightarrow>
   run_enders cs r = (if cs = [] then 0 else 1)"
proof (induction cs arbitrary: r)
  case (Cons c cs)
  then obtain ev where c: "c = Complete ev" by (cases c) auto
  let ?r = "snd (on_subop_complete ev r)"
  have lt: "rq_completed r < rq_accepted r" unfolding word_less_nat_alt using Cons.prems c by simp
  have cs0: "completions cs = 0 \<longleftrightarrow> cs = []"
    using Cons.prems c by (cases cs rule: completions.cases) auto
  have "run_enders cs ?r = (if cs = [] then 0 else 1)"
    using Cons.prems c lt
    by (intro Cons.IH) (simp_all add: on_subop_complete_simps unat_suc [OF lt])
  moreover have "fst (on_subop_complete ev r) \<longleftrightarrow> cs = []"
    using Cons.prems c lt cs0
    by (auto simp: on_subop_complete_simps word_le_nat_alt unat_suc [OF lt])
  ultimately show ?case using c by (simp add: case_prod_beta)
qed simp

lemma run_enders_once:
  "\<not> terminal r \<Longrightarrow> \<not> rq_sealed r \<Longrightarrow> seals cs = 1 \<Longrightarrow>
   unat (rq_completed r) + completions cs = unat (rq_accepted r) \<Longrightarrow>
   rq_accepted r < rq_total r \<Longrightarrow> run_enders cs r = 1"
proof (induction cs arbitrary: r)
  case (Cons c cs)
  show ?case
  proof (cases c)
    case (Complete ev)
    have lt: "rq_completed r < rq_accepted r" unfolding word_less_nat_alt using Cons.prems Complete by simp
    let ?r = "snd (on_subop_complete ev r)"
    have "run_enders cs ?r = 1"
      using Cons.prems Complete lt
      by (intro Cons.IH) (simp_all add: on_subop_complete_simps unat_suc [OF lt])
    moreover have "\<not> fst (on_subop_complete ev r)"
      using Cons.prems Complete lt
      by (simp add: on_subop_complete_simps word_le_nat_alt word_less_nat_alt unat_suc [OF lt])
    ultimately show ?thesis using Complete by (simp add: case_prod_beta)
  next
    case SealIfIdle
    let ?r = "snd (seal_if_idle r)"
    have cs0: "completions cs = 0 \<longleftrightarrow> cs = []"
      using Cons.prems SealIfIdle by (cases cs rule: completions.cases) auto
    have "run_enders cs ?r = (if cs = [] then 0 else 1)"
      using Cons.prems SealIfIdle
      by (intro run_enders_sealed) (simp_all add: seal_if_idle_def terminal_def)
    moreover have "fst (seal_if_idle r) \<longleftrightarrow> cs = []"
      using Cons.prems SealIfIdle cs0
      by (auto simp: seal_if_idle_def Let_def terminal_def word_le_nat_alt)
    ultimately show ?thesis using SealIfIdle by (simp add: case_prod_beta)
  qed
qed simp

section \<open>Where a write landed\<close>

text \<open>The bytes a list of targets names, in unbounded arithmetic.\<close>

definition span_bytes :: "span \<Rightarrow> nat set" where
  "span_bytes s = {unat (sp_offset s) ..< unat (sp_offset s) + unat (sp_length s)}"

definition target_bytes :: "remote_target list \<Rightarrow> ((region_id \<times> generation) \<times> nat) set" where
  "target_bytes ts = (\<Union>t\<in>set ts. {(rt_region t, rt_generation t)} \<times> span_bytes (rt_span t))"

definition span_fits :: "span \<Rightarrow> bool" where
  "span_fits s \<longleftrightarrow> unat (sp_offset s) + unat (sp_length s) < 2 ^ 64"

definition targets_fit :: "remote_target list \<Rightarrow> bool" where
  "targets_fit ts \<longleftrightarrow> (\<forall>t\<in>set ts. span_fits (rt_span t))"

definition add_segment :: "region_id \<times> generation \<times> span \<Rightarrow> request \<Rightarrow> request" where
  "add_segment = (\<lambda>(reg, g, s). add_remote_target reg g s)"

lemma span_bytes_adjacent:
  assumes "span_fits a" "span_fits s" "sp_offset a + sp_length a = sp_offset s"
  shows "span_bytes (a\<lparr>sp_length := sp_length a + sp_length s\<rparr>) = span_bytes a \<union> span_bytes s"
    "span_fits (a\<lparr>sp_length := sp_length a + sp_length s\<rparr>)"
proof -
  have off: "unat (sp_offset s) = unat (sp_offset a) + unat (sp_length a)"
    using assms unat_add_small [of "sp_offset a" "sp_length a"] by (simp add: span_fits_def)
  then have len: "unat (sp_length a + sp_length s) = unat (sp_length a) + unat (sp_length s)"
    using assms by (intro unat_add_small) (simp add: span_fits_def)
  show "span_bytes (a\<lparr>sp_length := sp_length a + sp_length s\<rparr>) = span_bytes a \<union> span_bytes s"
    using off len by (auto simp: span_bytes_def)
  show "span_fits (a\<lparr>sp_length := sp_length a + sp_length s\<rparr>)"
    using assms off len by (simp add: span_fits_def)
qed

lemma target_bytes_append [simp]: "target_bytes (xs @ ys) = target_bytes xs \<union> target_bytes ys"
  by (simp add: target_bytes_def)

lemma target_bytes_single [simp]:
  "target_bytes [t] = {(rt_region t, rt_generation t)} \<times> span_bytes (rt_span t)"
  by (simp add: target_bytes_def)

lemma add_remote_target_bytes:
  assumes "targets_fit (rq_remote_targets r)" "span_fits s"
  shows "target_bytes (rq_remote_targets (add_remote_target reg g s r)) =
           target_bytes (rq_remote_targets r) \<union> {(reg, g)} \<times> span_bytes s"
    "targets_fit (rq_remote_targets (add_remote_target reg g s r))"
proof -
  let ?ts = "rq_remote_targets r" and ?l = "last (rq_remote_targets r)"
  let ?merge = "?ts \<noteq> [] \<and> rt_region ?l = reg \<and> rt_generation ?l = g \<and>
        sp_offset (rt_span ?l) + sp_length (rt_span ?l) = sp_offset s"
  have "target_bytes (rq_remote_targets (add_remote_target reg g s r)) =
           target_bytes ?ts \<union> {(reg, g)} \<times> span_bytes s \<and>
        targets_fit (rq_remote_targets (add_remote_target reg g s r))"
  proof (cases ?merge)
    case True
    have "span_fits (rt_span ?l)"
      using assms True by (simp add: targets_fit_def)
    from span_bytes_adjacent [OF this assms(2)] True
    have m: "span_bytes ((rt_span ?l)\<lparr>sp_length := sp_length (rt_span ?l) + sp_length s\<rparr>) =
        span_bytes (rt_span ?l) \<union> span_bytes s"
      "span_fits ((rt_span ?l)\<lparr>sp_length := sp_length (rt_span ?l) + sp_length s\<rparr>)"
      by simp_all
    have old: "target_bytes ?ts = target_bytes (butlast ?ts) \<union> {(reg, g)} \<times> span_bytes (rt_span ?l)"
      using True target_bytes_append [of "butlast ?ts" "[?l]"] by simp
    have fit: "targets_fit (butlast ?ts)"
      using assms(1) by (auto simp: targets_fit_def dest: in_set_butlastD)
    show ?thesis
      using True m old fit
      by (auto simp: add_remote_target_def Let_def targets_fit_def)
  next
    case False
    then show ?thesis
      using assms by (auto simp: add_remote_target_def Let_def targets_fit_def)
  qed
  then show "target_bytes (rq_remote_targets (add_remote_target reg g s r)) =
           target_bytes ?ts \<union> {(reg, g)} \<times> span_bytes s"
    "targets_fit (rq_remote_targets (add_remote_target reg g s r))" by simp_all
qed

lemma fold_segments_bytes:
  "targets_fit (rq_remote_targets r) \<Longrightarrow> (\<forall>(reg, g, s)\<in>set segs. span_fits s) \<Longrightarrow>
   target_bytes (rq_remote_targets (fold add_segment segs r)) =
     target_bytes (rq_remote_targets r) \<union> (\<Union>(reg, g, s)\<in>set segs. {(reg, g)} \<times> span_bytes s)"
proof (induction segs arbitrary: r)
  case (Cons seg segs)
  obtain reg g s where seg: "seg = (reg, g, s)" by (cases seg)
  with Cons.prems have fit: "span_fits s" "\<forall>(reg, g, s)\<in>set segs. span_fits s" by auto
  note add = add_remote_target_bytes [OF Cons.prems(1) fit(1), of reg g]
  show ?case
    using Cons.IH [OF add(2) fit(2)] add(1) seg by (auto simp: add_segment_def)
qed simp

section \<open>Properties\<close>

lemma req_steps_error: "req_steps r r' \<Longrightarrow> \<not> ei_ok (rq_error r) \<Longrightarrow> rq_error r' = rq_error r"
  by (induction rule: rtranclp_induct) (auto dest: req_step_error)

lemma req_steps_stages: "req_steps r r' \<Longrightarrow> reached r s \<Longrightarrow> reached r' s"
  by (induction rule: rtranclp_induct) (auto intro: req_step_stages)

text \<open>
  (C22) Whatever the engine and the application do to a request, its stages agree with its state: the
  source is reported reusable only for a request that succeeded, failed-safe only for one that
  failed, cancelled-safe only for one that was cancelled; success implies transfer-complete and
  target-ready; and a request whose cancellation was accepted is draining or has ended.
\<close>

theorem request_stages_consistent:
  assumes "req_steps (new_request i k tot ctx) r"
  shows "request_inv r"
  using assms request_inv_new by (rule req_steps_inv)

theorem request_stages_consistent_witness:
  "request_inv (finish_success (snd (cancel (set_state RS_kInflight (new_request 7 kWrite 1 0)))))"
proof (rule request_stages_consistent)
  have "req_steps (new_request 7 kWrite 1 0) (set_state RS_kInflight (new_request 7 kWrite 1 0))"
    by (rule r_into_rtranclp, rule st_set_state) simp
  then show "req_steps (new_request 7 kWrite 1 0)
      (finish_success (snd (cancel (set_state RS_kInflight (new_request 7 kWrite 1 0)))))"
    by (rule rtranclp.rtrancl_into_rtrancl [OF rtranclp.rtrancl_into_rtrancl])
      (rule st_cancel, rule st_success)
qed

text \<open>
  (C21) Terminal is final: once a request has ended, no later call changes its state or its error, and
  every wait on it returns the same outcome at once, whatever its timeout. Before and after, a
  stage once reached stays reached, and the first error recorded is the one it keeps.
\<close>

theorem request_terminal_final:
  assumes "req_steps r r'"
  shows "(terminal r \<longrightarrow> rq_state r' = rq_state r \<and> rq_error r' = rq_error r \<and>
            wait t r' w = Some (outcome r)) \<and>
         (reached r s \<longrightarrow> reached r' s) \<and>
         (\<not> ei_ok (rq_error r) \<longrightarrow> rq_error r' = rq_error r)"
proof -
  have "wait t r' w = Some (outcome r)" if "terminal r"
    using that req_steps_terminal [OF assms that] by (simp add: wait_def terminal_def outcome_def)
  with req_steps_terminal [OF assms] req_steps_error [OF assms] req_steps_stages [OF assms]
  show ?thesis by blast
qed

theorem request_terminal_final_witness:
  "wait (-1) (set_state RS_kInflight (finish_success (finish_cancelled (new_request 7 kRead 2 0)))) None
     = Some kCancelled"
proof -
  let ?r = "finish_cancelled (new_request 7 kRead 2 0)"
  have "req_steps ?r (finish_success ?r)"
    by (rule r_into_rtranclp, rule st_success)
  then have "req_steps ?r (set_state RS_kInflight (finish_success ?r))"
    by (rule rtranclp.rtrancl_into_rtrancl) (rule st_set_state, simp)
  from request_terminal_final [OF this, of "-1" None ST_kAccepted] show ?thesis
    by (simp add: finish_cancelled_def new_request_def terminal_def is_terminal_def outcome_def)
qed

text \<open>
  (C27) A request whose submission stopped short of its full size is ended by exactly one caller. Let
  \<open>n\<close> of its sub-operations have been accepted, fewer than its total; then in every order in which
  the \<open>n\<close> completions and the one sealing call of the submission path can take the request's
  mutex, exactly one of those calls is told to end the request.
\<close>

theorem request_one_ender:
  assumes "\<not> terminal r" "\<not> rq_sealed r" "rq_completed r = 0" "rq_accepted r < rq_total r"
    "completions calls = unat (rq_accepted r)" "seals calls = 1"
  shows "run_enders calls r = 1"
  using assms by (intro run_enders_once) simp_all

definition ok_event :: completion_event where
  "ok_event = \<lparr>ce_request = 7, ce_sub_id = 0, ce_bytes = 64, ce_status = kOk, ce_errno = 0,
     ce_may_have_modified_target = False\<rparr>"

theorem request_one_ender_witness:
  "run_enders [Complete ok_event, SealIfIdle, Complete ok_event]
     (add_accepted_subops 2 (new_request 7 kWrite 3 0)) = 1"
  by (rule request_one_ender)
    (simp_all add: add_accepted_subops_def new_request_def terminal_def is_terminal_def)

text \<open>
  The targets a write announces to its peer name exactly the bytes it wrote: merging ranges that
  follow on in one region neither loses a byte nor names one that no segment covers, for any
  sequence of segments that fit the address space.
\<close>

theorem remote_targets_exact:
  assumes "\<forall>(reg, g, s)\<in>set segs. span_fits s"
  shows "target_bytes (rq_remote_targets (fold add_segment segs (new_request i k tot ctx))) =
     (\<Union>(reg, g, s)\<in>set segs. {(reg, g)} \<times> span_bytes s)"
  using fold_segments_bytes [of "new_request i k tot ctx" segs] assms
  by (simp add: new_request_def targets_fit_def target_bytes_def)

theorem remote_targets_exact_witness:
  "target_bytes (rq_remote_targets (fold add_segment
      [(1, 0, \<lparr>sp_offset = 0, sp_length = 64\<rparr>), (1, 0, \<lparr>sp_offset = 64, sp_length = 32\<rparr>)]
      (new_request 7 kWrite 2 0))) =
   {(1, 0)} \<times> {0..<64} \<union> {(1, 0)} \<times> {64..<96}"
  by (subst remote_targets_exact) (auto simp: span_fits_def span_bytes_def)

end
