(* ===== verification/Hux_Region.thy ===== *)
theory Hux_Region
  imports Hux_Provider
begin

text \<open>
  core/region_impl.* with include/hux/region.h: the descriptor a region is exported as and its
  codec, the registration handles share, the test that an existing registration can serve a
  request, and the views of local and imported regions.
\<close>

section \<open>Descriptors\<close>

record provider_key =
  pk_provider :: string
  pk_remote_key :: u64

record region_descriptor =
  rd_major :: u16
  rd_minor :: u16
  rd_origin :: identity
  rd_region :: region_id
  rd_generation :: generation
  rd_base :: addr
  rd_length :: u64
  rd_remote_key :: u64
  rd_provider_keys :: "provider_key list"
  rd_device_kind :: device_kind
  rd_device_index :: u32
  rd_access :: access_flags

definition kDescriptorMajor :: u16 where "kDescriptorMajor = 2"
definition kDescriptorMinor :: u16 where "kDescriptorMinor = 0"

definition kDescriptorBytes :: nat where
  "kDescriptorBytes = 2 + 2 + kIdentityBytes + 8 + 4 + 8 + 8 + 8 + 1 + 4 + 4"

definition encode_key :: "provider_key \<Rightarrow> bytes" where
  "encode_key k = put_u16 (word_of_nat (length (pk_provider k))) @ string_bytes (pk_provider k) @
     put_u64 (pk_remote_key k)"

definition encode_fixed :: "region_descriptor \<Rightarrow> bytes" where
  "encode_fixed d =
     put_u16 kDescriptorMajor @ put_u16 kDescriptorMinor @ encode_identity (rd_origin d) @
     put_u64 (rd_region d) @ put_u32 (rd_generation d) @ put_u64 (rd_base d) @
     put_u64 (rd_length d) @ put_u64 (rd_remote_key d) @ [device_kind_byte (rd_device_kind d)] @
     put_u32 (rd_device_index d) @ put_u32 (rd_access d)"

definition encode_descriptor :: "region_descriptor \<Rightarrow> bytes" where
  "encode_descriptor d = encode_fixed d @
     put_u16 (word_of_nat (length (rd_provider_keys d))) @ concat (map encode_key (rd_provider_keys d))"

text \<open>The loop over the provider keys: \<open>cnt\<close> more to read at \<open>p\<close>, \<open>remaining\<close> bytes left.\<close>

primrec decode_keys :: "nat \<Rightarrow> bytes \<Rightarrow> nat \<Rightarrow> nat \<Rightarrow> provider_key list \<Rightarrow> provider_key list result option" where
  "decode_keys 0 bs p remaining acc =
     (if remaining = 0 then accept acc else refuse kInvalidArgument)"
| "decode_keys (Suc cnt) bs p remaining acc =
    (if remaining < 2 then refuse kInvalidArgument
     else do {
       n \<leftarrow> get_u16 bs p;
       (if remaining - 2 < unat n + 8 then refuse kInvalidArgument
        else do {
          nm \<leftarrow> rd_range bs (p + 2) (unat n);
          k \<leftarrow> get_u64 bs (p + 2 + unat n);
          decode_keys cnt bs (p + 2 + unat n + 8) (remaining - 2 - (unat n + 8))
            (acc @ [\<lparr>pk_provider = bytes_string nm, pk_remote_key = k\<rparr>]) }) })"

definition decode_descriptor :: "bytes \<Rightarrow> region_descriptor result option" where
  "decode_descriptor bs =
    (if length bs < kDescriptorBytes then refuse kInvalidArgument
     else do {
       maj \<leftarrow> get_u16 bs 0;
       mnr \<leftarrow> get_u16 bs 2;
       (if maj \<noteq> kDescriptorMajor then refuse kUnsupported
        else do {
          oi \<leftarrow> decode_identity bs 4;
          (case oi of Inl _ \<Rightarrow> refuse kInvalidArgument | Inr org \<Rightarrow> do {
             reg \<leftarrow> get_u64 bs 28;
             gen \<leftarrow> get_u32 bs 36;
             bse \<leftarrow> get_u64 bs 40;
             len \<leftarrow> get_u64 bs 48;
             rkey \<leftarrow> get_u64 bs 56;
             kind \<leftarrow> rd bs 64;
             idx \<leftarrow> get_u32 bs 65;
             acc \<leftarrow> get_u32 bs 69;
             (let d = \<lparr>rd_major = maj, rd_minor = mnr, rd_origin = org, rd_region = reg,
                 rd_generation = gen, rd_base = bse, rd_length = len, rd_remote_key = rkey,
                 rd_provider_keys = [], rd_device_kind = device_kind_of_byte kind,
                 rd_device_index = idx, rd_access = acc\<rparr>;
                  remaining = length bs - kDescriptorBytes
              in if remaining < 2 then (if remaining = 0 then accept d else refuse kInvalidArgument)
                 else do {
                   cnt \<leftarrow> get_u16 bs 73;
                   ks \<leftarrow> decode_keys (unat cnt) bs 75 (remaining - 2) [];
                   (case ks of Inl st \<Rightarrow> refuse st
                    | Inr keys \<Rightarrow> accept (d\<lparr>rd_provider_keys := keys\<rparr>)) }) }) }) })"

section \<open>Registrations\<close>

record reg_key =
  rk_provider :: string
  rk_local_key :: u64
  rk_remote_key :: u64

text \<open>
  A registration never changes once it is made, so that a handle's shared pointer is a copy of
  it here; \<open>rg_id\<close> is the identity of the shared object and \<open>rg_held\<close> what its deleter captured,
  the transports and local keys to release.
\<close>

record registration =
  rg_id :: nat
  rg_base :: addr
  rg_length :: u64
  rg_device :: device_id
  rg_access :: access_flags
  rg_keys :: "reg_key list"
  rg_local_key :: u64
  rg_remote_key :: u64
  rg_held :: "(nat \<times> u64) list"

definition local_key_for :: "registration \<Rightarrow> string \<Rightarrow> u64 option" where
  "local_key_for r prov =
     map_option rk_local_key (List.find (\<lambda>k. rk_provider k = prov) (rg_keys r))"

definition remote_flags :: access_flags where
  "remote_flags = kRemoteRead OR kRemoteWrite"

definition registration_covers ::
  "registration \<Rightarrow> addr \<Rightarrow> u64 \<Rightarrow> device_id \<Rightarrow> access_flags \<Rightarrow> bool" where
  "registration_covers r a len dev want =
    (if rg_device r \<noteq> dev then False
     else if want AND NOT (rg_access r) \<noteq> 0 then False
     else if want AND remote_flags \<noteq> rg_access r AND remote_flags then False
     else if a < rg_base r then False
     else a - rg_base r \<le> rg_length r \<and> len \<le> rg_length r - (a - rg_base r))"

section \<open>Local and remote regions\<close>

record region_view =
  rv_region :: region_id
  rv_span :: span

record memory_region =
  mr_origin :: identity
  mr_id :: region_id
  mr_gen :: generation
  mr_base :: addr
  mr_length :: u64
  mr_dev :: device_id
  mr_mem :: memory_kind
  mr_access :: access_flags
  mr_reg :: registration
  mr_retired :: bool

definition mr_view :: "memory_region \<Rightarrow> u64 \<Rightarrow> u64 \<Rightarrow> region_view result" where
  "mr_view m off len =
    (let s = \<lparr>sp_offset = off, sp_length = len\<rparr>
     in if \<not> span_within s (mr_length m) then Inl kOutOfRange
        else Inr \<lparr>rv_region = mr_id m, rv_span = s\<rparr>)"

definition region_descriptor_of :: "memory_region \<Rightarrow> region_descriptor" where
  "region_descriptor_of m =
     \<lparr>rd_major = kDescriptorMajor, rd_minor = kDescriptorMinor, rd_origin = mr_origin m,
      rd_region = mr_id m, rd_generation = mr_gen m, rd_base = mr_base m, rd_length = mr_length m,
      rd_remote_key = rg_remote_key (mr_reg m),
      rd_provider_keys = map (\<lambda>k. \<lparr>pk_provider = rk_provider k, pk_remote_key = rk_remote_key k\<rparr>)
        (rg_keys (mr_reg m)),
      rd_device_kind = dev_kind (mr_dev m), rd_device_index = dev_index (mr_dev m),
      rd_access = mr_access m\<rparr>"

definition export_descriptor :: "memory_region \<Rightarrow> bytes" where
  "export_descriptor m = encode_descriptor (region_descriptor_of m)"

definition retire :: "memory_region \<Rightarrow> memory_region" where
  "retire m = m\<lparr>mr_retired := True\<rparr>"

record remote_region =
  rr_desc :: region_descriptor
  rr_valid :: bool

definition new_remote_region :: "region_descriptor \<Rightarrow> remote_region" where
  "new_remote_region d = \<lparr>rr_desc = d, rr_valid = True\<rparr>"

definition rr_device :: "remote_region \<Rightarrow> device_id" where
  "rr_device r = \<lparr>dev_kind = rd_device_kind (rr_desc r), dev_index = rd_device_index (rr_desc r)\<rparr>"

definition rr_view :: "remote_region \<Rightarrow> u64 \<Rightarrow> u64 \<Rightarrow> region_view result" where
  "rr_view r off len =
    (let s = \<lparr>sp_offset = off, sp_length = len\<rparr>
     in if \<not> rr_valid r then Inl kStaleGeneration
        else if \<not> span_within s (rd_length (rr_desc r)) then Inl kOutOfRange
        else Inr \<lparr>rv_region = rd_region (rr_desc r), rv_span = s\<rparr>)"

definition remote_key_for :: "remote_region \<Rightarrow> string \<Rightarrow> u64 option" where
  "remote_key_for r prov =
    (case List.find (\<lambda>k. pk_provider k = prov) (rd_provider_keys (rr_desc r)) of
       Some k \<Rightarrow> Some (pk_remote_key k)
     | None \<Rightarrow> if rd_provider_keys (rr_desc r) = [] then Some (rd_remote_key (rr_desc r)) else None)"

definition invalidate :: "remote_region \<Rightarrow> remote_region" where
  "invalidate r = r\<lparr>rr_valid := False\<rparr>"

section \<open>The descriptor codec\<close>

lemma length_encode_fixed [codec_len, simp]: "length (encode_fixed d) = 73"
  by (simp add: encode_fixed_def)

lemma kDescriptorBytes_eq: "kDescriptorBytes = 73"
  by (simp add: kDescriptorBytes_def kIdentityBytes_def)

lemma length_encode_key [codec_len, simp]: "length (encode_key k) = length (pk_provider k) + 10"
  by (simp add: encode_key_def)

text \<open>A name longer than the length field can say, or too many keys, does not survive the trip.\<close>

definition keys_fit :: "provider_key list \<Rightarrow> bool" where
  "keys_fit ks \<longleftrightarrow> (\<forall>k\<in>set ks. length (pk_provider k) < 2 ^ 16)"

definition descriptor_ok :: "region_descriptor \<Rightarrow> bool" where
  "descriptor_ok d \<longleftrightarrow> rd_major d = kDescriptorMajor \<and> rd_minor d = kDescriptorMinor \<and>
     device_kind_named (rd_device_kind d) \<and> length (rd_provider_keys d) < 2 ^ 16 \<and>
     keys_fit (rd_provider_keys d)"

lemma unat_u16_of_nat: "n < 2 ^ 16 \<Longrightarrow> unat (word_of_nat n :: u16) = n"
  by (simp add: unat_of_nat)

lemma decode_keys_step:
  assumes "length (pk_provider k) < 2 ^ 16" "p = length pre" "length (encode_key k) \<le> remaining"
  shows "decode_keys (Suc cnt) (pre @ encode_key k @ post) p remaining acc =
     decode_keys cnt ((pre @ encode_key k) @ post) (length (pre @ encode_key k))
       (remaining - length (encode_key k)) (acc @ [k])"
proof -
  have u: "unat (word_of_nat (length (pk_provider k)) :: u16) = length (pk_provider k)"
    using assms(1) by (rule unat_u16_of_nat)
  have "get_u16 (pre @ encode_key k @ post) p = Some (word_of_nat (length (pk_provider k)))"
    using assms(2) by (simp add: encode_key_def codec_rt)
  moreover have "rd_range (pre @ encode_key k @ post) (p + 2) (length (pk_provider k)) =
      Some (string_bytes (pk_provider k))"
    using assms(2) by (simp add: encode_key_def codec_rt)
  moreover have "get_u64 (pre @ encode_key k @ post) (p + 2 + length (pk_provider k)) =
      Some (pk_remote_key k)"
    using assms(2) by (simp add: encode_key_def codec_rt)
  moreover have "\<not> remaining < 2" "\<not> remaining - 2 < length (pk_provider k) + 8"
    using assms(3) by simp_all
  moreover have "p + 2 + length (pk_provider k) + 8 = length (pre @ encode_key k)"
    "remaining - 2 - (length (pk_provider k) + 8) = remaining - length (encode_key k)"
    using assms(2) by simp_all
  ultimately show ?thesis
    by (simp only: decode_keys.simps u bind.bind_lunit if_False bytes_string_bytes append_assoc)
      (cases k, simp)
qed

lemma decode_keys_rt:
  "keys_fit ks \<Longrightarrow> p = length pre \<Longrightarrow>
   decode_keys (length ks) (pre @ concat (map encode_key ks)) p
     (length (concat (map encode_key ks))) acc = accept (acc @ ks)"
proof (induction ks arbitrary: pre p acc)
  case (Cons k ks)
  have "decode_keys (length ks) ((pre @ encode_key k) @ concat (map encode_key ks))
      (length (pre @ encode_key k)) (length (concat (map encode_key ks))) (acc @ [k])
      = accept ((acc @ [k]) @ ks)"
    using Cons.prems by (intro Cons.IH) (simp_all add: keys_fit_def)
  moreover have "length (concat (map encode_key (k # ks))) - length (encode_key k) =
      length (concat (map encode_key ks))" by simp
  ultimately show ?case
    using Cons.prems decode_keys_step [of k p pre "length (concat (map encode_key (k # ks)))"
        "length ks" "concat (map encode_key ks)" acc]
    by (simp del: decode_keys.simps add: keys_fit_def)
qed simp

lemma fixed_fields:
  fixes d rest
  defines "bs \<equiv> encode_fixed d @ rest"
  shows "get_u16 bs 0 = Some kDescriptorMajor" "get_u16 bs 2 = Some kDescriptorMinor"
    "decode_identity bs 4 = accept (rd_origin d)" "get_u64 bs 28 = Some (rd_region d)"
    "get_u32 bs 36 = Some (rd_generation d)" "get_u64 bs 40 = Some (rd_base d)"
    "get_u64 bs 48 = Some (rd_length d)" "get_u64 bs 56 = Some (rd_remote_key d)"
    "rd bs 64 = Some (device_kind_byte (rd_device_kind d))"
    "get_u32 bs 65 = Some (rd_device_index d)" "get_u32 bs 69 = Some (rd_access d)"
proof -
  have "get_u32 ([b] @ ys) (Suc n) = get_u32 ys n" for b ys n
    using get_u32_skip [of "[b]" "Suc n" ys] by simp
  then have c: "get_u32 (b # ys) (Suc n) = get_u32 ys n" for b ys n by simp
  show "get_u16 bs 0 = Some kDescriptorMajor" "get_u16 bs 2 = Some kDescriptorMinor"
    "get_u64 bs 28 = Some (rd_region d)"
    "get_u32 bs 36 = Some (rd_generation d)" "get_u64 bs 40 = Some (rd_base d)"
    "get_u64 bs 48 = Some (rd_length d)" "get_u64 bs 56 = Some (rd_remote_key d)"
    "rd bs 64 = Some (device_kind_byte (rd_device_kind d))"
    by (simp_all add: bs_def encode_fixed_def codec_rt nth_append)
  show "get_u32 bs 65 = Some (rd_device_index d)" "get_u32 bs 69 = Some (rd_access d)"
    by (simp_all add: bs_def encode_fixed_def codec_rt c numeral_eq_Suc)
  show "decode_identity bs 4 = accept (rd_origin d)"
    using decode_encode_identity [of 4 "put_u16 kDescriptorMajor @ put_u16 kDescriptorMinor"]
    by (simp add: bs_def encode_fixed_def)
qed

text \<open>What decoding comes to once the fixed part has been read.\<close>

definition fixed_of :: "region_descriptor \<Rightarrow> region_descriptor" where
  "fixed_of d = d\<lparr>rd_provider_keys := []\<rparr>"

lemma decode_after_fixed:
  assumes "rd_major d = kDescriptorMajor" "rd_minor d = kDescriptorMinor"
    "device_kind_named (rd_device_kind d)"
  shows "decode_descriptor (encode_fixed d @ rest) =
    (if length rest < 2 then (if rest = [] then accept (fixed_of d) else refuse kInvalidArgument)
     else do {
       cnt \<leftarrow> get_u16 rest 0;
       ks \<leftarrow> decode_keys (unat cnt) (encode_fixed d @ rest) 75 (length rest - 2) [];
       (case ks of Inl st \<Rightarrow> refuse st | Inr keys \<Rightarrow> accept (d\<lparr>rd_provider_keys := keys\<rparr>)) })"
proof -
  have "get_u16 (encode_fixed d @ rest) 73 = get_u16 rest 0"
    by (simp add: get_u16_skip)
  moreover have "\<lparr>rd_major = kDescriptorMajor, rd_minor = kDescriptorMinor, rd_origin = rd_origin d,
       rd_region = rd_region d, rd_generation = rd_generation d, rd_base = rd_base d,
       rd_length = rd_length d, rd_remote_key = rd_remote_key d, rd_provider_keys = ks,
       rd_device_kind = rd_device_kind d, rd_device_index = rd_device_index d,
       rd_access = rd_access d\<rparr> = d\<lparr>rd_provider_keys := ks\<rparr>" for ks
    using assms by (cases d) simp
  ultimately show ?thesis
    using assms(3)
    by (simp add: decode_descriptor_def fixed_fields kDescriptorBytes_eq fixed_of_def)
qed

lemma keys_part:
  "decode_keys (length ks) (encode_fixed d @ put_u16 c @ concat (map encode_key ks)) 75
     (length (concat (map encode_key ks))) [] = accept ks" if "keys_fit ks"
  using decode_keys_rt [OF that, of 75 "encode_fixed d @ put_u16 c" "[]"] by simp

lemma decode_encode_descriptor:
  assumes "descriptor_ok d"
  shows "decode_descriptor (encode_descriptor d) = accept d"
proof -
  have "unat (word_of_nat (length (rd_provider_keys d)) :: u16) = length (rd_provider_keys d)"
    using assms by (intro unat_u16_of_nat) (simp add: descriptor_ok_def)
  then show ?thesis
    using assms unfolding encode_descriptor_def
    by (subst decode_after_fixed) (auto simp: descriptor_ok_def codec_rt keys_part)
qed

text \<open>Reads stay inside the buffer as long as \<open>remaining\<close> is what is left of it.\<close>

lemma decode_keys_safe:
  "p + remaining = length bs \<Longrightarrow> decode_keys cnt bs p remaining acc \<noteq> None"
proof (induction cnt arbitrary: p remaining acc)
  case (Suc cnt)
  show ?case
  proof (cases "remaining < 2")
    case False
    then obtain n where n: "get_u16 bs p = Some n" using Suc.prems get_u16_in [of p bs] by auto
    show ?thesis
    proof (cases "remaining - 2 < unat n + 8")
      case False
      then have in8: "p + 2 + unat n + 8 \<le> length bs" "p + 2 + unat n \<le> length bs"
        using \<open>\<not> remaining < 2\<close> Suc.prems by simp_all
      then obtain k where k: "get_u64 bs (p + 2 + unat n) = Some k"
        using get_u64_in [of "p + 2 + unat n" bs] by auto
      have "decode_keys cnt bs (p + 2 + unat n + 8) (remaining - 2 - (unat n + 8)) acc' \<noteq> None" for acc'
        using False \<open>\<not> remaining < 2\<close> Suc.prems by (intro Suc.IH) simp
      with False \<open>\<not> remaining < 2\<close> n k in8 show ?thesis by simp
    qed (use False n in simp)
  qed simp
qed simp

lemma decode_descriptor_total: "decode_descriptor bs \<noteq> None"
proof (cases "length bs < 73")
  case False
  then have "\<exists>v. get_u16 bs 0 = Some v" "\<exists>v. get_u16 bs 2 = Some v" "\<exists>v. get_u64 bs 28 = Some v"
    "\<exists>v. get_u32 bs 36 = Some v" "\<exists>v. get_u64 bs 40 = Some v" "\<exists>v. get_u64 bs 48 = Some v"
    "\<exists>v. get_u64 bs 56 = Some v" "\<exists>v. rd bs 64 = Some v" "\<exists>v. get_u32 bs 65 = Some v"
    "\<exists>v. get_u32 bs 69 = Some v"
    by (auto intro!: get_in_range)
  moreover have "\<exists>v. decode_identity bs 4 = Some v" using decode_identity_safe [of bs 4] by blast
  moreover have "\<not> length bs - 73 < 2 \<Longrightarrow> \<exists>v. get_u16 bs 73 = Some v" by (auto intro!: get_in_range)
  moreover obtain dk where
    "\<And>c. \<not> length bs - 73 < 2 \<Longrightarrow> decode_keys c bs 75 (length bs - 75) [] = Some (dk c)"
  proof -
    have "\<forall>c. \<not> length bs - 73 < 2 \<longrightarrow> (\<exists>r. decode_keys c bs 75 (length bs - 75) [] = Some r)"
      using decode_keys_safe [of 75 "length bs - 75" bs] by auto
    then show thesis using that by metis
  qed
  ultimately show ?thesis
    by (auto simp: decode_descriptor_def kDescriptorBytes_eq Let_def split: sum.splits if_splits)
qed (simp add: decode_descriptor_def kDescriptorBytes_eq)

lemma decode_keys_truncated:
  "keys_fit ks \<Longrightarrow> m < length (concat (map encode_key ks)) \<Longrightarrow>
   decode_keys (length ks) (pre @ take m (concat (map encode_key ks))) (length pre) m acc
     = refuse kInvalidArgument"
proof (induction ks arbitrary: pre m acc)
  case (Cons k ks)
  let ?l = "length (pk_provider k)" and ?rest = "concat (map encode_key ks)"
  show ?case
  proof (cases "m < length (encode_key k)")
    case True
    show ?thesis
    proof (cases "m < 2")
      case False
      have "take m (concat (map encode_key (k # ks))) = take m (encode_key k)" using True by simp
      also have "\<dots> = put_u16 (word_of_nat ?l) @ take (m - 2) (string_bytes (pk_provider k) @ put_u64 (pk_remote_key k))"
        using False by (simp add: encode_key_def)
      finally have "get_u16 (pre @ take m (concat (map encode_key (k # ks)))) (length pre) = Some (word_of_nat ?l)"
        by (simp add: codec_rt)
      moreover have "m - 2 < unat (word_of_nat ?l :: u16) + 8"
        using True False Cons.prems by (simp add: keys_fit_def unat_u16_of_nat)
      ultimately show ?thesis using False by simp
    qed simp
  next
    case False
    have "take m (concat (map encode_key (k # ks))) = encode_key k @ take (m - length (encode_key k)) ?rest"
      using False by simp
    moreover have "decode_keys (length ks) ((pre @ encode_key k) @ take (m - length (encode_key k)) ?rest)
        (length (pre @ encode_key k)) (m - length (encode_key k)) (acc @ [k]) = refuse kInvalidArgument"
      using Cons.prems False by (intro Cons.IH) (simp_all add: keys_fit_def)
    ultimately show ?thesis
      using False Cons.prems
        decode_keys_step [of k "length pre" pre m "length ks" "take (m - length (encode_key k)) ?rest" acc]
      by (simp del: decode_keys.simps add: keys_fit_def)
  qed
qed simp

lemma decode_short: "length bs < 73 \<Longrightarrow> decode_descriptor bs = refuse kInvalidArgument"
  by (simp add: decode_descriptor_def kDescriptorBytes_eq)

lemma decode_truncated:
  assumes "descriptor_ok d" "n < length (encode_descriptor d)" "n \<noteq> 73"
  shows "decode_descriptor (take n (encode_descriptor d)) = refuse kInvalidArgument"
proof (cases "n < 73")
  case True
  then show ?thesis by (simp add: decode_short)
next
  case False
  let ?ks = "rd_provider_keys d"
  let ?cnt = "put_u16 (word_of_nat (length ?ks))" and ?enc = "concat (map encode_key ?ks)"
  have take: "take n (encode_descriptor d) = encode_fixed d @ take (n - 73) (?cnt @ ?enc)"
    using False by (simp add: encode_descriptor_def)
  have after: "decode_descriptor (encode_fixed d @ rest) =
    (if length rest < 2 then (if rest = [] then accept (fixed_of d) else refuse kInvalidArgument)
     else do {
       c \<leftarrow> get_u16 rest 0;
       ks \<leftarrow> decode_keys (unat c) (encode_fixed d @ rest) 75 (length rest - 2) [];
       (case ks of Inl st \<Rightarrow> refuse st | Inr keys \<Rightarrow> accept (d\<lparr>rd_provider_keys := keys\<rparr>)) })" for rest
    using assms(1) by (intro decode_after_fixed) (simp_all add: descriptor_ok_def)
  show ?thesis
  proof (cases "n - 73 < 2")
    case True
    then show ?thesis using assms False unfolding take after by (auto simp: put_u16_def)
  next
    case ge: False
    have m: "n - 75 < length ?enc" using assms(2) ge by (simp add: encode_descriptor_def)
    have rest: "take (n - 73) (?cnt @ ?enc) = ?cnt @ take (n - 75) ?enc" using ge by simp
    have "decode_keys (length ?ks) (encode_fixed d @ ?cnt @ take (n - 75) ?enc) 75 (n - 75) []
        = refuse kInvalidArgument"
      using decode_keys_truncated [of ?ks "n - 75" "encode_fixed d @ ?cnt" "[]"] m assms(1)
      by (simp add: descriptor_ok_def)
    moreover have "unat (word_of_nat (length ?ks) :: u16) = length ?ks"
      using assms(1) by (intro unat_u16_of_nat) (simp add: descriptor_ok_def)
    moreover have "length (?cnt @ take (n - 75) ?enc) - 2 = n - 75" using m by simp
    ultimately show ?thesis
      unfolding take rest after by (simp add: codec_rt)
  qed
qed

section \<open>What a registration covers\<close>

definition range_bytes :: "addr \<Rightarrow> u64 \<Rightarrow> nat set" where
  "range_bytes a len = {unat a ..< unat a + unat len}"

lemma registration_covers_range:
  assumes "registration_covers r a len dev want"
  shows "unat (rg_base r) \<le> unat a" "unat a + unat len \<le> unat (rg_base r) + unat (rg_length r)"
proof -
  have le: "rg_base r \<le> a" and
    b: "a - rg_base r \<le> rg_length r \<and> len \<le> rg_length r - (a - rg_base r)"
    using assms by (auto simp: registration_covers_def split: if_splits)
  then show "unat (rg_base r) \<le> unat a" by (simp add: word_le_nat_alt)
  with le b [unfolded no_wrap_range_iff] show "unat a + unat len \<le> unat (rg_base r) + unat (rg_length r)"
    by simp
qed

lemma registration_covers_flags:
  assumes "registration_covers r a len dev want"
  shows "has_flag want kLocalRead \<Longrightarrow> has_flag (rg_access r) kLocalRead"
    "has_flag want kLocalWrite \<Longrightarrow> has_flag (rg_access r) kLocalWrite"
    "has_flag want kRemoteRead \<longleftrightarrow> has_flag (rg_access r) kRemoteRead"
    "has_flag want kRemoteWrite \<longleftrightarrow> has_flag (rg_access r) kRemoteWrite"
proof -
  have "want AND NOT (rg_access r) = 0" and rem: "want AND remote_flags = rg_access r AND remote_flags"
    using assms by (auto simp: registration_covers_def split: if_splits)
  then have sub: "bit want n \<Longrightarrow> bit (rg_access r) n" for n
    by (metis bit_0_eq bit_and_iff bit_imp_le_length bit_not_iff bot_apply bot_bool_def
        impossible_bit not_le possible_bit_word)
  have "bit (want AND remote_flags) n = bit (rg_access r AND remote_flags) n" for n
    using rem by simp
  then have r: "bit remote_flags n \<Longrightarrow> bit want n = bit (rg_access r) n" for n
    unfolding bit_and_iff by blast
  have "bit remote_flags 2" "bit remote_flags 3"
    by (simp_all add: remote_flags_def access_consts bit_simps)
  with sub r show "has_flag want kLocalRead \<Longrightarrow> has_flag (rg_access r) kLocalRead"
    "has_flag want kLocalWrite \<Longrightarrow> has_flag (rg_access r) kLocalWrite"
    "has_flag want kRemoteRead \<longleftrightarrow> has_flag (rg_access r) kRemoteRead"
    "has_flag want kRemoteWrite \<longleftrightarrow> has_flag (rg_access r) kRemoteWrite"
    by (simp_all add: has_flag_bits)
qed

section \<open>Properties\<close>

text \<open>
  (C17) Round trip: decoding the descriptor a region exports gives back that descriptor, with the
  exporter's identity, address, length, permissions and every provider's key, whenever the
  names and the number of keys fit their 16-bit length fields.
\<close>

theorem export_descriptor_roundtrip:
  assumes "device_kind_named (dev_kind (mr_dev m))" "length (rg_keys (mr_reg m)) < 2 ^ 16"
    "\<forall>k\<in>set (rg_keys (mr_reg m)). length (rk_provider k) < 2 ^ 16"
  shows "decode_descriptor (export_descriptor m) = accept (region_descriptor_of m)"
  unfolding export_descriptor_def using assms
  by (intro decode_encode_descriptor)
    (simp add: descriptor_ok_def region_descriptor_of_def keys_fit_def)

definition sample_registration :: registration where
  "sample_registration = \<lparr>rg_id = 0, rg_base = 0x1000, rg_length = 0x1000, rg_device = host_device,
     rg_access = kLocalRead OR kLocalWrite OR kRemoteRead,
     rg_keys = [\<lparr>rk_provider = ''rdma'', rk_local_key = 3, rk_remote_key = 9\<rparr>,
                \<lparr>rk_provider = ''local'', rk_local_key = 4, rk_remote_key = 5\<rparr>],
     rg_local_key = 3, rg_remote_key = 9, rg_held = [(0, 3), (1, 4)]\<rparr>"

definition sample_region :: memory_region where
  "sample_region = \<lparr>mr_origin = \<lparr>id_host = 1, id_process = 2, id_engine = 3\<rparr>, mr_id = 1,
     mr_gen = 0, mr_base = 0x1400, mr_length = 0x100, mr_dev = host_device, mr_mem = kHostPinned,
     mr_access = kLocalRead OR kRemoteRead, mr_reg = sample_registration, mr_retired = False\<rparr>"

theorem export_descriptor_roundtrip_witness:
  "decode_descriptor (export_descriptor sample_region) = accept (region_descriptor_of sample_region)"
  by (rule export_descriptor_roundtrip)
    (simp_all add: sample_region_def sample_registration_def host_device_def device_kind_named_def)

text \<open>
  (C28) Memory safety of the decoder: for every sequence of bytes a peer may send, decoding a
  descriptor reads no byte outside it and comes to a status or a descriptor.
\<close>

theorem decode_descriptor_memory_safe:
  "\<exists>res. decode_descriptor bs = Some res"
  using decode_descriptor_total [of bs] by blast

text \<open>
  A descriptor cut short is refused at every length but one: cut exactly after its fixed part, it
  is accepted as a descriptor that carries no provider keys, which an importer reads as the
  single-key form.
\<close>

theorem decode_descriptor_truncation:
  assumes "descriptor_ok d" "n < length (encode_descriptor d)"
  shows "decode_descriptor (take n (encode_descriptor d)) =
    (if n = kDescriptorBytes then accept (d\<lparr>rd_provider_keys := []\<rparr>) else refuse kInvalidArgument)"
proof (cases "n = 73")
  case True
  have "decode_descriptor (encode_fixed d @ []) = accept (fixed_of d)"
    using assms(1) by (subst decode_after_fixed) (simp_all add: descriptor_ok_def)
  with True show ?thesis
    by (simp add: encode_descriptor_def kDescriptorBytes_eq fixed_of_def)
next
  case False
  with assms show ?thesis by (simp add: decode_truncated kDescriptorBytes_eq)
qed

theorem decode_descriptor_truncation_witness:
  "decode_descriptor (take 73 (encode_descriptor (region_descriptor_of sample_region))) =
     accept ((region_descriptor_of sample_region)\<lparr>rd_provider_keys := []\<rparr>)"
proof -
  have "descriptor_ok (region_descriptor_of sample_region)"
    by (simp add: descriptor_ok_def region_descriptor_of_def sample_region_def
        sample_registration_def host_device_def device_kind_named_def keys_fit_def)
  from decode_descriptor_truncation [OF this, of 73] show ?thesis
    by (simp add: kDescriptorBytes_eq encode_descriptor_def)
qed

text \<open>
  A registration serves a request only if it really covers it: same device, every byte of the
  range inside the registered one with no wrap-around, every permission asked for held, and the
  remote permissions exactly those asked for, so that the exported key grants a peer no more.
\<close>

theorem registration_covers_sound:
  assumes "registration_covers r a len dev want"
  shows "rg_device r = dev \<and> range_bytes a len \<subseteq> range_bytes (rg_base r) (rg_length r) \<and>
     (\<forall>f\<in>{kLocalRead, kLocalWrite, kRemoteRead, kRemoteWrite}. has_flag want f \<longrightarrow> has_flag (rg_access r) f) \<and>
     (\<forall>f\<in>{kRemoteRead, kRemoteWrite}. has_flag (rg_access r) f \<longrightarrow> has_flag want f)"
proof -
  have "rg_device r = dev" using assms by (simp add: registration_covers_def split: if_splits)
  moreover have "range_bytes a len \<subseteq> range_bytes (rg_base r) (rg_length r)"
    using registration_covers_range [OF assms] by (auto simp: range_bytes_def)
  ultimately show ?thesis
    using registration_covers_flags [OF assms] by simp
qed

theorem registration_covers_sound_witness:
  "range_bytes 0x1400 0x100 \<subseteq> range_bytes (rg_base sample_registration) (rg_length sample_registration)"
proof -
  have "registration_covers sample_registration 0x1400 0x100 host_device (kLocalRead OR kRemoteRead)"
    by (simp add: registration_covers_def sample_registration_def remote_flags_def access_consts
        word_less_nat_alt word_le_nat_alt)
  from registration_covers_sound [OF this] show ?thesis by blast
qed

end
