(* ===== verification/Hux_State.thy ===== *)
theory Hux_State
  imports Hux_Request Hux_Region
begin

text \<open>
  The state of core/engine_impl.*. What never changes after construction (configuration, device
  backend, transports, identity) is the environment \<open>'w engine_env\<close>; what does is the record
  \<open>'w engine\<close>. Objects the source shares by pointer (requests, regions, peers) live in maps by
  id and stay there; the containers of the source (\<open>inflight_\<close>, \<open>regions_\<close>, \<open>peers_\<close>) are the
  lists of ids they hold, so that an object taken out of a container is still there for
  whoever keeps a pointer to it; \<open>e_alive\<close> lists the region objects someone still points to and
  \<open>e_released\<close> the registrations whose deleter has run, which the program itself does not
  record. \<open>'w\<close> is the state of everything below the engine: the
  transports and the device. Each public method is one step, as if it held the engine's lock
  throughout; what happens between the steps of one request at the granularity of its own lock
  is the subject of \<open>Hux_Request\<close>.
\<close>

section \<open>Device and events\<close>

type_synonym event_id = nat

record 'w device_ops =
  dv_probe_pointer :: "addr \<Rightarrow> 'w \<Rightarrow> (device_id \<times> memory_kind) result"
  dv_max_registration_bytes :: u64
  dv_record_event :: "'w \<Rightarrow> event_id result \<times> 'w"

record 'w event_ops =
  ev_recorded :: "event_id \<Rightarrow> 'w \<Rightarrow> bool"
  ev_query :: "event_id \<Rightarrow> 'w \<Rightarrow> bool result"

section \<open>Peers\<close>

record lane =
  ln_provider :: nat
  ln_conn :: conn_id
  ln_weight :: real

record peer_caps =
  pcap_path :: path_kind
  pcap_place :: peer_place
  pcap_provider :: string
  pcap_qp_count :: u32
  pcap_lane_count :: u32
  pcap_remote_device_is_gpu :: bool
  pcap_remote_max_registration_bytes :: u64

record peer =
  pr_id :: peer_id
  pr_identity :: identity
  pr_lanes :: "lane list"
  pr_caps :: peer_caps
  pr_epoch :: epoch
  pr_connected :: bool

definition bump_epoch :: "peer \<Rightarrow> peer" where
  "bump_epoch p = p\<lparr>pr_epoch := pr_epoch p + 1, pr_connected := False\<rparr>"

section \<open>The engine\<close>

record transfer_options =
  to_after :: "event_id option list"
  to_notify_payload :: bytes
  to_notify :: bool
  to_ready_handoff :: bool
  to_context :: u64

record pending_submit =
  ps_req :: request_id
  ps_ops :: "subop list"
  ps_conn :: conn_id
  ps_peer :: peer_id
  ps_provider :: nat
  ps_after :: "event_id option list"

record notification =
  nt_peer :: peer_id
  nt_epoch :: epoch
  nt_id :: notification_id
  nt_related_request :: request_id
  nt_payload :: bytes

record ready_event =
  re_request :: request_id
  re_peer :: peer_id
  re_addr :: "addr option"
  re_bytes :: u64
  re_region :: region_id
  re_generation :: generation
  re_span :: span

record engine_stats =
  requests_accepted :: u64
  requests_succeeded :: u64
  requests_failed :: u64
  requests_cancelled :: u64
  requests_would_block :: u64
  submit_deferred :: u64
  registrations_created :: u64
  registrations_reused :: u64
  notifications_sent :: u64
  notifications_received :: u64
  notifications_dropped :: u64
  ready_handoffs_sent :: u64
  ready_handoffs_failed :: u64
  ready_handoffs_received :: u64
  region_invalidates_sent :: u64
  region_invalidates_failed :: u64
  notification_acks_failed :: u64
  completions_dropped :: u64
  ready_events_dropped :: u64
  peak_inflight_requests :: u64

definition zero_engine_stats :: engine_stats where
  "zero_engine_stats = \<lparr>requests_accepted = 0, requests_succeeded = 0, requests_failed = 0,
     requests_cancelled = 0, requests_would_block = 0, submit_deferred = 0,
     registrations_created = 0, registrations_reused = 0, notifications_sent = 0,
     notifications_received = 0, notifications_dropped = 0, ready_handoffs_sent = 0,
     ready_handoffs_failed = 0, ready_handoffs_received = 0, region_invalidates_sent = 0,
     region_invalidates_failed = 0, notification_acks_failed = 0, completions_dropped = 0,
     ready_events_dropped = 0, peak_inflight_requests = 0\<rparr>"

record 'w engine_env =
  env_cfg :: engine_config
  env_device :: "'w device_ops option"
  env_events :: "'w event_ops"
  env_providers :: "'w provider_ops list"
  env_identity :: identity

record 'w engine =
  e_world :: 'w
  e_region_objs :: "region_id \<rightharpoonup> memory_region"
  e_regions :: "region_id list"
  e_alive :: "region_id list"
  e_reg_cache :: "registration list"
  e_next_reg :: nat
  e_released :: "nat list"
  e_remotes :: "((peer_id \<times> region_id) \<times> remote_region) list"
  e_peer_objs :: "peer_id \<rightharpoonup> peer"
  e_peers :: "peer_id list"
  e_reqs :: "request_id \<rightharpoonup> request"
  e_inflight :: "request_id list"
  e_completed :: "request_id list"
  e_pending :: "pending_submit list"
  e_rr_cursor :: nat
  e_notifications :: "notification list"
  e_ready_events :: "ready_event list"
  e_notify_pending :: "(u64 \<times> request_id) list"
  e_next_notify :: u64
  e_next_region :: u64
  e_next_peer :: u64
  e_next_request :: u64
  e_generation :: generation
  e_stats :: engine_stats
  e_closed :: bool

definition new_engine :: "'w \<Rightarrow> 'w engine" where
  "new_engine w = \<lparr>e_world = w, e_region_objs = Map.empty, e_regions = [], e_alive = [],
     e_reg_cache = [], e_next_reg = 0, e_released = [], e_remotes = [], e_peer_objs = Map.empty, e_peers = [],
     e_reqs = Map.empty, e_inflight = [], e_completed = [], e_pending = [], e_rr_cursor = 0,
     e_notifications = [], e_ready_events = [], e_notify_pending = [], e_next_notify = 1,
     e_next_region = 1, e_next_peer = 1, e_next_request = 1, e_generation = 1,
     e_stats = zero_engine_stats, e_closed = False\<rparr>"

text \<open>\<open>make_engine\<close> refuses an invalid configuration and an empty list of transports.\<close>

definition make_engine :: "'w engine_env \<Rightarrow> 'w \<Rightarrow> 'w engine result" where
  "make_engine env w =
    (if env_providers env = [] then Inl kInvalidArgument
     else let s = fst (validate (env_cfg env)) in
       if s \<noteq> kOk then Inl s else Inr (new_engine w))"

section \<open>Access\<close>

abbreviation the_prov :: "'w engine_env \<Rightarrow> nat \<Rightarrow> 'w provider_ops" where
  "the_prov env i \<equiv> env_providers env ! i"

definition upd_req :: "request_id \<Rightarrow> (request \<Rightarrow> request) \<Rightarrow> 'w engine \<Rightarrow> 'w engine" where
  "upd_req i f e = e\<lparr>e_reqs := (e_reqs e)(i := map_option f (e_reqs e i))\<rparr>"

definition upd_stats :: "(engine_stats \<Rightarrow> engine_stats) \<Rightarrow> 'w engine \<Rightarrow> 'w engine" where
  "upd_stats f e = e\<lparr>e_stats := f (e_stats e)\<rparr>"

definition find_region :: "region_id \<Rightarrow> 'w engine \<Rightarrow> memory_region option" where
  "find_region i e = (if i \<in> set (e_regions e) then e_region_objs e i else None)"

definition find_remote :: "peer_id \<Rightarrow> region_id \<Rightarrow> 'w engine \<Rightarrow> remote_region option" where
  "find_remote p i e = map_of (e_remotes e) (p, i)"

text \<open>A connection is a transport's, so the transport's place and its id name it together.\<close>

definition peer_for_conn :: "nat \<Rightarrow> conn_id option \<Rightarrow> 'w engine \<Rightarrow> peer_id" where
  "peer_for_conn prov c e =
    (case c of
       None \<Rightarrow> 0
     | Some cn \<Rightarrow>
        (case List.find (\<lambda>i. case e_peer_objs e i of None \<Rightarrow> False
               | Some p \<Rightarrow> (\<exists>l\<in>set (pr_lanes p). ln_provider l = prov \<and> ln_conn l = cn)) (e_peers e) of
           None \<Rightarrow> 0 | Some i \<Rightarrow> i))"

fun dependency_loop :: "'w event_ops \<Rightarrow> 'w \<Rightarrow> event_id option list \<Rightarrow> status \<Rightarrow> status" where
  "dependency_loop ops w [] st = st"
| "dependency_loop ops w (None # evs) st = dependency_loop ops w evs st"
| "dependency_loop ops w (Some i # evs) st =
    (if \<not> ev_recorded ops i w then kInvalidArgument
     else case ev_query ops i w of
       Inl q \<Rightarrow> q
     | Inr fin \<Rightarrow> dependency_loop ops w evs (if fin then st else kWouldBlock))"

definition dependency_state :: "'w engine_env \<Rightarrow> event_id option list \<Rightarrow> 'w \<Rightarrow> status" where
  "dependency_state env after w = dependency_loop (env_events env) w after kOk"

section \<open>Bounded queues\<close>

definition keep_completed :: "'w engine_env \<Rightarrow> request_id \<Rightarrow> 'w engine \<Rightarrow> 'w engine" where
  "keep_completed env i e =
    (let depth = unat (completion_queue_depth (env_cfg env));
         drop1 = upd_stats (\<lambda>s. s\<lparr>completions_dropped := completions_dropped s + 1\<rparr>) in
     if depth = 0 then drop1 e
     else let e1 = e\<lparr>e_completed := e_completed e @ [i]\<rparr> in
       if length (e_completed e1) \<le> depth then e1
       else drop1 (e1\<lparr>e_completed := tl (e_completed e1)\<rparr>))"

definition publish :: "'w engine_env \<Rightarrow> request_id \<Rightarrow> 'w engine \<Rightarrow> 'w engine" where
  "publish env i e = keep_completed env i e"

definition keep_ready :: "'w engine_env \<Rightarrow> ready_event \<Rightarrow> 'w engine \<Rightarrow> 'w engine" where
  "keep_ready env ev e =
    (if unat (ready_queue_depth (env_cfg env)) \<le> length (e_ready_events e)
     then upd_stats (\<lambda>s. s\<lparr>ready_events_dropped := ready_events_dropped s + 1\<rparr>) e
     else e\<lparr>e_ready_events := e_ready_events e @ [ev]\<rparr>)"

definition has_outstanding :: "'w engine \<Rightarrow> bool" where
  "has_outstanding e \<longleftrightarrow> e_inflight e \<noteq> [] \<or> e_pending e \<noteq> [] \<or> e_notify_pending e \<noteq> []"

end
