(* ===== verification/Hux_Local.thy ===== *)
theory Hux_Local
  imports Hux_Provider
begin

text \<open>
  transport/local/*: transfers between engines of one process. The world holds the process's
  memory, the registry every local provider publishes to, and the providers themselves, in the
  order they were created; a weak pointer to a provider is its position, or \<open>None\<close> once unset.
  A memcpy is one step, as the registry's shared lock makes it with respect to \<open>registry_withdraw\<close>.
\<close>

record local_prov =
  lp_stats :: provider_stats
  lp_completions :: "completion_event list"
  lp_control :: "control_message list"
  lp_local_keys :: "u64 \<rightharpoonup> addr"
  lp_peer :: "nat option"

record local_world =
  lw_mem :: "nat \<Rightarrow> u8"
  lw_entries :: "u64 \<rightharpoonup> addr \<times> u64"
  lw_next :: u64
  lw_provs :: "local_prov list"
  lw_next_conn :: conn_id

section \<open>The registry\<close>

definition registry_publish :: "addr \<Rightarrow> u64 \<Rightarrow> local_world \<Rightarrow> u64 \<times> local_world" where
  "registry_publish a len w = (lw_next w, w\<lparr>lw_next := lw_next w + 1,
     lw_entries := (lw_entries w)(lw_next w \<mapsto> (a, len))\<rparr>)"

definition registry_withdraw :: "u64 \<Rightarrow> local_world \<Rightarrow> local_world" where
  "registry_withdraw key w = w\<lparr>lw_entries := (lw_entries w)(key := None)\<rparr>"

definition resolve_locked :: "u64 \<Rightarrow> addr \<Rightarrow> u64 \<Rightarrow> local_world \<Rightarrow> addr option" where
  "resolve_locked key a len w =
    (case lw_entries w key of
       None \<Rightarrow> None
     | Some (base, n) \<Rightarrow>
        if a < base then None
        else let offset = a - base in
          if offset > n \<or> len > n - offset then None else Some (base + offset))"

definition memcpy :: "nat \<Rightarrow> nat \<Rightarrow> nat \<Rightarrow> (nat \<Rightarrow> u8) \<Rightarrow> nat \<Rightarrow> u8" where
  "memcpy dst src n m = (\<lambda>x. if dst \<le> x \<and> x < dst + n then m (src + (x - dst)) else m x)"

definition registry_copy :: "u64 \<Rightarrow> addr \<Rightarrow> u64 \<Rightarrow> addr \<Rightarrow> bool \<Rightarrow> local_world \<Rightarrow> bool \<times> local_world" where
  "registry_copy key a len local into_local w =
    (case resolve_locked key a len w of
       None \<Rightarrow> (False, w)
     | Some remote \<Rightarrow>
        (True, w\<lparr>lw_mem := (if into_local then memcpy (unat local) (unat remote) (unat len) (lw_mem w)
                           else memcpy (unat remote) (unat local) (unat len) (lw_mem w))\<rparr>))"

section \<open>The provider\<close>

definition new_local_prov :: local_prov where
  "new_local_prov = \<lparr>lp_stats = zero_stats, lp_completions = [], lp_control = [],
     lp_local_keys = Map.empty, lp_peer = None\<rparr>"

definition local_create :: "local_world \<Rightarrow> nat \<times> local_world" where
  "local_create w = (length (lw_provs w), w\<lparr>lw_provs := lw_provs w @ [new_local_prov]\<rparr>)"

definition upd_prov :: "nat \<Rightarrow> (local_prov \<Rightarrow> local_prov) \<Rightarrow> local_world \<Rightarrow> local_world" where
  "upd_prov i f w = w\<lparr>lw_provs := (lw_provs w)[i := f (lw_provs w ! i)]\<rparr>"

definition pair_with :: "nat \<Rightarrow> nat \<Rightarrow> local_world \<Rightarrow> local_world" where
  "pair_with i peer w = upd_prov i (\<lambda>p. p\<lparr>lp_peer := Some peer\<rparr>) w"

definition local_caps :: provider_caps where
  "local_caps = \<lparr>pc_name = ''local'', supports_read = True, supports_write = True,
     supports_vector = True, supports_multi_qp = False, needs_explicit_flush = False,
     supports_peer_signal = False, relative_capacity = 1, max_segment_bytes = 0, max_sge = 1\<rparr>"

definition local_describe :: string where
  "local_describe = CHR ''{'' # jstr ''provider'' ''local'' @ CHR '','' # jstr ''path'' ''same_process'' @ ''}''"

definition local_register_region ::
  "nat \<Rightarrow> addr \<Rightarrow> u64 \<Rightarrow> device_id \<Rightarrow> access_flags \<Rightarrow> local_world \<Rightarrow> (u64 \<times> u64) result \<times> local_world" where
  "local_register_region i a len dev acc w =
    (if a = 0 \<or> len = 0 then (Inl kInvalidArgument, w)
     else case registry_publish a len w of (key, w1) \<Rightarrow>
       (Inr (key, key), upd_prov i (\<lambda>p. p\<lparr>lp_local_keys := (lp_local_keys p)(key \<mapsto> a)\<rparr>) w1))"

definition local_deregister_region :: "nat \<Rightarrow> u64 \<Rightarrow> local_world \<Rightarrow> status \<times> local_world" where
  "local_deregister_region i key w =
    (if lp_local_keys (lw_provs w ! i) key = None then (kNotFound, w)
     else (kOk, registry_withdraw key
       (upd_prov i (\<lambda>p. p\<lparr>lp_local_keys := (lp_local_keys p)(key := None)\<rparr>) w)))"

definition local_connect :: "nat \<Rightarrow> bytes \<Rightarrow> local_world \<Rightarrow> conn_id result \<times> local_world" where
  "local_connect i md w = (Inr (lw_next_conn w), w\<lparr>lw_next_conn := Suc (lw_next_conn w)\<rparr>)"

definition local_event :: "subop \<Rightarrow> completion_event" where
  "local_event op = \<lparr>ce_request = so_request op, ce_sub_id = so_sub_id op, ce_bytes = so_length op,
     ce_status = kOk, ce_errno = 0, ce_may_have_modified_target = False\<rparr>"

definition local_posted :: "subop \<Rightarrow> local_prov \<Rightarrow> local_prov" where
  "local_posted op p = p\<lparr>lp_completions := lp_completions p @ [local_event op],
     lp_stats := (lp_stats p)\<lparr>subops_posted := subops_posted (lp_stats p) + 1,
       payload_bytes := payload_bytes (lp_stats p) + so_length op,
       payload_bytes_copied := payload_bytes_copied (lp_stats p) + so_length op\<rparr>\<rparr>"

fun local_submit_loop :: "nat \<Rightarrow> subop list \<Rightarrow> submit_result \<Rightarrow> local_world \<Rightarrow> submit_result \<times> local_world" where
  "local_submit_loop i [] r w = (r, w)"
| "local_submit_loop i (op # ops) r w =
    (case registry_copy (so_remote_key op) (so_remote_addr op) (so_length op) (so_local_addr op)
            (so_kind op = kRead) w of
       (False, w1) \<Rightarrow> (r\<lparr>sr_status := kInvalidArgument\<rparr>, w1)
     | (True, w1) \<Rightarrow>
        local_submit_loop i ops (r\<lparr>sr_accepted := Suc (sr_accepted r)\<rparr>) (upd_prov i (local_posted op) w1))"

definition local_submit ::
  "nat \<Rightarrow> conn_id option \<Rightarrow> subop list \<Rightarrow> local_world \<Rightarrow> submit_result \<times> local_world" where
  "local_submit i conn ops w =
    (if conn = None then (\<lparr>sr_accepted = 0, sr_status = kInvalidArgument, sr_errno = 0\<rparr>, w)
     else local_submit_loop i ops \<lparr>sr_accepted = 0, sr_status = kOk, sr_errno = 0\<rparr> w)"

definition local_poll ::
  "nat \<Rightarrow> nat \<Rightarrow> local_world \<Rightarrow> (status \<times> completion_event list) \<times> local_world" where
  "local_poll i n w =
    (let evs = take n (lp_completions (lw_provs w ! i)) in
     ((kOk, evs), upd_prov i (\<lambda>p. p\<lparr>lp_completions := drop n (lp_completions p),
        lp_stats := (lp_stats p)\<lparr>subops_completed :=
          subops_completed (lp_stats p) + word_of_nat (length evs)\<rparr>\<rparr>) w))"

definition deliver_control :: "nat \<Rightarrow> control_message \<Rightarrow> local_world \<Rightarrow> local_world" where
  "deliver_control i m w = upd_prov i (\<lambda>p. p\<lparr>lp_control := lp_control p @ [m]\<rparr>) w"

definition local_target :: "nat \<Rightarrow> local_world \<Rightarrow> nat" where
  "local_target i w = (case lp_peer (lw_provs w ! i) of Some j \<Rightarrow> j | None \<Rightarrow> i)"

definition local_send_control ::
  "nat \<Rightarrow> conn_id option \<Rightarrow> u16 \<Rightarrow> bytes \<Rightarrow> local_world \<Rightarrow> status \<times> local_world" where
  "local_send_control i conn ty pl w =
    (case conn of
       None \<Rightarrow> (kInvalidArgument, w)
     | Some c \<Rightarrow> (kOk, deliver_control (local_target i w)
         \<lparr>cm_peer = 0, cm_type = ty, cm_payload = pl, cm_conn = Some c\<rparr> w))"

definition local_broadcast_control ::
  "nat \<Rightarrow> u16 \<Rightarrow> bytes \<Rightarrow> local_world \<Rightarrow> (status \<times> nat \<times> nat) \<times> local_world" where
  "local_broadcast_control i ty pl w =
    ((kOk, 1, 0), deliver_control (local_target i w)
       \<lparr>cm_peer = 0, cm_type = ty, cm_payload = pl, cm_conn = None\<rparr> w)"

definition local_poll_control ::
  "nat \<Rightarrow> nat \<Rightarrow> local_world \<Rightarrow> (status \<times> control_message list) \<times> local_world" where
  "local_poll_control i n w =
    ((kOk, take n (lp_control (lw_provs w ! i))),
     upd_prov i (\<lambda>p. p\<lparr>lp_control := drop n (lp_control p)\<rparr>) w)"

definition local_ops :: "nat \<Rightarrow> local_world provider_ops" where
  "local_ops i = \<lparr>
     po_caps = local_caps,
     po_stats = (\<lambda>w. lp_stats (lw_provs w ! i)),
     po_describe = (\<lambda>w. local_describe),
     po_register_region = local_register_region i,
     po_deregister_region = local_deregister_region i,
     po_connect = local_connect i,
     po_disconnect = (\<lambda>c w. (kOk, w)),
     po_local_metadata = (\<lambda>w. Inr (string_bytes ''local'')),
     po_submit = local_submit i,
     po_poll = local_poll i,
     po_send_control = local_send_control i,
     po_broadcast_control = local_broadcast_control i,
     po_poll_control = local_poll_control i,
     po_poll_peer_arrivals = (\<lambda>n w. ((kOk, []), w)),
     po_flush = (\<lambda>c w. (kOk, w)),
     po_drain = (\<lambda>c t w. (kOk, w)),
     po_qp_count = (\<lambda>c w. 1),
     po_submit_capacity = (\<lambda>c w. 4096),
     po_alive = (\<lambda>c w. True)\<rparr>"

section \<open>The contract of a transport\<close>

definition prov_keys :: "local_prov \<Rightarrow> (request_id \<times> u64) list" where
  "prov_keys p = map ce_key (lp_completions p)"

text \<open>What the first \<open>n\<close> providers of the process have accepted and not reported.\<close>

definition local_outstanding :: "nat \<Rightarrow> local_world \<Rightarrow> (request_id \<times> u64) multiset" where
  "local_outstanding n w = mset (concat (map prov_keys (take n (lw_provs w))))"

lemma ce_key_local_event [simp]: "ce_key (local_event op) = so_key op"
  by (simp add: ce_key_def so_key_def local_event_def)

lemma length_upd_prov [simp]: "length (lw_provs (upd_prov i f w)) = length (lw_provs w)"
  by (simp add: upd_prov_def)

lemma outstanding_upd_prov:
  "i < n \<Longrightarrow> i < length (lw_provs w) \<Longrightarrow>
   local_outstanding n (upd_prov i f w) + mset (prov_keys (lw_provs w ! i)) =
   local_outstanding n w + mset (prov_keys (f (lw_provs w ! i)))"
  unfolding local_outstanding_def upd_prov_def
  using mset_concat_update [of i "take n (lw_provs w)" prov_keys "f (lw_provs w ! i)"]
  by (simp add: take_update_swap del: mset_concat mset_map)

lemma outstanding_upd_same:
  "prov_keys (f (lw_provs w ! i)) = prov_keys (lw_provs w ! i) \<Longrightarrow>
   local_outstanding n (upd_prov i f w) = local_outstanding n w"
  using outstanding_upd_prov [of i n w f]
  by (cases "i < n \<and> i < length (lw_provs w)")
    (auto simp: upd_prov_def local_outstanding_def take_update_swap list_update_beyond)

lemma copy_outstanding:
  "registry_copy k a l loc b w = (ok, w') \<Longrightarrow> local_outstanding n w' = local_outstanding n w \<and> lw_provs w' = lw_provs w"
  by (auto simp: registry_copy_def local_outstanding_def split: option.splits)

lemma local_submit_loop_law:
  "i < n \<Longrightarrow> i < length (lw_provs w) \<Longrightarrow> local_submit_loop i ops r w = (r', w') \<Longrightarrow>
   length (lw_provs w') = length (lw_provs w) \<and> sr_accepted r \<le> sr_accepted r' \<and>
   sr_accepted r' - sr_accepted r \<le> length ops \<and>
   (sr_accepted r' - sr_accepted r < length ops \<longrightarrow> sr_status r' \<noteq> kOk) \<and>
   local_outstanding n w' =
     local_outstanding n w + mset (map so_key (take (sr_accepted r' - sr_accepted r) ops))"
proof (induction i ops r w rule: local_submit_loop.induct)
  case (2 i op ops r w)
  obtain ok w1 where cp: "registry_copy (so_remote_key op) (so_remote_addr op) (so_length op)
      (so_local_addr op) (so_kind op = kRead) w = (ok, w1)" by fastforce
  note cpo = copy_outstanding [OF cp]
  show ?case
  proof (cases ok)
    case False
    with 2 cp cpo show ?thesis by auto
  next
    case True
    let ?w2 = "upd_prov i (local_posted op) w1"
    have o2: "local_outstanding n ?w2 = add_mset (so_key op) (local_outstanding n w)"
      using outstanding_upd_prov [of i n w1 "local_posted op"] 2(2,3) cpo
      by (simp add: prov_keys_def local_posted_def)
    have run: "local_submit_loop i ops (r\<lparr>sr_accepted := Suc (sr_accepted r)\<rparr>) ?w2 = (r', w')"
      using 2(4) cp True by simp
    have IH: "length (lw_provs w') = length (lw_provs ?w2) \<and> Suc (sr_accepted r) \<le> sr_accepted r' \<and>
       sr_accepted r' - Suc (sr_accepted r) \<le> length ops \<and>
       (sr_accepted r' - Suc (sr_accepted r) < length ops \<longrightarrow> sr_status r' \<noteq> kOk) \<and>
       local_outstanding n w' = local_outstanding n ?w2 +
         mset (map so_key (take (sr_accepted r' - Suc (sr_accepted r)) ops))"
      using 2(1) [OF cp [symmetric]] True 2(2,3) cpo run by simp
    then have "sr_accepted r' - sr_accepted r = Suc (sr_accepted r' - Suc (sr_accepted r))" by linarith
    with IH o2 cpo show ?thesis by simp
  qed
qed simp

lemma local_poll_law:
  assumes "i < n" "i < length (lw_provs w)" "local_poll i k w = ((s, evs), w')"
  shows "length (lw_provs w') = length (lw_provs w)"
    "local_outstanding n w = mset (map ce_key evs) + local_outstanding n w'"
proof -
  let ?f = "\<lambda>p. p\<lparr>lp_completions := drop k (lp_completions p),
        lp_stats := (lp_stats p)\<lparr>subops_completed :=
          subops_completed (lp_stats p) + word_of_nat (length evs)\<rparr>\<rparr>"
  have w': "w' = upd_prov i ?f w" and evs: "evs = take k (lp_completions (lw_provs w ! i))"
    using assms(3) unfolding local_poll_def Let_def by auto
  have "mset (prov_keys (lw_provs w ! i)) = mset (map ce_key evs) + mset (prov_keys (?f (lw_provs w ! i)))"
    unfolding evs prov_keys_def
    by (simp flip: image_mset_union mset_append)
  then have "local_outstanding n w' + mset (map ce_key evs) + mset (prov_keys (?f (lw_provs w ! i))) =
      local_outstanding n w + mset (prov_keys (?f (lw_provs w ! i)))"
    using outstanding_upd_prov [OF assms(1,2), of ?f] unfolding w' by (simp only: add.assoc)
  then show "local_outstanding n w = mset (map ce_key evs) + local_outstanding n w'"
    by (simp only: add_right_cancel add.commute)
  show "length (lw_provs w') = length (lw_provs w)" by (simp add: w')
qed

lemma local_submit_law:
  assumes "i < n" "i < length (lw_provs w)" "local_submit i c xs w = (r, w')"
  shows "length (lw_provs w') = length (lw_provs w) \<and> sr_accepted r \<le> length xs \<and>
     local_outstanding n w' = local_outstanding n w + mset (map so_key (take (sr_accepted r) xs))"
    "sr_accepted r < length xs \<Longrightarrow> sr_status r \<noteq> kOk"
  using assms local_submit_loop_law [OF assms(1,2), of xs "\<lparr>sr_accepted = 0, sr_status = kOk, sr_errno = 0\<rparr>" r w']
  by (auto simp: local_submit_def split: if_splits)

lemma outstanding_lw [simp]:
  "local_outstanding n (w\<lparr>lw_entries := e\<rparr>) = local_outstanding n w"
  "local_outstanding n (w\<lparr>lw_next := k\<rparr>) = local_outstanding n w"
  "local_outstanding n (w\<lparr>lw_next_conn := m\<rparr>) = local_outstanding n w"
  by (simp_all add: local_outstanding_def)

lemma outstanding_control [simp]:
  "local_outstanding n (upd_prov i (\<lambda>p. p\<lparr>lp_control := f p\<rparr>) w) = local_outstanding n w"
  "local_outstanding n (upd_prov i (\<lambda>p. p\<lparr>lp_local_keys := g p\<rparr>) w) = local_outstanding n w"
  by (simp_all add: outstanding_upd_same prov_keys_def)

lemma length_lw [simp]: "length (lw_provs (deliver_control j m w)) = length (lw_provs w)"
  by (simp add: deliver_control_def)

lemma outstanding_deliver [simp]: "local_outstanding n (deliver_control j m w) = local_outstanding n w"
  by (simp add: deliver_control_def)

lemma local_register_keeps:
  "local_register_region i a l d f w = (k, w') \<Longrightarrow>
   length (lw_provs w') = length (lw_provs w) \<and> local_outstanding n w' = local_outstanding n w"
  by (auto simp: local_register_region_def registry_publish_def split: if_splits)

lemma local_deregister_keeps:
  "local_deregister_region i key w = (s, w') \<Longrightarrow>
   length (lw_provs w') = length (lw_provs w) \<and> local_outstanding n w' = local_outstanding n w"
  by (auto simp: local_deregister_region_def registry_withdraw_def split: if_splits)

lemma local_connect_keeps:
  "local_connect i m w = (c, w') \<Longrightarrow>
   length (lw_provs w') = length (lw_provs w) \<and> local_outstanding n w' = local_outstanding n w"
  by (auto simp: local_connect_def)

lemma local_send_keeps:
  "local_send_control i c t pl w = (s, w') \<Longrightarrow>
   length (lw_provs w') = length (lw_provs w) \<and> local_outstanding n w' = local_outstanding n w"
  by (auto simp: local_send_control_def split: option.splits)

lemma local_broadcast_keeps:
  "local_broadcast_control i t pl w = (r, w') \<Longrightarrow>
   length (lw_provs w') = length (lw_provs w) \<and> local_outstanding n w' = local_outstanding n w"
  by (auto simp: local_broadcast_control_def)

lemma local_poll_control_keeps:
  "local_poll_control i k w = (r, w') \<Longrightarrow>
   length (lw_provs w') = length (lw_provs w) \<and> local_outstanding n w' = local_outstanding n w"
  by (auto simp: local_poll_control_def)

lemmas local_keeps = local_register_keeps local_deregister_keeps local_connect_keeps local_send_keeps
  local_broadcast_keeps local_poll_control_keeps

interpretation lp: transport_provider "local_ops i" "\<lambda>w. Suc (i + k) \<le> length (lw_provs w)" "local_outstanding (Suc (i + k))"
  for i k
proof (unfold_locales, goal_cases)
  case (1 w c xs r w')
  then show ?case using local_submit_law(1) [of i "Suc (i + k)" w c xs r w'] by (simp add: local_ops_def)
next
  case (2 w c xs r w')
  then show ?case using local_submit_law(2) [of i "Suc (i + k)" w c xs r w'] by (simp add: local_ops_def)
next
  case (3 w n s evs w')
  then show ?case using local_poll_law [of i "Suc (i + k)" w n s evs w'] by (simp add: local_ops_def)
qed (simp_all add: local_ops_def, (drule local_keeps [where n = "Suc (i + k)"], simp)+)

text \<open>The same with the number of providers as a bound.\<close>

lemma local_contract:
  assumes "i < n"
  shows "transport_provider (local_ops i) (\<lambda>w. n \<le> length (lw_provs w)) (local_outstanding n)"
  using lp.transport_provider_axioms [of i "n - Suc i"] assms by simp

section \<open>What a transfer touches\<close>

text \<open>A range the registry has published under a key, and the byte addresses of a range.\<close>

definition addr_range :: "addr \<Rightarrow> u64 \<Rightarrow> nat set" where
  "addr_range a len = {unat a ..< unat a + unat len}"

lemma resolve_published:
  assumes "resolve_locked key a len w = Some r"
  obtains base n where "lw_entries w key = Some (base, n)" "r = a"
    "addr_range a len \<subseteq> addr_range base n"
proof -
  obtain base n where e: "lw_entries w key = Some (base, n)"
    using assms by (cases "lw_entries w key") (auto simp: resolve_locked_def)
  have le: "\<not> a < base" and g: "\<not> (a - base > n \<or> len > n - (a - base))" and r: "r = base + (a - base)"
    using assms by (simp_all add: resolve_locked_def e Let_def split: if_splits)
  from le have le': "unat base \<le> unat a" by (simp add: word_le_nat_alt not_less)
  from g have g: "a - base \<le> n \<and> len \<le> n - (a - base)" by (simp only: de_Morgan_disj not_less)
  have "unat (a - base) + unat len \<le> unat n" using g by (simp only: no_wrap_range_iff)
  with le' le have "addr_range a len \<subseteq> addr_range base n"
    by (auto simp: addr_range_def word_le_nat_alt not_less)
  with that [OF e _ this] r show thesis by simp
qed

text \<open>The bytes a sub-operation may write: its local buffer, or the peer's published range.\<close>

definition may_write :: "subop \<Rightarrow> nat set" where
  "may_write op = (if so_kind op = kRead then addr_range (so_local_addr op) (so_length op)
                   else addr_range (so_remote_addr op) (so_length op))"

definition published :: "local_world \<Rightarrow> u64 \<Rightarrow> nat set" where
  "published w key = (case lw_entries w key of None \<Rightarrow> {} | Some (base, n) \<Rightarrow> addr_range base n)"

lemma copy_effect:
  assumes "registry_copy key a len loc into w = (ok, w')"
  shows "lw_entries w' = lw_entries w"
    "ok \<Longrightarrow> addr_range a len \<subseteq> published w key"
    "x \<notin> (if into then addr_range loc len else addr_range a len) \<Longrightarrow> lw_mem w' x = lw_mem w x"
    "\<not> ok \<Longrightarrow> w' = w"
    "ok \<Longrightarrow> j < unat len \<Longrightarrow>
       (if into then lw_mem w' (unat loc + j) = lw_mem w (unat a + j)
        else lw_mem w' (unat a + j) = lw_mem w (unat loc + j))"
proof -
  show "lw_entries w' = lw_entries w" "\<not> ok \<Longrightarrow> w' = w"
    using assms by (auto simp: registry_copy_def split: option.splits)
  show "ok \<Longrightarrow> addr_range a len \<subseteq> published w key"
    using assms by (auto simp: registry_copy_def published_def split: option.splits elim!: resolve_published)
  show "x \<notin> (if into then addr_range loc len else addr_range a len) \<Longrightarrow> lw_mem w' x = lw_mem w x"
    using assms by (auto simp: registry_copy_def memcpy_def addr_range_def split: option.splits if_splits
        elim!: resolve_published)
  show "ok \<Longrightarrow> j < unat len \<Longrightarrow>
       (if into then lw_mem w' (unat loc + j) = lw_mem w (unat a + j)
        else lw_mem w' (unat a + j) = lw_mem w (unat loc + j))"
    using assms by (auto simp: registry_copy_def memcpy_def split: option.splits if_splits elim!: resolve_published)
qed

lemma upd_prov_mem [simp]: "lw_mem (upd_prov i f w) = lw_mem w" "lw_entries (upd_prov i f w) = lw_entries w"
  "published (upd_prov i f w) = published w"
  by (simp_all add: upd_prov_def published_def fun_eq_iff)

lemma local_submit_loop_mem:
  "local_submit_loop i ops r w = (r', w') \<Longrightarrow> sr_accepted r \<le> sr_accepted r' \<and>
   lw_entries w' = lw_entries w \<and>
   (\<forall>op\<in>set (take (sr_accepted r' - sr_accepted r) ops).
      addr_range (so_remote_addr op) (so_length op) \<subseteq> published w (so_remote_key op)) \<and>
   (\<forall>x. x \<notin> (\<Union>op\<in>set (take (sr_accepted r' - sr_accepted r) ops). may_write op) \<longrightarrow>
      lw_mem w' x = lw_mem w x)"
proof (induction i ops r w rule: local_submit_loop.induct)
  case (2 i op ops r w)
  obtain ok w1 where cp: "registry_copy (so_remote_key op) (so_remote_addr op) (so_length op)
      (so_local_addr op) (so_kind op = kRead) w = (ok, w1)" by fastforce
  note eff = copy_effect [OF cp]
  show ?case
  proof (cases ok)
    case False
    with 2 cp eff(4) show ?thesis by auto
  next
    case True
    let ?w2 = "upd_prov i (local_posted op) w1"
    have run: "local_submit_loop i ops (r\<lparr>sr_accepted := Suc (sr_accepted r)\<rparr>) ?w2 = (r', w')"
      using 2(2) cp True by simp
    note IH = 2(1) [OF cp [symmetric]] True run
    have pub: "published w1 = published w" using eff(1) by (simp add: published_def fun_eq_iff)
    from IH have IH': "Suc (sr_accepted r) \<le> sr_accepted r'" "lw_entries w' = lw_entries w"
      "\<forall>op\<in>set (take (sr_accepted r' - Suc (sr_accepted r)) ops).
        addr_range (so_remote_addr op) (so_length op) \<subseteq> published w (so_remote_key op)"
      "\<forall>x. x \<notin> (\<Union>op\<in>set (take (sr_accepted r' - Suc (sr_accepted r)) ops). may_write op) \<longrightarrow>
        lw_mem w' x = lw_mem w1 x"
      using eff(1) pub by simp_all
    then have suc: "sr_accepted r' - sr_accepted r = Suc (sr_accepted r' - Suc (sr_accepted r))" by linarith
    show ?thesis
      unfolding suc using IH' eff(2) [OF True] eff(3) by (auto simp: may_write_def)
  qed
qed simp

text \<open>
  What a sub-operation moves: \<open>so_length\<close> bytes, out of the peer's range for a read and into it
  for a write.
\<close>

definition moved :: "subop \<Rightarrow> (nat \<Rightarrow> u8) \<Rightarrow> nat \<Rightarrow> u8" where
  "moved op m x =
    (let loc = unat (so_local_addr op); rem = unat (so_remote_addr op); n = unat (so_length op) in
     if so_kind op = kRead then (if x \<in> {loc ..< loc + n} then m (rem + x - loc) else m x)
     else (if x \<in> {rem ..< rem + n} then m (loc + x - rem) else m x))"

lemma copy_moved:
  assumes "registry_copy (so_remote_key op) (so_remote_addr op) (so_length op) (so_local_addr op)
    (so_kind op = kRead) w = (ok, w')" ok
  shows "lw_mem w' = moved op (lw_mem w)" "lw_entries w' = lw_entries w" "lw_provs w' = lw_provs w"
  using assms by (auto simp: registry_copy_def memcpy_def moved_def Let_def fun_eq_iff
      split: option.splits elim!: resolve_published)

definition resolves :: "local_world \<Rightarrow> subop \<Rightarrow> bool" where
  "resolves w op = (resolve_locked (so_remote_key op) (so_remote_addr op) (so_length op) w \<noteq> None)"

lemma copy_refused:
  "registry_copy (so_remote_key op) (so_remote_addr op) (so_length op) loc into w = (ok, w') \<Longrightarrow> \<not> ok \<Longrightarrow>
   \<not> resolves w op \<and> w' = w"
  by (auto simp: registry_copy_def resolves_def split: option.splits)

lemma resolves_entries: "lw_entries w' = lw_entries w \<Longrightarrow> resolves w' = resolves w"
  by (simp add: resolves_def resolve_locked_def fun_eq_iff)

lemma local_submit_loop_moves:
  "local_submit_loop i ops r w = (r', w') \<Longrightarrow> i < length (lw_provs w) \<Longrightarrow> sr_status r = kOk \<Longrightarrow>
   (let k = sr_accepted r' - sr_accepted r in sr_accepted r \<le> sr_accepted r' \<and>
    lw_mem w' = fold moved (take k ops) (lw_mem w) \<and> lw_entries w' = lw_entries w \<and>
    lp_completions (lw_provs w' ! i) = lp_completions (lw_provs w ! i) @ map local_event (take k ops) \<and>
    (if k = length ops then sr_status r' = kOk
     else k < length ops \<and> sr_status r' = kInvalidArgument \<and>
       \<not> resolves w (ops ! k)))"
proof (induction i ops r w rule: local_submit_loop.induct)
  case (2 i op ops r w)
  obtain ok w1 where cp: "registry_copy (so_remote_key op) (so_remote_addr op) (so_length op)
      (so_local_addr op) (so_kind op = kRead) w = (ok, w1)" by fastforce
  show ?case
  proof (cases ok)
    case False
    with 2 cp copy_refused [OF cp False] show ?thesis by (auto simp: Let_def)
  next
    case True
    note cm = copy_moved [OF cp True]
    let ?w2 = "upd_prov i (local_posted op) w1" and ?k = "sr_accepted r' - Suc (sr_accepted r)"
    have run: "local_submit_loop i ops (r\<lparr>sr_accepted := Suc (sr_accepted r)\<rparr>) ?w2 = (r', w')"
      using 2(2) cp True by simp
    have ent: "lw_entries ?w2 = lw_entries w" using cm by simp
    have one: "lp_completions (lw_provs ?w2 ! i) = lp_completions (lw_provs w ! i) @ [local_event op]"
      using cm(3) 2(3) by (simp add: upd_prov_def local_posted_def)
    have IH: "Suc (sr_accepted r) \<le> sr_accepted r'" "lw_mem w' = fold moved (take ?k ops) (lw_mem ?w2)"
      "lw_entries w' = lw_entries ?w2"
      "lp_completions (lw_provs w' ! i) = lp_completions (lw_provs ?w2 ! i) @ map local_event (take ?k ops)"
      "if ?k = length ops then sr_status r' = kOk else ?k < length ops \<and> sr_status r' = kInvalidArgument \<and> \<not> resolves w (ops ! ?k)"
      using 2(1) [OF cp [symmetric]] True run 2(3,4) cm(3) resolves_entries [OF ent] by (simp_all add: Let_def cong: if_cong)
    have suc: "sr_accepted r' - sr_accepted r = Suc ?k" using IH(1) by linarith
    show ?thesis
      unfolding suc Let_def using IH cm one by (auto simp: Let_def split: if_splits)
  qed
qed simp

section \<open>Properties\<close>

text \<open>
  (C9) On the peer's side the local path keeps to what the registry has published: every accepted
  sub-operation names a range that lies inside the one published under its key. A submit changes no
  byte but those of the ranges accepted writes name there and those of the local buffers accepted
  reads name. The local buffers are not looked up: they are the engine's, which checks them against
  its own regions when it builds the sub-operations.
\<close>

theorem local_submit_memory_safe:
  assumes "local_submit i conn ops w = (r, w')"
  shows "(\<forall>op\<in>set (take (sr_accepted r) ops).
            addr_range (so_remote_addr op) (so_length op) \<subseteq> published w (so_remote_key op)) \<and>
         (\<forall>x. x \<notin> (\<Union>op\<in>set (take (sr_accepted r) ops). may_write op) \<longrightarrow> lw_mem w' x = lw_mem w x)"
  using assms local_submit_loop_mem [of i ops "\<lparr>sr_accepted = 0, sr_status = kOk, sr_errno = 0\<rparr>" w r w']
  by (auto simp: local_submit_def split: if_splits)

definition sample_world :: local_world where
  "sample_world = \<lparr>lw_mem = (\<lambda>x. word_of_nat x), lw_entries = [1 \<mapsto> (0x1000, 0x100)], lw_next = 2,
     lw_provs = [new_local_prov], lw_next_conn = 0\<rparr>"

definition sample_op :: "subop_kind \<Rightarrow> u64 \<Rightarrow> subop" where
  "sample_op k n = \<lparr>so_signal_peer = False, so_peer_token = 0, so_kind = k, so_request = 5, so_sub_id = n,
     so_local_addr = 0x40, so_local_key = 0, so_remote_addr = 0x1010, so_remote_key = 1, so_length = 8\<rparr>"

theorem local_submit_memory_safe_witness:
  "lw_mem (snd (local_submit 0 (Some 0) [sample_op kRead 1] sample_world)) 0x1010 = 0x10"
proof -
  obtain r w' where sub: "local_submit 0 (Some 0) [sample_op kRead 1] sample_world = (r, w')" by fastforce
  then have acc: "sr_accepted r \<le> 1"
    using local_submit_law(1) [of 0 1 sample_world "Some 0" "[sample_op kRead 1]" r w']
    by (simp add: sample_world_def)
  have "x \<notin> addr_range 0x40 8 \<Longrightarrow> lw_mem w' x = lw_mem sample_world x" for x
    using local_submit_memory_safe [OF sub] acc
    by (cases "sr_accepted r") (auto simp: may_write_def sample_op_def)
  then show ?thesis
    using sub by (simp add: addr_range_def sample_world_def)
qed

text \<open>
  (C32) A submit moves exactly the bytes of the sub-operations it accepts, in their order: the memory
  afterwards is the memory before with each accepted read copied from the peer's range into the
  local buffer and each accepted write the other way, length for length, and every other byte as it
  was. One completion is queued for each, and what is published does not change. A batch is cut
  short only by a sub-operation the registry does not resolve, and then with an error.
\<close>

theorem local_copy_exact:
  assumes "local_submit i (Some c) ops w = (r, w')" "i < length (lw_provs w)"
  shows "lw_mem w' = fold moved (take (sr_accepted r) ops) (lw_mem w) \<and> lw_entries w' = lw_entries w \<and>
    lp_completions (lw_provs w' ! i) =
      lp_completions (lw_provs w ! i) @ map local_event (take (sr_accepted r) ops) \<and>
    (if sr_accepted r = length ops then sr_status r = kOk
     else sr_accepted r < length ops \<and> sr_status r = kInvalidArgument \<and> \<not> resolves w (ops ! sr_accepted r))"
  using assms local_submit_loop_moves [of i ops "\<lparr>sr_accepted = 0, sr_status = kOk, sr_errno = 0\<rparr>" w r w']
  by (simp add: local_submit_def Let_def)

definition stray_op :: subop where
  "stray_op = (sample_op kRead 2)\<lparr>so_remote_addr := 0x10F9\<rparr>"

lemma stray_resolve: "lw_entries w = lw_entries sample_world \<Longrightarrow> resolve_locked 1 0x10F9 8 w = None"
  by (simp add: resolve_locked_def sample_world_def word_less_nat_alt)

lemma sample_resolves: "lw_entries w = lw_entries sample_world \<Longrightarrow> resolve_locked 1 0x1010 8 w = Some 0x1010"
  by (simp add: resolve_locked_def sample_world_def word_less_nat_alt)

theorem local_copy_exact_witness:
  "lw_mem (snd (local_submit 0 (Some 0) [sample_op kRead 1, stray_op] sample_world)) =
     (\<lambda>x. if 0x40 \<le> x \<and> x < 0x48 then word_of_nat (x + 0xFD0) else word_of_nat x) \<and>
   sr_status (fst (local_submit 0 (Some 0) [sample_op kRead 1, stray_op] sample_world)) = kInvalidArgument"
proof -
  obtain r w' where sub: "local_submit 0 (Some 0) [sample_op kRead 1, stray_op] sample_world = (r, w')" by fastforce
  then have "sr_accepted r = 1"
    by (auto simp: local_submit_def registry_copy_def sample_op_def stray_op_def sample_resolves stray_resolve)
  with local_copy_exact [OF sub] sub show ?thesis
    by (auto simp: sample_world_def sample_op_def moved_def fun_eq_iff)
qed

text \<open>
  Every sub-operation the local path accepts is reported exactly once: over any sequence of
  submissions and polls, the sub-operations accepted are those reported and those still
  waiting to be, with multiplicity, whichever of the process's providers are counted.
\<close>

theorem local_completion_conservation:
  assumes "i < n" "n \<le> length (lw_provs w)" "provider_run (local_ops i) calls w = (taken, reported, w')"
  shows "local_outstanding n w + mset taken = mset reported + local_outstanding n w'"
  using transport_provider.run_conserves [OF local_contract [OF assms(1)] assms(2,3)] by blast

theorem local_completion_conservation_witness:
  "local_outstanding 1 sample_world +
     mset (fst (provider_run (local_ops 0) [CallSubmit (Some 0) [sample_op kWrite 1], CallPoll 4] sample_world)) =
   mset (fst (snd (provider_run (local_ops 0) [CallSubmit (Some 0) [sample_op kWrite 1], CallPoll 4] sample_world))) +
     local_outstanding 1 (snd (snd (provider_run (local_ops 0)
       [CallSubmit (Some 0) [sample_op kWrite 1], CallPoll 4] sample_world)))"
proof -
  let ?calls = "[CallSubmit (Some 0) [sample_op kWrite 1], CallPoll 4]"
  obtain taken reported w' where run: "provider_run (local_ops 0) ?calls sample_world = (taken, reported, w')"
    by (rule prod_cases3)
  have "(0::nat) < 1" "1 \<le> length (lw_provs sample_world)" by (simp_all add: sample_world_def)
  from local_completion_conservation [OF this run] show ?thesis by (simp only: run fst_conv snd_conv)
qed

end
