(* ===== verification/Hux_Subops.thy ===== *)
theory Hux_Subops
  imports Hux_State Hux_Local
begin

text \<open>
  \<open>EngineImpl::build_subops\<close>: paired segments of a transfer split into sub-operations of at most
  one chunk, each given to the lane it costs least. What is shown: the sub-operations cover the
  segments exactly, stay inside both regions, respect every lane's limit, carry the keys of the
  transport that takes them, and are numbered from zero without a gap.
\<close>

section \<open>Splitting\<close>

text \<open>No chunk longer than any lane can carry.\<close>

definition chunk_limit :: "'w engine_env \<Rightarrow> lane list \<Rightarrow> u64" where
  "chunk_limit env lanes =
     fold (\<lambda>l chunk. let most = max_segment_bytes (po_caps (the_prov env (ln_provider l)))
                     in if 0 < most \<and> most < chunk then most else chunk)
       lanes (chunk_bytes (env_cfg env))"

text \<open>
  The offsets and lengths a segment of \<open>len\<close> bytes is cut into from \<open>off\<close> on. A chunk of zero
  bytes would never advance; a valid configuration has none, and the guard makes the
  recursion total.
\<close>

function chunks :: "u64 \<Rightarrow> u64 \<Rightarrow> u64 \<Rightarrow> (u64 \<times> u64) list" where
  "chunks chunk len off =
    (if chunk = 0 \<or> len \<le> off then []
     else let n = (if len - off > chunk then chunk else len - off)
          in (off, n) # chunks chunk len (off + n))"
  by pat_completeness auto

lemma chunk_step:
  fixes chunk len off :: u64
  assumes "chunk \<noteq> 0" "\<not> len \<le> off"
  defines "n \<equiv> (if len - off > chunk then chunk else len - off)"
  shows "unat (off + n) = unat off + unat n" "0 < unat n" "unat n \<le> unat chunk"
    "unat off + unat n \<le> unat len"
proof -
  have lt: "unat off < unat len" using assms(2) by (simp add: word_le_nat_alt)
  have d: "unat (len - off) = unat len - unat off"
    using assms(2) by (intro unat_sub) simp
  show le: "unat off + unat n \<le> unat len"
    using lt d unfolding n_def by (auto simp: word_less_nat_alt)
  then show "unat (off + n) = unat off + unat n"
    using unat_less [of len] by (intro unat_add_small) simp
  show "0 < unat n" "unat n \<le> unat chunk"
    using lt d assms(1) unfolding n_def by (auto simp: word_less_nat_alt unat_gt_0)
qed

termination chunks
proof (relation "measure (\<lambda>(chunk, len, off). unat len - unat off)", goal_cases)
  case (2 chunk len off n)
  then show ?case
    using chunk_step [of chunk len off] by simp
qed simp

declare chunks.simps [simp del]

text \<open>The lane a chunk of \<open>n\<close> bytes costs least, in proportion to what that lane carries.\<close>

definition to_double :: "u64 \<Rightarrow> real" where
  "to_double n = real (unat n)"

definition lane_cost :: "lane \<Rightarrow> real \<Rightarrow> real \<Rightarrow> real" where
  "lane_cost l assigned n = (assigned + n) / (if ln_weight l > 0 then ln_weight l else 1 / 10 ^ 9)"

fun pick_lane :: "(lane \<times> real) list \<Rightarrow> real \<Rightarrow> nat \<Rightarrow> (nat \<times> real) option \<Rightarrow> nat" where
  "pick_lane [] n k best = (case best of None \<Rightarrow> 0 | Some (lane, _) \<Rightarrow> lane)"
| "pick_lane ((l, assigned) # ls) n k best =
    (let cost = lane_cost l assigned n
     in pick_lane ls n (Suc k)
          (case best of
             None \<Rightarrow> Some (k, cost)
           | Some (b, c) \<Rightarrow> if cost < c then Some (k, cost) else best))"

record build =
  bs_out :: "subop list list"
  bs_assigned :: "real list"
  bs_sub_id :: u64
  bs_held :: "region_id list"
  bs_total :: u64

definition make_subop ::
  "subop_kind \<Rightarrow> request_id \<Rightarrow> memory_region \<Rightarrow> remote_region \<Rightarrow> span \<Rightarrow> span \<Rightarrow> string \<Rightarrow> u64 \<Rightarrow> u64 \<times> u64 \<Rightarrow>
   subop result" where
  "make_subop kind req lr rr lsp rsp lane_name sub_id = (\<lambda>(off, n).
    (case local_key_for (mr_reg lr) lane_name of
       None \<Rightarrow> Inl kUnsupported
     | Some lkey \<Rightarrow>
        (case remote_key_for rr lane_name of
           None \<Rightarrow> Inl kUnsupported
         | Some rkey \<Rightarrow> Inr \<lparr>so_signal_peer = False, so_peer_token = 0, so_kind = kind,
             so_request = req, so_sub_id = sub_id,
             so_local_addr = mr_base lr + sp_offset lsp + off, so_local_key = lkey,
             so_remote_addr = rd_base (rr_desc rr) + sp_offset rsp + off, so_remote_key = rkey,
             so_length = n\<rparr>)))"

fun build_chunks ::
  "'w engine_env \<Rightarrow> lane list \<Rightarrow> subop_kind \<Rightarrow> request_id \<Rightarrow> memory_region \<Rightarrow> remote_region \<Rightarrow> span \<Rightarrow> span \<Rightarrow>
   (u64 \<times> u64) list \<Rightarrow> build \<Rightarrow> build result" where
  "build_chunks env lanes kind req lr rr lsp rsp [] b = Inr b"
| "build_chunks env lanes kind req lr rr lsp rsp (c # cs) b =
    (let n = to_double (snd c);
         lane = pick_lane (zip lanes (bs_assigned b)) n 0 None;
         lane_name = pc_name (po_caps (the_prov env (ln_provider (lanes ! lane))))
     in case make_subop kind req lr rr lsp rsp lane_name (bs_sub_id b) c of
          Inl s \<Rightarrow> Inl s
        | Inr op \<Rightarrow> build_chunks env lanes kind req lr rr lsp rsp cs
            (b\<lparr>bs_out := (bs_out b)[lane := bs_out b ! lane @ [op]],
               bs_assigned := (bs_assigned b)[lane := bs_assigned b ! lane + n],
               bs_sub_id := bs_sub_id b + 1\<rparr>))"

definition build_segment ::
  "'w engine_env \<Rightarrow> 'w engine \<Rightarrow> peer_id \<Rightarrow> lane list \<Rightarrow> u64 \<Rightarrow> subop_kind \<Rightarrow> request_id \<Rightarrow>
   region_view \<Rightarrow> region_view \<Rightarrow> build \<Rightarrow> build result" where
  "build_segment env e peer lanes chunk kind req local remote b =
    (case find_region (rv_region local) e of
       None \<Rightarrow> Inl kNotFound
     | Some lr \<Rightarrow>
        if mr_retired lr then Inl kStaleGeneration
        else case find_remote peer (rv_region remote) e of
          None \<Rightarrow> Inl kNotFound
        | Some rr \<Rightarrow>
           if \<not> rr_valid rr then Inl kStaleGeneration
           else if \<not> has_flag (rd_access (rr_desc rr))
                     (if kind = kWrite then kRemoteWrite else kRemoteRead) then Inl kInvalidArgument
           else if sp_length (rv_span local) \<noteq> sp_length (rv_span remote) then Inl kInvalidArgument
           else if \<not> span_within (rv_span local) (mr_length lr) then Inl kOutOfRange
           else if \<not> span_within (rv_span remote) (rd_length (rr_desc rr)) then Inl kOutOfRange
           else build_chunks env lanes kind req lr rr (rv_span local) (rv_span remote)
                  (chunks chunk (sp_length (rv_span local)) 0)
                  (b\<lparr>bs_held := bs_held b @ [rv_region local],
                     bs_total := bs_total b + sp_length (rv_span local)\<rparr>))"

fun build_segments ::
  "'w engine_env \<Rightarrow> 'w engine \<Rightarrow> peer_id \<Rightarrow> lane list \<Rightarrow> u64 \<Rightarrow> subop_kind \<Rightarrow> request_id \<Rightarrow>
   (region_view \<times> region_view) list \<Rightarrow> build \<Rightarrow> build result" where
  "build_segments env e peer lanes chunk kind req [] b = Inr b"
| "build_segments env e peer lanes chunk kind req ((l, r) # segs) b =
    (case build_segment env e peer lanes chunk kind req l r b of
       Inl s \<Rightarrow> Inl s
     | Inr b' \<Rightarrow> build_segments env e peer lanes chunk kind req segs b')"

text \<open>The result: sub-operations per lane, the regions held, and the target of the first segment.\<close>

definition empty_build :: "nat \<Rightarrow> build" where
  "empty_build n = \<lparr>bs_out = replicate n [], bs_assigned = replicate n 0, bs_sub_id = 0, bs_held = [],
     bs_total = 0\<rparr>"

definition build_subops ::
  "'w engine_env \<Rightarrow> 'w engine \<Rightarrow> peer_id \<Rightarrow> region_view list \<Rightarrow> region_view list \<Rightarrow> subop_kind \<Rightarrow>
   request_id \<Rightarrow> lane list \<Rightarrow> (subop list list \<times> region_id list \<times> addr \<times> u64) result" where
  "build_subops env e peer local remote kind req lanes =
    (if lanes = [] then Inl kNotFound
     else case build_segments env e peer lanes (chunk_limit env lanes) kind req (zip local remote)
                 (empty_build (length lanes)) of
       Inl s \<Rightarrow> Inl s
     | Inr b \<Rightarrow>
        let target = (case local of
              [] \<Rightarrow> 0
            | l # _ \<Rightarrow> (case find_region (rv_region l) e of
                 None \<Rightarrow> 0 | Some lr \<Rightarrow> mr_base lr + sp_offset (rv_span l)))
        in Inr (bs_out b, bs_held b, target, bs_total b))"

section \<open>What the chunks are\<close>

lemma chunks_each:
  "c \<in> set (chunks chunk len off) \<Longrightarrow>
   0 < unat (snd c) \<and> unat (snd c) \<le> unat chunk \<and> unat off \<le> unat (fst c) \<and>
   unat (fst c) + unat (snd c) \<le> unat len"
proof (induction chunk len off rule: chunks.induct)
  case (1 chunk len off)
  show ?case
  proof (cases "chunk = 0 \<or> len \<le> off")
    case True
    with 1(2) show ?thesis by (subst (asm) chunks.simps) simp
  next
    case False
    let ?n = "if len - off > chunk then chunk else len - off"
    have eq: "chunks chunk len off = (off, ?n) # chunks chunk len (off + ?n)"
      using False by (subst chunks.simps) (simp add: Let_def)
    note st = chunk_step [of chunk len off]
    from 1(2) consider "c = (off, ?n)" | "c \<in> set (chunks chunk len (off + ?n))"
      unfolding eq by auto
    then show ?thesis
    proof cases
      case 1
      then show ?thesis using st False by simp
    next
      case 2
      with "1.IH" [of ?n] False st show ?thesis by simp
    qed
  qed
qed

lemma chunks_cover:
  "chunk \<noteq> 0 \<Longrightarrow>
   (\<Union>c\<in>set (chunks chunk len off). {unat (fst c) ..< unat (fst c) + unat (snd c)}) = {unat off ..< unat len} \<and>
   sum_list (map (\<lambda>c. unat (snd c)) (chunks chunk len off)) = unat len - unat off"
proof (induction chunk len off rule: chunks.induct)
  case (1 chunk len off)
  show ?case
  proof (cases "len \<le> off")
    case True
    then show ?thesis by (subst (1 2) chunks.simps) (simp add: word_le_nat_alt)
  next
    case False
    let ?n = "if len - off > chunk then chunk else len - off"
    have eq: "chunks chunk len off = (off, ?n) # chunks chunk len (off + ?n)"
      using False 1(2) by (subst chunks.simps) (simp add: Let_def)
    note st = chunk_step [of chunk len off]
    have IH: "(\<Union>c\<in>set (chunks chunk len (off + ?n)). {unat (fst c) ..< unat (fst c) + unat (snd c)})
        = {unat off + unat ?n ..< unat len}"
      "sum_list (map (\<lambda>c. unat (snd c)) (chunks chunk len (off + ?n))) = unat len - (unat off + unat ?n)"
      using "1.IH" [of ?n] False 1(2) st by simp_all
    show ?thesis unfolding eq using IH st(4) 1(2) False by auto
  qed
qed

section \<open>What is built from them\<close>

lemma pick_lane_some:
  "b < k \<Longrightarrow> pick_lane ls n k (Some (b, c)) < k + length ls"
proof (induction ls arbitrary: k b c)
  case (Cons x ls)
  obtain l assigned where x: "x = (l, assigned)" by (cases x)
  show ?case
    using Cons.IH [of k "Suc k" "lane_cost l assigned n"] Cons.IH [of b "Suc k" c] Cons.prems
    by (simp add: x Let_def)
qed simp

lemma pick_lane_bound: "ls \<noteq> [] \<Longrightarrow> pick_lane ls n 0 None < length ls"
proof (cases ls)
  case (Cons x xs)
  then show ?thesis
    using pick_lane_some [of 0 1 xs n] by (cases x) (simp add: Let_def)
qed simp

text \<open>What of a sub-operation does not depend on the lane that carries it.\<close>

definition shape :: "subop \<Rightarrow> u64 \<times> addr \<times> addr \<times> u64" where
  "shape op = (so_sub_id op, so_local_addr op, so_remote_addr op, so_length op)"

primrec chunk_shapes :: "addr \<Rightarrow> addr \<Rightarrow> u64 \<Rightarrow> (u64 \<times> u64) list \<Rightarrow> (u64 \<times> addr \<times> addr \<times> u64) list" where
  "chunk_shapes la ra sub [] = []"
| "chunk_shapes la ra sub (c # cs) =
     (sub, la + fst c, ra + fst c, snd c) # chunk_shapes la ra (sub + 1) cs"

text \<open>A region whose end does not pass the top of the address space.\<close>

definition range_fits :: "addr \<Rightarrow> u64 \<Rightarrow> bool" where
  "range_fits base len \<longleftrightarrow> unat base + unat len \<le> 2 ^ 64"

definition in_range :: "addr \<Rightarrow> u64 \<Rightarrow> addr \<Rightarrow> u64 \<Rightarrow> bool" where
  "in_range a n base len \<longleftrightarrow> unat base \<le> unat a \<and> unat a + unat n \<le> unat base + unat len"

lemma unat_offset:
  assumes "range_fits base len" "span_within sp len" "unat o1 + unat n \<le> unat (sp_length sp)" "0 < unat n"
  shows "unat (base + sp_offset sp + o1) = unat base + unat (sp_offset sp) + unat o1"
    "in_range (base + sp_offset sp + o1) n base len"
proof -
  have le: "unat base + unat (sp_offset sp) + unat o1 < 2 ^ 64"
    using assms by (simp add: range_fits_def span_within_iff)
  then have "unat (base + sp_offset sp) = unat base + unat (sp_offset sp)"
    by (intro unat_add_small) simp
  with le show eq: "unat (base + sp_offset sp + o1) = unat base + unat (sp_offset sp) + unat o1"
    using unat_add_small [of "base + sp_offset sp" o1] by simp
  show "in_range (base + sp_offset sp + o1) n base len"
    using assms(2,3) unfolding in_range_def eq by (simp add: span_within_iff)
qed

text \<open>
  A sub-operation on lane \<open>k\<close>: it belongs to the request, carries that lane's keys for the two
  regions, and lies inside both.
\<close>

definition lane_op_ok :: "'w engine_env \<Rightarrow> 'w engine \<Rightarrow> peer_id \<Rightarrow> lane list \<Rightarrow> subop_kind \<Rightarrow> request_id \<Rightarrow> nat \<Rightarrow> subop \<Rightarrow> bool" where
  "lane_op_ok env e peer lanes kind req k op \<longleftrightarrow> so_kind op = kind \<and> so_request op = req \<and>
     (\<exists>li lr ri rr. find_region li e = Some lr \<and> find_remote peer ri e = Some rr \<and>
        in_range (so_local_addr op) (so_length op) (mr_base lr) (mr_length lr) \<and>
        in_range (so_remote_addr op) (so_length op) (rd_base (rr_desc rr)) (rd_length (rr_desc rr)) \<and>
        local_key_for (mr_reg lr) (pc_name (po_caps (the_prov env (ln_provider (lanes ! k))))) = Some (so_local_key op) \<and>
        remote_key_for rr (pc_name (po_caps (the_prov env (ln_provider (lanes ! k))))) = Some (so_remote_key op))"

definition build_wf :: "'w engine_env \<Rightarrow> 'w engine \<Rightarrow> peer_id \<Rightarrow> lane list \<Rightarrow> subop_kind \<Rightarrow> request_id \<Rightarrow> build \<Rightarrow> bool" where
  "build_wf env e peer lanes kind req b \<longleftrightarrow> length (bs_out b) = length lanes \<and>
     length (bs_assigned b) = length lanes \<and>
     (\<forall>k<length lanes. \<forall>op\<in>set (bs_out b ! k). lane_op_ok env e peer lanes kind req k op)"

definition shapes :: "build \<Rightarrow> (u64 \<times> addr \<times> addr \<times> u64) multiset" where
  "shapes b = mset (map shape (concat (bs_out b)))"

lemma shapes_update:
  "k < length (bs_out b) \<Longrightarrow>
   shapes (b\<lparr>bs_out := (bs_out b)[k := bs_out b ! k @ [op]]\<rparr>) = add_mset (shape op) (shapes b)"
  using mset_concat_update [of k "bs_out b" "map shape" "bs_out b ! k @ [op]"]
  by (simp add: shapes_def map_concat del: mset_concat)

lemma shapes_more [simp]: "shapes (b\<lparr>bs_assigned := a\<rparr>) = shapes b" "shapes (b\<lparr>bs_sub_id := i\<rparr>) = shapes b"
  "shapes (b\<lparr>bs_held := h\<rparr>) = shapes b" "shapes (b\<lparr>bs_total := t\<rparr>) = shapes b"
  by (simp_all add: shapes_def)

definition seg_regions :: "'w engine \<Rightarrow> peer_id \<Rightarrow> memory_region \<Rightarrow> remote_region \<Rightarrow> span \<Rightarrow> span \<Rightarrow> bool" where
  "seg_regions e peer lr rr lsp rsp \<longleftrightarrow>
     (\<exists>li. find_region li e = Some lr) \<and> (\<exists>ri. find_remote peer ri e = Some rr) \<and>
     range_fits (mr_base lr) (mr_length lr) \<and> range_fits (rd_base (rr_desc rr)) (rd_length (rr_desc rr)) \<and>
     span_within lsp (mr_length lr) \<and> span_within rsp (rd_length (rr_desc rr)) \<and> sp_length lsp = sp_length rsp"

definition chunks_in :: "(u64 \<times> u64) list \<Rightarrow> u64 \<Rightarrow> bool" where
  "chunks_in cs len \<longleftrightarrow> (\<forall>c\<in>set cs. 0 < unat (snd c) \<and> unat (fst c) + unat (snd c) \<le> unat len)"

lemma make_subop_ok:
  assumes "make_subop kind req lr rr lsp rsp
      (pc_name (po_caps (the_prov env (ln_provider (lanes ! k))))) sub c = Inr op"
    "seg_regions e peer lr rr lsp rsp" "0 < unat (snd c)" "unat (fst c) + unat (snd c) \<le> unat (sp_length lsp)"
  shows "shape op = (sub, mr_base lr + sp_offset lsp + fst c, rd_base (rr_desc rr) + sp_offset rsp + fst c, snd c)"
    "lane_op_ok env e peer lanes kind req k op"
proof -
  show "shape op = (sub, mr_base lr + sp_offset lsp + fst c, rd_base (rr_desc rr) + sp_offset rsp + fst c, snd c)"
    using assms(1) by (auto simp: make_subop_def shape_def split: option.splits prod.splits)
  obtain li ri where "find_region li e = Some lr" "find_remote peer ri e = Some rr"
    using assms(2) by (auto simp: seg_regions_def)
  moreover have "in_range (mr_base lr + sp_offset lsp + fst c) (snd c) (mr_base lr) (mr_length lr)"
    "in_range (rd_base (rr_desc rr) + sp_offset rsp + fst c) (snd c) (rd_base (rr_desc rr)) (rd_length (rr_desc rr))"
    using assms(2-4) by (auto simp: seg_regions_def intro!: unat_offset(2))
  ultimately show "lane_op_ok env e peer lanes kind req k op"
    using assms(1) unfolding make_subop_def lane_op_ok_def
    by (auto split: option.splits prod.splits) blast
qed

lemma build_chunks_spec:
  assumes "lanes \<noteq> []" "seg_regions e peer lr rr lsp rsp"
  shows "build_chunks env lanes kind req lr rr lsp rsp cs b = Inr b' \<Longrightarrow> build_wf env e peer lanes kind req b \<Longrightarrow>
   chunks_in cs (sp_length lsp) \<Longrightarrow>
   build_wf env e peer lanes kind req b' \<and> bs_held b' = bs_held b \<and> bs_total b' = bs_total b \<and>
   bs_sub_id b' = bs_sub_id b + word_of_nat (length cs) \<and>
   shapes b' = shapes b + mset (chunk_shapes (mr_base lr + sp_offset lsp) (rd_base (rr_desc rr) + sp_offset rsp)
     (bs_sub_id b) cs)"
proof (induction cs arbitrary: b)
  case (Cons c cs)
  let ?n = "to_double (snd c)"
  let ?k = "pick_lane (zip lanes (bs_assigned b)) ?n 0 None"
  let ?name = "pc_name (po_caps (the_prov env (ln_provider (lanes ! ?k))))"
  have k: "?k < length lanes"
  proof -
    have "length (zip lanes (bs_assigned b)) = length lanes"
      using Cons.prems(2) by (simp add: build_wf_def)
    moreover from this have "zip lanes (bs_assigned b) \<noteq> []"
      using assms(1) by (metis length_0_conv)
    ultimately show ?thesis using pick_lane_bound by metis
  qed
  obtain op where op: "make_subop kind req lr rr lsp rsp ?name (bs_sub_id b) c = Inr op"
    using Cons.prems(1) by (auto simp: Let_def split: sum.splits)
  let ?b = "b\<lparr>bs_out := (bs_out b)[?k := bs_out b ! ?k @ [op]],
     bs_assigned := (bs_assigned b)[?k := bs_assigned b ! ?k + ?n], bs_sub_id := bs_sub_id b + 1\<rparr>"
  have run: "build_chunks env lanes kind req lr rr lsp rsp cs ?b = Inr b'"
    using Cons.prems(1) op by (simp add: Let_def)
  have c: "0 < unat (snd c)" "unat (fst c) + unat (snd c) \<le> unat (sp_length lsp)" "chunks_in cs (sp_length lsp)"
    using Cons.prems(3) by (simp_all add: chunks_in_def)
  note mk = make_subop_ok [OF op assms(2) c(1,2)]
  have wf: "build_wf env e peer lanes kind req ?b"
    using Cons.prems(2) k mk(2) by (auto simp: build_wf_def nth_list_update)
  have "shapes ?b = add_mset (shape op) (shapes b)"
    using shapes_update [of ?k b op] k Cons.prems(2) by (simp add: build_wf_def)
  with Cons.IH [OF run wf c(3)] mk(1) show ?case by simp
qed simp

section \<open>Covering\<close>

text \<open>The pairs of local and remote byte addresses a sub-operation moves.\<close>

definition pairs_from :: "nat \<Rightarrow> nat \<Rightarrow> nat set \<Rightarrow> (nat \<times> nat) set" where
  "pairs_from la ra js = (\<lambda>j. (la + j, ra + j)) ` js"

fun shape_pairs :: "u64 \<times> addr \<times> addr \<times> u64 \<Rightarrow> (nat \<times> nat) set" where
  "shape_pairs (sub, la, ra, n) = pairs_from (unat la) (unat ra) {0 ..< unat n}"

fun shape_len :: "u64 \<times> addr \<times> addr \<times> u64 \<Rightarrow> nat" where
  "shape_len (sub, la, ra, n) = unat n"

lemma pairs_from_shift: "pairs_from (a + o1) (b + o1) {0 ..< n} = pairs_from a b {o1 ..< o1 + n}"
proof -
  have "{o1 ..< o1 + n} = (+) o1 ` {0 ..< n}" by (simp add: image_add_atLeastLessThan add.commute)
  then show ?thesis unfolding pairs_from_def by (simp only: image_image add.assoc)
qed

lemma chunk_shapes_pairs:
  assumes "seg_regions e peer lr rr lsp rsp"
  shows "chunks_in cs (sp_length lsp) \<Longrightarrow>
   (\<Union>x\<in>set (chunk_shapes (mr_base lr + sp_offset lsp) (rd_base (rr_desc rr) + sp_offset rsp) sub cs). shape_pairs x) =
   pairs_from (unat (mr_base lr) + unat (sp_offset lsp)) (unat (rd_base (rr_desc rr)) + unat (sp_offset rsp))
     (\<Union>c\<in>set cs. {unat (fst c) ..< unat (fst c) + unat (snd c)})"
proof (induction cs arbitrary: sub)
  case (Cons c cs)
  have c: "0 < unat (snd c)" "unat (fst c) + unat (snd c) \<le> unat (sp_length lsp)" "chunks_in cs (sp_length lsp)"
    using Cons.prems by (simp_all add: chunks_in_def)
  have "unat (mr_base lr + sp_offset lsp + fst c) = unat (mr_base lr) + unat (sp_offset lsp) + unat (fst c)"
    "unat (rd_base (rr_desc rr) + sp_offset rsp + fst c) =
       unat (rd_base (rr_desc rr)) + unat (sp_offset rsp) + unat (fst c)"
    using assms c by (auto simp: seg_regions_def intro!: unat_offset(1))
  then show ?case
    using Cons.IH [OF c(3)]
    by (simp only: chunk_shapes.simps list.simps UN_insert shape_pairs.simps pairs_from_shift)
      (simp add: pairs_from_def image_Un)
qed (simp add: pairs_from_def)

lemma chunk_shapes_len: "map shape_len (chunk_shapes la ra sub cs) = map (\<lambda>c. unat (snd c)) cs"
  by (induction cs arbitrary: sub) simp_all

lemma chunk_shapes_ids: "map fst (chunk_shapes la ra (word_of_nat m) cs) = map word_of_nat [m ..< m + length cs]"
proof (induction cs arbitrary: m)
  case (Cons c cs)
  have "map fst (chunk_shapes la ra (word_of_nat m + 1) cs) = map word_of_nat [Suc m ..< Suc m + length cs]"
    using Cons.IH [of "Suc m"] by (simp add: add.commute)
  then show ?case by (simp add: upt_rec)
qed simp

lemma chunk_shapes_size:
  "x \<in> set (chunk_shapes la ra sub cs) \<Longrightarrow> \<exists>c\<in>set cs. shape_len x = unat (snd c)"
  by (induction cs arbitrary: sub) auto

definition seg_pairs :: "'w engine \<Rightarrow> peer_id \<Rightarrow> region_view \<times> region_view \<Rightarrow> (nat \<times> nat) set" where
  "seg_pairs e peer = (\<lambda>(l, r).
     (case (find_region (rv_region l) e, find_remote peer (rv_region r) e) of
        (Some lr, Some rr) \<Rightarrow>
          pairs_from (unat (mr_base lr) + unat (sp_offset (rv_span l)))
            (unat (rd_base (rr_desc rr)) + unat (sp_offset (rv_span r))) {0 ..< unat (sp_length (rv_span l))}
      | _ \<Rightarrow> {}))"

definition regions_fit :: "'w engine \<Rightarrow> peer_id \<Rightarrow> bool" where
  "regions_fit e peer \<longleftrightarrow>
     (\<forall>i m. find_region i e = Some m \<longrightarrow> range_fits (mr_base m) (mr_length m)) \<and>
     (\<forall>i r. find_remote peer i e = Some r \<longrightarrow> range_fits (rd_base (rr_desc r)) (rd_length (rr_desc r)))"

text \<open>What holds of a build after any number of segments.\<close>

definition build_inv ::
  "'w engine_env \<Rightarrow> 'w engine \<Rightarrow> peer_id \<Rightarrow> lane list \<Rightarrow> u64 \<Rightarrow> subop_kind \<Rightarrow> request_id \<Rightarrow>
   (region_view \<times> region_view) list \<Rightarrow> build \<Rightarrow> bool" where
  "build_inv env e peer lanes chunk kind req segs b \<longleftrightarrow> build_wf env e peer lanes kind req b \<and>
     bs_sub_id b = word_of_nat (size (shapes b)) \<and>
     image_mset fst (shapes b) = mset (map word_of_nat [0 ..< size (shapes b)]) \<and>
     (\<forall>x\<in>#shapes b. 0 < shape_len x \<and> shape_len x \<le> unat chunk) \<and>
     (\<Union>x\<in>set_mset (shapes b). shape_pairs x) = (\<Union>s\<in>set segs. seg_pairs e peer s) \<and>
     sum_mset (image_mset shape_len (shapes b)) = (\<Sum>s\<leftarrow>segs. unat (sp_length (rv_span (fst s)))) \<and>
     bs_held b = map (\<lambda>s. rv_region (fst s)) segs \<and>
     bs_total b = (\<Sum>s\<leftarrow>segs. sp_length (rv_span (fst s)))"

lemma build_inv_empty: "build_inv env e peer lanes chunk kind req [] (empty_build (length lanes))"
  by (simp add: build_inv_def empty_build_def build_wf_def shapes_def)

lemma build_segment_cases:
  assumes "build_segment env e peer lanes chunk kind req l r b = Inr b'" "regions_fit e peer"
  obtains lr rr where "find_region (rv_region l) e = Some lr" "find_remote peer (rv_region r) e = Some rr"
    "\<not> mr_retired lr" "rr_valid rr"
    "has_flag (rd_access (rr_desc rr)) (if kind = kWrite then kRemoteWrite else kRemoteRead)"
    "seg_regions e peer lr rr (rv_span l) (rv_span r)"
    "build_chunks env lanes kind req lr rr (rv_span l) (rv_span r) (chunks chunk (sp_length (rv_span l)) 0)
       (b\<lparr>bs_held := bs_held b @ [rv_region l], bs_total := bs_total b + sp_length (rv_span l)\<rparr>) = Inr b'"
  using assms unfolding build_segment_def regions_fit_def seg_regions_def
  by (auto split: option.splits if_splits)

lemma chunks_in_chunks: "chunks_in (chunks chunk len 0) len"
  using chunks_each [of _ chunk len 0] by (auto simp: chunks_in_def)

lemma build_segment_inv:
  assumes lanes: "lanes \<noteq> []" and chunk: "chunk \<noteq> 0" and fit: "regions_fit e peer"
    and run: "build_segment env e peer lanes chunk kind req l r b = Inr b'"
    and inv: "build_inv env e peer lanes chunk kind req segs b"
  shows "build_inv env e peer lanes chunk kind req (segs @ [(l, r)]) b'"
  using run fit
proof (cases rule: build_segment_cases)
  case (1 lr rr)
  let ?cs = "chunks chunk (sp_length (rv_span l)) 0"
  let ?b = "b\<lparr>bs_held := bs_held b @ [rv_region l], bs_total := bs_total b + sp_length (rv_span l)\<rparr>"
  let ?sh = "chunk_shapes (mr_base lr + sp_offset (rv_span l)) (rd_base (rr_desc rr) + sp_offset (rv_span r))
     (bs_sub_id b) ?cs"
  have wf: "build_wf env e peer lanes kind req ?b"
    using inv by (simp add: build_inv_def build_wf_def)
  note spec = build_chunks_spec [OF lanes 1(6) 1(7) wf chunks_in_chunks, simplified]
  then have sh: "shapes b' = shapes b + mset ?sh" by simp
  have sz: "size (shapes b') = size (shapes b) + length ?cs"
    using arg_cong [OF chunk_shapes_len, of length, of _ _ _ ?cs] by (simp add: sh)
  have ids: "map fst ?sh = map word_of_nat [size (shapes b) ..< size (shapes b) + length ?cs]"
    using inv chunk_shapes_ids by (simp only: build_inv_def)
  have cov: "(\<Union>x\<in>set ?sh. shape_pairs x) = seg_pairs e peer (l, r)"
    using chunk_shapes_pairs [OF 1(6) chunks_in_chunks, of "bs_sub_id b" chunk] chunks_cover [OF chunk, of "sp_length (rv_span l)" 0]
    by (simp add: seg_pairs_def 1(1,2))
  have each: "0 < shape_len x \<and> shape_len x \<le> unat chunk" if "x \<in> set ?sh" for x
    using chunk_shapes_size [OF that] chunks_each [of _ chunk "sp_length (rv_span l)" 0] by auto
  have len: "sum_mset (image_mset shape_len (mset ?sh)) = unat (sp_length (rv_span l))"
    using chunks_cover [OF chunk, of "sp_length (rv_span l)" 0]
    by (simp add: chunk_shapes_len sum_mset_sum_list flip: mset_map)
  have "[0 ..< size (shapes b')] = [0 ..< size (shapes b)] @ [size (shapes b) ..< size (shapes b) + length ?cs]"
    unfolding sz by (rule upt_add_eq_append) simp
  then have "image_mset fst (shapes b') = mset (map word_of_nat [0 ..< size (shapes b')])"
    using inv ids unfolding build_inv_def sh by (simp flip: mset_map)
  then show ?thesis
    using inv spec sz cov each len unfolding build_inv_def sh by (auto simp: 1)
qed

lemma build_segments_inv:
  assumes "lanes \<noteq> []" "chunk \<noteq> 0" "regions_fit e peer"
  shows "build_segments env e peer lanes chunk kind req segs b = Inr b' \<Longrightarrow>
    build_inv env e peer lanes chunk kind req done b \<Longrightarrow>
    build_inv env e peer lanes chunk kind req (done @ segs) b'"
proof (induction segs arbitrary: b "done")
  case (Cons seg segs)
  obtain l r where seg: "seg = (l, r)" by (cases seg)
  obtain b1 where b1: "build_segment env e peer lanes chunk kind req l r b = Inr b1"
    and run: "build_segments env e peer lanes chunk kind req segs b1 = Inr b'"
    using Cons.prems(1) seg by (auto split: sum.splits)
  from Cons.IH [OF run build_segment_inv [OF assms b1 Cons.prems(2)]] seg show ?case by simp
qed simp

lemma chunk_fold_le:
  fixes f :: "lane \<Rightarrow> u64"
  defines "step \<equiv> (\<lambda>l chunk. let most = f l in if 0 < most \<and> most < chunk then most else chunk)"
  shows "c \<noteq> 0 \<Longrightarrow> fold step lanes c \<noteq> 0 \<and> fold step lanes c \<le> c \<and>
    (\<forall>l\<in>set lanes. f l = 0 \<or> fold step lanes c \<le> f l)"
proof (induction lanes arbitrary: c)
  case (Cons l lanes)
  have "step l c \<noteq> 0" "step l c \<le> c" "f l = 0 \<or> step l c \<le> f l"
    using Cons.prems by (auto simp: step_def Let_def word_gt_0 not_less)
  with Cons.IH [of "step l c"] show ?case by (auto intro: order_trans)
qed simp

lemma chunk_limit_props:
  assumes "chunk_bytes (env_cfg env) \<noteq> 0"
  shows "chunk_limit env lanes \<noteq> 0" "chunk_limit env lanes \<le> chunk_bytes (env_cfg env)"
    "l \<in> set lanes \<Longrightarrow> max_segment_bytes (po_caps (the_prov env (ln_provider l))) = 0 \<or>
       chunk_limit env lanes \<le> max_segment_bytes (po_caps (the_prov env (ln_provider l)))"
  using chunk_fold_le [of _ "\<lambda>l. max_segment_bytes (po_caps (the_prov env (ln_provider l)))" lanes] assms
  unfolding chunk_limit_def by (simp_all only: Let_def) blast+

lemma build_subops_inv:
  assumes "build_subops env e peer local remote kind req lanes = Inr (out, held, target, tot)"
    "chunk_bytes (env_cfg env) \<noteq> 0" "regions_fit e peer"
  obtains b where "build_inv env e peer lanes (chunk_limit env lanes) kind req (zip local remote) b"
    "bs_out b = out" "bs_held b = held" "bs_total b = tot" "lanes \<noteq> []"
proof -
  obtain b where lanes: "lanes \<noteq> []"
    and run: "build_segments env e peer lanes (chunk_limit env lanes) kind req (zip local remote)
      (empty_build (length lanes)) = Inr b" and out: "bs_out b = out" "bs_held b = held" "bs_total b = tot"
    using assms(1) by (auto simp: build_subops_def Let_def split: if_splits sum.splits)
  from build_segments_inv [OF lanes chunk_limit_props(1) [OF assms(2)] assms(3) run build_inv_empty]
  show thesis using that out lanes by simp
qed

section \<open>Properties\<close>

definition op_pairs :: "subop \<Rightarrow> (nat \<times> nat) set" where
  "op_pairs op = pairs_from (unat (so_local_addr op)) (unat (so_remote_addr op)) {0 ..< unat (so_length op)}"

lemma op_pairs_shape: "op_pairs op = shape_pairs (shape op)"
  by (simp add: op_pairs_def shape_def)

text \<open>
  (C11) The sub-operations of a transfer move exactly its bytes: the pairs of local and remote addresses
  they copy between are those of the paired segments, no byte left out and none added, and
  their lengths add up to the segments' lengths, so none is moved twice within a segment. They
  are numbered 0, 1, 2 and so on, each number once.
\<close>

theorem build_subops_exact_cover:
  assumes "build_subops env e peer local remote kind req lanes = Inr (out, held, target, tot)"
    "chunk_bytes (env_cfg env) \<noteq> 0" "regions_fit e peer"
  shows "(\<Union>op\<in>set (concat out). op_pairs op) = (\<Union>s\<in>set (zip local remote). seg_pairs e peer s) \<and>
    (\<Sum>op\<leftarrow>concat out. unat (so_length op)) = (\<Sum>s\<leftarrow>zip local remote. unat (sp_length (rv_span (fst s)))) \<and>
    mset (map so_sub_id (concat out)) = mset (map word_of_nat [0 ..< length (concat out)])"
  using assms
proof (rule build_subops_inv)
  fix b
  assume inv: "build_inv env e peer lanes (chunk_limit env lanes) kind req (zip local remote) b"
    and out: "bs_out b = out"
  have sh: "shapes b = mset (map shape (concat out))" by (simp add: shapes_def out)
  have "shape_len (shape op) = unat (so_length op)" "fst (shape op) = so_sub_id op" for op
    by (simp_all add: shape_def)
  then have eq: "image_mset shape_len (shapes b) = mset (map (\<lambda>op. unat (so_length op)) (concat out))"
    "image_mset fst (shapes b) = mset (map so_sub_id (concat out))"
    unfolding sh by (simp_all flip: mset_map add: o_def)
  have "(\<Union>x\<in>set_mset (shapes b). shape_pairs x) = (\<Union>op\<in>set (concat out). op_pairs op)"
    unfolding sh by (simp add: op_pairs_shape)
  moreover have "size (shapes b) = length (concat out)" unfolding sh by simp
  ultimately show ?thesis
    using inv eq unfolding build_inv_def by (simp add: sum_mset_sum_list flip: mset_map)
qed

text \<open>A small engine with one local transport, one region and one imported region, for examples.\<close>

definition sample_env :: "local_world engine_env" where
  "sample_env = \<lparr>env_cfg = default_config\<lparr>chunk_bytes := 48, scheduler_quantum_bytes := 64\<rparr>,
     env_device = None,
     env_events = \<lparr>ev_recorded = (\<lambda>_ _. False), ev_query = (\<lambda>_ _. Inr False)\<rparr>,
     env_providers = [local_ops 0], env_identity = zero_identity\<rparr>"

definition sample_remote :: remote_region where
  "sample_remote = new_remote_region (region_descriptor_of (sample_region\<lparr>mr_base := 0x1000,
     mr_reg := sample_registration\<lparr>rg_keys := [\<lparr>rk_provider = ''local'', rk_local_key = 1, rk_remote_key = 1\<rparr>]\<rparr>\<rparr>))"

definition sample_engine :: "local_world engine" where
  "sample_engine = (new_engine sample_world)\<lparr>e_region_objs := [1 \<mapsto> sample_region], e_regions := [1],
     e_remotes := [((1, 1), sample_remote)]\<rparr>"

definition sample_lanes :: "lane list" where
  "sample_lanes = [\<lparr>ln_provider = 0, ln_conn = 0, ln_weight = 1\<rparr>]"

definition sample_view :: region_view where
  "sample_view = \<lparr>rv_region = 1, rv_span = \<lparr>sp_offset = 16, sp_length = 100\<rparr>\<rparr>"

lemma sample_fit: "regions_fit sample_engine 1" "chunk_bytes (env_cfg sample_env) \<noteq> 0"
  by (auto simp: regions_fit_def sample_engine_def new_engine_def find_region_def find_remote_def
      sample_region_def sample_remote_def new_remote_region_def region_descriptor_of_def range_fits_def
      sample_env_def split: if_splits)

lemma sample_prov_name: "pc_name (po_caps (env_providers sample_env ! 0)) = ''local''"
  by (simp add: sample_env_def local_ops_def local_caps_def)

lemma sample_build:
  "\<exists>out held target tot. build_subops sample_env sample_engine 1 [sample_view] [sample_view] kRead 5 sample_lanes
     = Inr (out, held, target, tot)"
proof -
  have "chunk_limit sample_env sample_lanes = 48"
    by (simp add: chunk_limit_def sample_env_def sample_lanes_def local_ops_def local_caps_def)
  moreover have "chunks 48 100 0 = [(0, 48), (48, 48), (96, 4)]"
    by (simp add: chunks.simps)
  ultimately show ?thesis
    by (simp add: build_subops_def build_segment_def sample_lanes_def sample_view_def sample_engine_def
        new_engine_def find_region_def find_remote_def sample_region_def sample_remote_def
        new_remote_region_def region_descriptor_of_def has_flag_def access_consts span_within_def
        make_subop_def local_key_for_def remote_key_for_def sample_registration_def sample_prov_name
        empty_build_def Let_def)
qed

theorem build_subops_exact_cover_witness:
  "\<exists>out held target tot.
     build_subops sample_env sample_engine 1 [sample_view] [sample_view] kRead 5 sample_lanes
       = Inr (out, held, target, tot) \<and>
     (\<Sum>op\<leftarrow>concat out. unat (so_length op)) = 100"
proof -
  obtain out held target tot where
    run: "build_subops sample_env sample_engine 1 [sample_view] [sample_view] kRead 5 sample_lanes
      = Inr (out, held, target, tot)" using sample_build by blast
  from build_subops_exact_cover [OF run sample_fit(2,1)] run show ?thesis
    by (auto simp: sample_view_def)
qed



end
