(* ===== verification/Hux_Engine.thy ===== *)
theory Hux_Engine
  imports Hux_Subops
begin

text \<open>
  The transfer path of core/engine_impl.cpp: admission, posting, the scheduling pass, the end
  of a request on every path, notifications, control messages, completions, departed peers
  and closing. A method that returns through an out-parameter returns \<open>Inl\<close> of its status when
  it sets nothing.
\<close>

definition call :: "('w \<Rightarrow> 'a \<times> 'w) \<Rightarrow> 'w engine \<Rightarrow> 'a \<times> 'w engine" where
  "call f e = (case f (e_world e) of (x, w) \<Rightarrow> (x, e\<lparr>e_world := w\<rparr>))"

section \<open>Ending a request\<close>

text \<open>\<open>claim\<close>: a request is ended by whoever takes it out of \<open>inflight_\<close>.\<close>

definition claim :: "request_id \<Rightarrow> 'w engine \<Rightarrow> bool \<times> 'w engine" where
  "claim i e = (i \<in> set (e_inflight e), e\<lparr>e_inflight := removeAll i (e_inflight e)\<rparr>)"

definition count_cancelled :: "'w engine \<Rightarrow> 'w engine" where
  "count_cancelled = upd_stats (\<lambda>s. s\<lparr>requests_cancelled := requests_cancelled s + 1\<rparr>)"

definition count_failed :: "'w engine \<Rightarrow> 'w engine" where
  "count_failed = upd_stats (\<lambda>s. s\<lparr>requests_failed := requests_failed s + 1\<rparr>)"

definition count_succeeded :: "'w engine \<Rightarrow> 'w engine" where
  "count_succeeded = upd_stats (\<lambda>s. s\<lparr>requests_succeeded := requests_succeeded s + 1\<rparr>)"

definition end_abandoned :: "'w engine_env \<Rightarrow> request_id \<Rightarrow> 'w engine \<Rightarrow> 'w engine" where
  "end_abandoned env i e =
    (case claim i e of (mine, e1) \<Rightarrow>
     if \<not> mine then e1
     else case e_reqs e1 i of
       None \<Rightarrow> e1
     | Some r \<Rightarrow>
        if rq_cancel_requested r
        then publish env i (upd_req i finish_cancelled (count_cancelled e1))
        else publish env i (upd_req i (\<lambda>r. fail (rq_error r) r) (count_failed e1)))"

definition part_done :: "'w engine_env \<Rightarrow> request_id \<Rightarrow> 'w engine \<Rightarrow> 'w engine" where
  "part_done env i e =
    (case e_reqs e i of
       None \<Rightarrow> e
     | Some r \<Rightarrow>
        (case part_finished r of (lastp, r1) \<Rightarrow>
         let e1 = upd_req i (\<lambda>_. r1) e in
         if \<not> lastp \<or> \<not> abandoning r1 then e1
         else case seal_if_idle r1 of (idle, r2) \<Rightarrow>
           let e2 = upd_req i (\<lambda>_. r2) e1 in
           if idle then end_abandoned env i e2 else e2))"

section \<open>Posting\<close>

text \<open>Whole sub-operations up to the quantum, and always at least one.\<close>

fun quantum :: "u64 \<Rightarrow> subop list \<Rightarrow> nat \<Rightarrow> u64 \<Rightarrow> nat" where
  "quantum max_bytes [] taken bytes = taken"
| "quantum max_bytes (op # ops) taken bytes =
    (if 0 < taken \<and> bytes + so_length op > max_bytes then taken
     else quantum max_bytes ops (Suc taken) (bytes + so_length op))"

definition submit_error :: "'w engine_env \<Rightarrow> pending_submit \<Rightarrow> submit_result \<Rightarrow> u32 \<Rightarrow> error_info" where
  "submit_error env p sr outstanding =
    \<lparr>ei_status = (if sr_status sr = kOk then kTransportError else sr_status sr),
     ei_provider = pc_name (po_caps (the_prov env (ps_provider p))),
     ei_peer_id = ps_peer p, ei_errno = sr_errno sr,
     ei_may_have_modified_target = (outstanding > 0),
     ei_detail = (if outstanding = 0 then ''submit rejected'' else ''partial submit'')\<rparr>"

text \<open>\<open>post_ops\<close>: whether nothing is left of this part, what is left, and the engine after.\<close>

definition post_ops ::
  "'w engine_env \<Rightarrow> u64 \<Rightarrow> pending_submit \<Rightarrow> 'w engine \<Rightarrow> bool \<times> pending_submit \<times> 'w engine" where
  "post_ops env max_bytes p e =
    (if ps_ops p = [] then (True, p, e)
     else case e_reqs e (ps_req p) of
       None \<Rightarrow> (True, p, e)
     | Some r \<Rightarrow>
        if abandoning r then (True, p\<lparr>ps_ops := []\<rparr>, part_done env (ps_req p) e)
        else
          let n = quantum max_bytes (ps_ops p) 0 0;
              slice = take n (ps_ops p);
              e1 = upd_req (ps_req p) (set_state RS_kInflight) e
          in case call (po_submit (the_prov env (ps_provider p)) (Some (ps_conn p)) slice) e1 of (sr, e2) \<Rightarrow>
          let e3 = upd_req (ps_req p) (add_accepted_subops (word_of_nat (sr_accepted sr))) e2;
              p3 = p\<lparr>ps_ops := drop (sr_accepted sr) (ps_ops p)\<rparr>
          in if sr_accepted sr < length slice \<and> sr_status sr = kWouldBlock
             then (False, p3, upd_stats (\<lambda>s. s\<lparr>submit_deferred := submit_deferred s + 1\<rparr>) e3)
             else if sr_accepted sr = length slice
             then (if ps_ops p3 \<noteq> [] then (False, p3, e3)
                   else (True, p3, part_done env (ps_req p) e3))
             else
               let outstanding = (case e_reqs e3 (ps_req p) of None \<Rightarrow> 0 | Some r3 \<Rightarrow> rq_accepted r3);
                   e4 = upd_req (ps_req p)
                     (\<lambda>r. set_state RS_kDraining (note_error (submit_error env p sr outstanding) r)) e3
               in (True, p3\<lparr>ps_ops := []\<rparr>, part_done env (ps_req p) e4))"

section \<open>The scheduling pass\<close>

fun drain_loop ::
  "'w engine_env \<Rightarrow> pending_submit list \<Rightarrow> pending_submit list \<Rightarrow> 'w engine \<Rightarrow> pending_submit list \<times> 'w engine" where
  "drain_loop env [] waiting e = (waiting, e)"
| "drain_loop env (p # ps) waiting e =
    (let aband = (case e_reqs e (ps_req p) of None \<Rightarrow> True | Some r \<Rightarrow> abandoning r);
         d = (if aband then kOk else dependency_state env (ps_after p) (e_world e))
     in if \<not> aband \<and> d = kWouldBlock then drain_loop env ps (waiting @ [p]) e
        else
          let e1 = (if \<not> aband \<and> d \<noteq> kOk
                    then upd_req (ps_req p) (note_error (no_error\<lparr>ei_status := d\<rparr>)) e else e)
          in case post_ops env (scheduler_quantum_bytes (env_cfg env)) p e1 of (fin, p', e2) \<Rightarrow>
             if fin then drain_loop env ps waiting e2 else drain_loop env ps (waiting @ [p']) e2)"

definition drain_pending :: "'w engine_env \<Rightarrow> 'w engine \<Rightarrow> 'w engine" where
  "drain_pending env e =
    (if e_pending e = [] then e
     else
       let n = length (e_pending e);
           cursor = (if n \<le> e_rr_cursor e then 0 else e_rr_cursor e);
           turn = drop cursor (e_pending e) @ take cursor (e_pending e);
           e1 = e\<lparr>e_pending := [], e_rr_cursor := (if 1 < n then 1 else 0)\<rparr>
       in case drain_loop env turn [] e1 of (waiting, e2) \<Rightarrow>
          e2\<lparr>e_pending := e_pending e2 @ waiting\<rparr>)"

section \<open>Admission\<close>

fun targets_loop :: "peer_id \<Rightarrow> region_view list \<Rightarrow> 'w engine \<Rightarrow> request \<Rightarrow> request" where
  "targets_loop peer [] e r = r"
| "targets_loop peer (seg # segs) e r =
    (if sp_length (rv_span seg) = 0 then targets_loop peer segs e r
     else case find_remote peer (rv_region seg) e of
       None \<Rightarrow> targets_loop peer segs e r
     | Some rr \<Rightarrow> targets_loop peer segs e
         (add_remote_target (rv_region seg) (rd_generation (rr_desc rr)) (rv_span seg) r))"

definition make_parts ::
  "peer \<Rightarrow> request_id \<Rightarrow> event_id option list \<Rightarrow> subop list list \<Rightarrow> pending_submit list" where
  "make_parts p i after per_lane =
    map (\<lambda>(l, ops). \<lparr>ps_req = i, ps_ops = ops, ps_conn = ln_conn l, ps_peer = pr_id p,
                     ps_provider = ln_provider l, ps_after = after\<rparr>)
      (filter (\<lambda>(l, ops). ops \<noteq> []) (zip (pr_lanes p) per_lane))"

fun post_parts :: "'w engine_env \<Rightarrow> pending_submit list \<Rightarrow> 'w engine \<Rightarrow> 'w engine" where
  "post_parts env [] e = e"
| "post_parts env (p # ps) e =
    (case post_ops env (scheduler_quantum_bytes (env_cfg env)) p e of (fin, p', e1) \<Rightarrow>
     post_parts env ps (if fin then e1 else e1\<lparr>e_pending := e_pending e1 @ [p']\<rparr>))"

definition first_conn :: "peer \<Rightarrow> conn_id option" where
  "first_conn p = (case pr_lanes p of [] \<Rightarrow> None | l # _ \<Rightarrow> Some (ln_conn l))"

definition first_provider :: "peer \<Rightarrow> nat option" where
  "first_provider p = (case pr_lanes p of [] \<Rightarrow> None | l # _ \<Rightarrow> Some (ln_provider l))"

definition admit_request ::
  "'w engine_env \<Rightarrow> 'w engine \<Rightarrow> peer \<Rightarrow> request_id \<Rightarrow> subop_kind \<Rightarrow> nat \<Rightarrow> region_id list \<Rightarrow> addr \<Rightarrow> u64 \<Rightarrow>
   region_view list \<Rightarrow> transfer_options \<Rightarrow> pending_submit list \<Rightarrow> request" where
  "admit_request env e p i kind total_ops held target tot remote opts parts =
    (let r0 = new_request i kind (word_of_nat total_ops) (to_context opts);
         r1 = r0\<lparr>rq_held_regions := held, rq_conn := first_conn p, rq_peer := pr_id p,
                 rq_device := (env_device env \<noteq> None)\<rparr>;
         r2 = set_target target tot r1;
         r3 = (if kind = kWrite \<and> to_ready_handoff opts then targets_loop (pr_id p) remote e r2 else r2);
         r4 = r3\<lparr>rq_lanes := map (\<lambda>ps. (ps_provider ps, ps_conn ps)) parts\<rparr>
     in (set_parts (word_of_nat (length parts)) r4)\<lparr>rq_provider := first_provider p\<rparr>)"

definition count_accepted :: "'w engine \<Rightarrow> 'w engine" where
  "count_accepted e = upd_stats (\<lambda>s. s\<lparr>requests_accepted := requests_accepted s + 1,
     peak_inflight_requests := (if word_of_nat (length (e_inflight e)) > peak_inflight_requests s
       then word_of_nat (length (e_inflight e)) else peak_inflight_requests s)\<rparr>) e"

text \<open>
  Submitting in two parts, because the source lets its mutex go between them: what is checked on the
  way in, the limit on requests in flight last, and what follows once that has been passed. Another
  thread may run in between, so the second part may find more in flight than the first did, and it
  looks again only at whether the engine is closed and at the regions.
\<close>

definition submit_check ::
  "'w engine_env \<Rightarrow> peer_id option \<Rightarrow> region_view list \<Rightarrow> region_view list \<Rightarrow> transfer_options \<Rightarrow>
   'w engine \<Rightarrow> peer result \<times> 'w engine" where
  "submit_check env peer local remote opts e =
    (case Option.bind peer (e_peer_objs e) of
       None \<Rightarrow> (Inl kInvalidArgument, e)
     | Some p \<Rightarrow>
        if e_closed e then (Inl kInvalidArgument, e)
        else if local = [] \<or> length local \<noteq> length remote then (Inl kInvalidArgument, e)
        else if to_notify opts then (Inl kUnsupported, e)
        else if \<not> pr_connected p then (Inl kPeerDisconnected, e)
        else
          let dep = dependency_state env (to_after opts) (e_world e) in
          if dep \<noteq> kOk \<and> dep \<noteq> kWouldBlock then (Inl dep, e)
          else if unat (max_inflight_requests (env_cfg env)) \<le> length (e_inflight e)
          then (Inl kWouldBlock, upd_stats (\<lambda>s. s\<lparr>requests_would_block := requests_would_block s + 1\<rparr>) e)
          else (Inr p, e))"

definition submit_admitted ::
  "'w engine_env \<Rightarrow> peer \<Rightarrow> region_view list \<Rightarrow> region_view list \<Rightarrow> transfer_options \<Rightarrow> subop_kind \<Rightarrow>
   'w engine \<Rightarrow> request_id result \<times> 'w engine" where
  "submit_admitted env p local remote opts kind e =
    (let i = e_next_request e; e1 = e\<lparr>e_next_request := i + 1\<rparr> in
     case build_subops env e1 (pr_id p) local remote kind i (pr_lanes p) of
       Inl s \<Rightarrow> (Inl s, e1)
     | Inr (per_lane, held, target, tot) \<Rightarrow>
        let total_ops = length (concat per_lane) in
        if total_ops = 0 then (Inl kInvalidArgument, e1)
        else
          let parts = make_parts p i (to_after opts) per_lane;
              r = admit_request env e1 p i kind total_ops held target tot remote opts parts
          in if e_closed e1 then (Inl kInvalidArgument, e1)
             else if \<exists>g\<in>set held. (case e_region_objs e1 g of None \<Rightarrow> False | Some m \<Rightarrow> mr_retired m)
             then (Inl kStaleGeneration, e1)
             else
               let e2 = count_accepted (e1\<lparr>e_reqs := (e_reqs e1)(i \<mapsto> r),
                          e_inflight := e_inflight e1 @ [i]\<rparr>);
                   dep = (if to_after opts = [] then kOk
                          else dependency_state env (to_after opts) (e_world e2))
               in if dep = kWouldBlock
                  then (Inr i, (upd_req i (set_state RS_kWaitDependency) e2)
                         \<lparr>e_pending := e_pending e2 @ parts\<rparr>)
                  else
                    let e3 = (if dep \<noteq> kOk
                              then upd_req i (note_error (no_error\<lparr>ei_status := dep\<rparr>)) e2 else e2)
                    in (Inr i, post_parts env parts e3))"

definition submit_vector ::
  "'w engine_env \<Rightarrow> peer_id option \<Rightarrow> region_view list \<Rightarrow> region_view list \<Rightarrow> transfer_options \<Rightarrow> subop_kind \<Rightarrow>
   'w engine \<Rightarrow> request_id result \<times> 'w engine" where
  "submit_vector env peer local remote opts kind e =
    (case submit_check env peer local remote opts e of
       (Inl s, e1) \<Rightarrow> (Inl s, e1)
     | (Inr p, e1) \<Rightarrow> submit_admitted env p local remote opts kind e1)"

definition read_op where
  "read_op env peer local remote opts e = submit_vector env peer [local] [remote] opts kRead e"

definition write_op where
  "write_op env peer local remote opts e = submit_vector env peer [local] [remote] opts kWrite e"

definition readv where
  "readv env peer local remote opts e = submit_vector env peer local remote opts kRead e"

definition writev where
  "writev env peer local remote opts e = submit_vector env peer local remote opts kWrite e"

section \<open>Notifications\<close>

definition take_notification :: "u64 \<Rightarrow> 'w engine \<Rightarrow> request_id option \<times> 'w engine" where
  "take_notification k e =
    (map_of (e_notify_pending e) k,
     e\<lparr>e_notify_pending := filter (\<lambda>x. fst x \<noteq> k) (e_notify_pending e)\<rparr>)"

definition notification_matches :: "peer_id \<Rightarrow> bool \<Rightarrow> 'w engine \<Rightarrow> u64 \<times> request_id \<Rightarrow> bool" where
  "notification_matches peer only_cancelled e x =
    (case e_reqs e (snd x) of
       None \<Rightarrow> False
     | Some r \<Rightarrow> if only_cancelled then rq_cancel_requested r else peer = 0 \<or> rq_peer r = peer)"

definition end_notification :: "'w engine_env \<Rightarrow> error_info \<Rightarrow> u64 \<times> request_id \<Rightarrow> 'w engine \<Rightarrow> 'w engine" where
  "end_notification env err x e =
     publish env (snd x) (upd_req (snd x)
       (\<lambda>r. if ei_ok err \<or> rq_cancel_requested r then finish_cancelled r else fail err r) e)"

definition end_notifications ::
  "'w engine_env \<Rightarrow> peer_id \<Rightarrow> bool \<Rightarrow> error_info \<Rightarrow> 'w engine \<Rightarrow> 'w engine" where
  "end_notifications env peer only_cancelled err e =
    (let ended = filter (notification_matches peer only_cancelled e) (e_notify_pending e);
         e1 = e\<lparr>e_notify_pending := filter (\<lambda>x. \<not> notification_matches peer only_cancelled e x) (e_notify_pending e)\<rparr>
     in fold (end_notification env err) ended e1)"

text \<open>
  \<open>notify\<close> hands the request back whatever the send returned: the status, the request if one was
  made, and the engine.
\<close>

definition notify ::
  "'w engine_env \<Rightarrow> peer_id option \<Rightarrow> bytes \<Rightarrow> 'w engine \<Rightarrow> status \<times> request_id option \<times> 'w engine" where
  "notify env peer payload e =
    (case Option.bind peer (e_peer_objs e) of
       None \<Rightarrow> (kInvalidArgument, None, e)
     | Some p \<Rightarrow>
        if length payload > unat (notify_max_payload (env_cfg env)) then (kInvalidArgument, None, e)
        else if e_closed e then (kInvalidArgument, None, e)
        else if \<not> pr_connected p then (kPeerDisconnected, None, e)
        else
          let k = e_next_notify e; i = e_next_request e;
              r = (set_state RS_kWaitNotifyAck (new_request i kWrite 0 0))\<lparr>rq_peer := pr_id p\<rparr>;
              body = encode_u64 k @ payload;
              e1 = e\<lparr>e_next_notify := k + 1, e_next_request := i + 1, e_reqs := (e_reqs e)(i \<mapsto> r),
                     e_notify_pending := e_notify_pending e @ [(k, i)]\<rparr>;
              prov = (case first_provider p of None \<Rightarrow> 0 | Some j \<Rightarrow> j)
          in case call (po_send_control (the_prov env prov) (first_conn p)
                   (control_type_code kNotification) body) e1 of (s, e2) \<Rightarrow>
             if s = kOk
             then (s, Some i, upd_stats (\<lambda>st. st\<lparr>notifications_sent := notifications_sent st + 1\<rparr>) e2)
             else case take_notification k e2 of
               (None, e3) \<Rightarrow> (s, Some i, e3)
             | (Some _, e3) \<Rightarrow>
                (s, Some i, upd_req i (fail \<lparr>ei_status = s,
                   ei_provider = pc_name (po_caps (the_prov env prov)), ei_peer_id = pr_id p, ei_errno = 0,
                   ei_may_have_modified_target = False, ei_detail = ''control send failed''\<rparr>) e3))"

section \<open>Control messages\<close>

text \<open>
  The decoders are shown never to leave their buffer (\<open>Hux_Control\<close>), so that \<open>None\<close> below does
  not arise; it is treated as the refusal it would be.
\<close>

definition handle_ready_handoff :: "'w engine_env \<Rightarrow> control_message \<Rightarrow> 'w engine \<Rightarrow> 'w engine" where
  "handle_ready_handoff env m e =
    (case decode_ready_handoff (cm_payload m) of
       Some (Inr b) \<Rightarrow>
         let sp = \<lparr>sp_offset = rh_offset b, sp_length = rh_length b\<rparr>;
             a = (case find_region (rh_region b) e of
                    Some lr \<Rightarrow> if span_within sp (mr_length lr) then Some (mr_base lr + rh_offset b) else None
                  | None \<Rightarrow> None);
             e1 = upd_stats (\<lambda>s. s\<lparr>ready_handoffs_received := ready_handoffs_received s + 1\<rparr>) e
         in keep_ready env \<lparr>re_request = rh_request b, re_peer = cm_peer m, re_addr = a,
              re_bytes = rh_length b, re_region = rh_region b, re_generation = rh_generation b, re_span = sp\<rparr> e1
     | _ \<Rightarrow> e)"

definition handle_notification :: "'w engine_env \<Rightarrow> nat \<Rightarrow> control_message \<Rightarrow> 'w engine \<Rightarrow> 'w engine" where
  "handle_notification env prov m e =
    (if length (cm_payload m) < 8 then e
     else case decode_u64 (take 8 (cm_payload m)) of
       Some (Inr k) \<Rightarrow>
         (let queued = (length (e_notifications e) < unat (notify_queue_depth (env_cfg env)));
              e1 = (if queued then e\<lparr>e_notifications := e_notifications e @
                      [\<lparr>nt_peer = cm_peer m, nt_epoch = 0, nt_id = k, nt_related_request = 0,
                        nt_payload = drop 8 (cm_payload m)\<rparr>]\<rparr> else e);
              e2 = upd_stats (\<lambda>s. if queued then s\<lparr>notifications_received := notifications_received s + 1\<rparr>
                                 else s\<lparr>notifications_dropped := notifications_dropped s + 1\<rparr>) e1
          in if cm_conn m = None then e2
             else if queued then
               (case call (po_send_control (the_prov env prov) (cm_conn m)
                      (control_type_code kNotificationAck) (encode_u64 k)) e2 of (s, e3) \<Rightarrow>
                if s = kOk then e3
                else upd_stats (\<lambda>st. st\<lparr>notification_acks_failed := notification_acks_failed st + 1\<rparr>) e3)
             else snd (call (po_send_control (the_prov env prov) (cm_conn m)
                      (control_type_code kNotificationRefused) (encode_u64 k)) e2))
     | _ \<Rightarrow> e)"

definition invalidate_named :: "peer_id \<Rightarrow> region_invalidate_body \<Rightarrow> (peer_id \<times> region_id) \<times> remote_region \<Rightarrow> bool" where
  "invalidate_named peer b x =
    (snd (fst x) = ri_region b \<and>
     (if ri_has_origin b then rd_origin (rr_desc (snd x)) = ri_origin b
      else peer \<noteq> 0 \<and> fst (fst x) = peer) \<and>
     rd_generation (rr_desc (snd x)) = ri_generation b)"

definition handle_region_invalidate :: "control_message \<Rightarrow> 'w engine \<Rightarrow> 'w engine" where
  "handle_region_invalidate m e =
    (case decode_region_invalidate (cm_payload m) of
       Some (Inr b) \<Rightarrow> e\<lparr>e_remotes := map (\<lambda>x. if invalidate_named (cm_peer m) b x
                          then (fst x, invalidate (snd x)) else x) (e_remotes e)\<rparr>
     | _ \<Rightarrow> e)"

definition handle_notification_ack :: "'w engine_env \<Rightarrow> control_message \<Rightarrow> 'w engine \<Rightarrow> 'w engine" where
  "handle_notification_ack env m e =
    (case decode_u64 (cm_payload m) of
       Some (Inr k) \<Rightarrow>
         (case take_notification k e of
            (None, e1) \<Rightarrow> e1
          | (Some i, e1) \<Rightarrow> publish env i
              (upd_req i (\<lambda>r. finish_success (mark_stage ST_kTransferComplete r)) e1))
     | _ \<Rightarrow> e)"

definition refused_error :: "peer_id \<Rightarrow> error_info" where
  "refused_error peer = no_error\<lparr>ei_status := kResourceExhausted, ei_peer_id := peer,
     ei_detail := ''the peer's notification queue was full''\<rparr>"

definition handle_notification_refused :: "'w engine_env \<Rightarrow> control_message \<Rightarrow> 'w engine \<Rightarrow> 'w engine" where
  "handle_notification_refused env m e =
    (case decode_u64 (cm_payload m) of
       Some (Inr k) \<Rightarrow>
         (case take_notification k e of
            (None, e1) \<Rightarrow> e1
          | (Some i, e1) \<Rightarrow> publish env i (upd_req i (fail (refused_error (cm_peer m))) e1))
     | _ \<Rightarrow> e)"

definition handle_control :: "'w engine_env \<Rightarrow> nat \<Rightarrow> control_message \<Rightarrow> 'w engine \<Rightarrow> 'w engine" where
  "handle_control env prov m0 e =
    (let m = m0\<lparr>cm_peer := peer_for_conn prov (cm_conn m0) e\<rparr> in
     case control_type_of_code (cm_type m) of
       kReadyHandoff \<Rightarrow> handle_ready_handoff env m e
     | kNotification \<Rightarrow> handle_notification env prov m e
     | kRegionInvalidate \<Rightarrow> handle_region_invalidate m e
     | kNotificationAck \<Rightarrow> handle_notification_ack env m e
     | kNotificationRefused \<Rightarrow> handle_notification_refused env m e
     | _ \<Rightarrow> e)"

definition poll_control_of :: "'w engine_env \<Rightarrow> nat \<Rightarrow> 'w engine \<Rightarrow> 'w engine" where
  "poll_control_of env prov e =
    (case call (po_poll_control (the_prov env prov) (unat (cq_batch (env_cfg env)))) e of ((s, msgs), e1) \<Rightarrow>
     if s = kOk then fold (handle_control env prov) msgs e1 else e1)"

definition arrival_event :: "peer_arrival \<Rightarrow> ready_event" where
  "arrival_event a = \<lparr>re_request = ucast (pa_token a), re_peer = pa_from a, re_addr = None, re_bytes = 0,
     re_region = 0, re_generation = 0, re_span = \<lparr>sp_offset = 0, sp_length = 0\<rparr>\<rparr>"

definition poll_arrivals_of :: "'w engine_env \<Rightarrow> nat \<Rightarrow> 'w engine \<Rightarrow> 'w engine" where
  "poll_arrivals_of env prov e =
    (case call (po_poll_peer_arrivals (the_prov env prov) (unat (cq_batch (env_cfg env)))) e of ((s, as), e1) \<Rightarrow>
     if s = kOk then fold (\<lambda>a. keep_ready env (arrival_event a)) as e1 else e1)"

section \<open>Completions\<close>

definition send_handoff :: "'w engine_env \<Rightarrow> request \<Rightarrow> remote_target \<Rightarrow> 'w engine \<Rightarrow> 'w engine" where
  "send_handoff env r t e =
    (let payload = encode_ready_handoff \<lparr>rh_request = rq_id r, rh_region = rt_region t,
           rh_generation = rt_generation t, rh_offset = sp_offset (rt_span t), rh_length = sp_length (rt_span t)\<rparr>;
         prov = (case rq_provider r of Some j \<Rightarrow> j | None \<Rightarrow> 0)
     in if rq_conn r = None then e
        else case call (po_send_control (the_prov env prov) (rq_conn r)
               (control_type_code kReadyHandoff) payload) e of (s, e1) \<Rightarrow>
          upd_stats (\<lambda>st. if s = kOk then st\<lparr>ready_handoffs_sent := ready_handoffs_sent st + 1\<rparr>
                         else st\<lparr>ready_handoffs_failed := ready_handoffs_failed st + 1\<rparr>) e1)"

text \<open>What ends a request whose last sub-operation completed, once it has been claimed.\<close>

definition end_completed :: "'w engine_env \<Rightarrow> request_id \<Rightarrow> request \<Rightarrow> 'w engine \<Rightarrow> 'w engine" where
  "end_completed env i r e =
    (if rq_cancel_requested r then publish env i (upd_req i finish_cancelled (count_cancelled e))
     else if \<not> ei_ok (rq_error r) then publish env i (upd_req i (\<lambda>r. fail (rq_error r) r) (count_failed e))
     else
       let mark = (\<lambda>r. let r1 = mark_stage ST_kTransferComplete r in
              if env_device env \<noteq> None \<and> rq_kind r = kRead then mark_stage ST_kTargetReady r1 else r1);
           e1 = upd_req i mark e;
           e2 = fold (send_handoff env r) (rq_remote_targets r) e1
       in publish env i (upd_req i finish_success (count_succeeded e2)))"

definition handle_completion :: "'w engine_env \<Rightarrow> completion_event \<Rightarrow> 'w engine \<Rightarrow> 'w engine" where
  "handle_completion env ev e =
    (if ce_request ev \<notin> set (e_inflight e) then e
     else case e_reqs e (ce_request ev) of
       None \<Rightarrow> e
     | Some r \<Rightarrow>
        (case on_subop_complete ev r of (lastp, r1) \<Rightarrow>
         let e1 = upd_req (ce_request ev) (\<lambda>_. r1) e in
         if \<not> lastp then e1
         else case claim (ce_request ev) e1 of (mine, e2) \<Rightarrow>
           if \<not> mine then e2 else end_completed env (ce_request ev) r1 e2))"

fun poll_all :: "'w engine_env \<Rightarrow> nat list \<Rightarrow> status \<Rightarrow> completion_event list \<Rightarrow> 'w engine \<Rightarrow>
   status \<times> completion_event list \<times> 'w engine" where
  "poll_all env [] polled events e = (polled, events, e)"
| "poll_all env (j # js) polled events e =
    (case call (po_poll (the_prov env j) (unat (cq_batch (env_cfg env)))) e of ((s, batch), e1) \<Rightarrow>
     poll_all env js (if s \<noteq> kOk \<and> polled = kOk then s else polled) (events @ batch) e1)"

section \<open>Departed peers\<close>

definition any_lane_gone :: "'w engine_env \<Rightarrow> 'w \<Rightarrow> peer \<Rightarrow> bool" where
  "any_lane_gone env w p \<longleftrightarrow>
     (\<exists>l\<in>set (pr_lanes p). \<not> po_alive (the_prov env (ln_provider l)) (ln_conn l) w)"

definition upd_peer :: "peer_id \<Rightarrow> (peer \<Rightarrow> peer) \<Rightarrow> 'w engine \<Rightarrow> 'w engine" where
  "upd_peer i f e = e\<lparr>e_peer_objs := (e_peer_objs e)(i := map_option f (e_peer_objs e i))\<rparr>"

text \<open>Every lane is disconnected; the first failure is what is reported.\<close>

fun disconnect_lanes :: "'w engine_env \<Rightarrow> lane list \<Rightarrow> status \<Rightarrow> 'w engine \<Rightarrow> status \<times> 'w engine" where
  "disconnect_lanes env [] first e = (first, e)"
| "disconnect_lanes env (l # ls) first e =
    (case call (po_disconnect (the_prov env (ln_provider l)) (ln_conn l)) e of (s, e1) \<Rightarrow>
     disconnect_lanes env ls (if s \<noteq> kOk \<and> first = kOk then s else first) e1)"

definition stranded_error :: "'w engine_env \<Rightarrow> peer \<Rightarrow> request \<Rightarrow> error_info" where
  "stranded_error env p r = \<lparr>ei_status = kPeerDisconnected,
     ei_provider = (case first_provider p of None \<Rightarrow> '''' | Some j \<Rightarrow> pc_name (po_caps (the_prov env j))),
     ei_peer_id = pr_id p, ei_errno = 0, ei_may_have_modified_target = (rq_kind r = kWrite),
     ei_detail = ''peer disconnected while the request was in flight''\<rparr>"

definition end_stranded :: "'w engine_env \<Rightarrow> peer \<Rightarrow> request_id \<Rightarrow> 'w engine \<Rightarrow> 'w engine" where
  "end_stranded env p i e =
     publish env i (upd_req i (\<lambda>r. fail (stranded_error env p r) (seal_accepted r)) (count_failed e))"

definition gone_error :: "peer_id \<Rightarrow> string \<Rightarrow> error_info" where
  "gone_error i why = no_error\<lparr>ei_status := kPeerDisconnected, ei_peer_id := i, ei_detail := why\<rparr>"

definition belongs_to :: "'w engine \<Rightarrow> peer_id \<Rightarrow> request_id \<Rightarrow> bool" where
  "belongs_to e pid i = (case e_reqs e i of None \<Rightarrow> False | Some r \<Rightarrow> rq_peer r = pid)"

definition reap_peer :: "'w engine_env \<Rightarrow> peer \<Rightarrow> 'w engine \<Rightarrow> 'w engine" where
  "reap_peer env p e =
    (let e1 = upd_peer (pr_id p) bump_epoch e;
         e2 = snd (disconnect_lanes env (pr_lanes p) kOk e1);
         stranded = filter (belongs_to e2 (pr_id p)) (e_inflight e2);
         e3 = e2\<lparr>e_inflight := filter (\<lambda>i. \<not> belongs_to e2 (pr_id p) i) (e_inflight e2)\<rparr>;
         e4 = fold (end_stranded env p) stranded e3
     in end_notifications env (pr_id p) False
          (gone_error (pr_id p) ''the peer went before acknowledging; whether it arrived is not known'') e4)"

definition gone_peers :: "'w engine_env \<Rightarrow> 'w engine \<Rightarrow> peer list" where
  "gone_peers env e =
     filter (\<lambda>p. pr_connected p \<and> any_lane_gone env (e_world e) p) (List.map_filter (e_peer_objs e) (e_peers e))"

definition reap_departed_peers :: "'w engine_env \<Rightarrow> 'w engine \<Rightarrow> 'w engine" where
  "reap_departed_peers env e = fold (reap_peer env) (gone_peers env e) e"

definition remove_peer :: "'w engine_env \<Rightarrow> peer_id option \<Rightarrow> 'w engine \<Rightarrow> status \<times> 'w engine" where
  "remove_peer env peer e =
    (case Option.bind peer (e_peer_objs e) of
       None \<Rightarrow> (kInvalidArgument, e)
     | Some p \<Rightarrow>
        let e1 = upd_peer (pr_id p) bump_epoch e;
            e2 = e1\<lparr>e_peers := removeAll (pr_id p) (e_peers e1)\<rparr>;
            e3 = end_notifications env (pr_id p) False (gone_error (pr_id p)
              ''the peer was removed before acknowledging; whether it arrived is not known'') e2
        in disconnect_lanes env (pr_lanes p) kOk e3)"

section \<open>Progress\<close>

definition progress :: "'w engine_env \<Rightarrow> 'w engine \<Rightarrow> status \<times> 'w engine" where
  "progress env e =
    (let js = [0 ..< length (env_providers env)];
         e1 = drain_pending env e;
         e2 = reap_departed_peers env e1;
         e3 = end_notifications env 0 True no_error e2;
         e4 = fold (poll_control_of env) js e3;
         e5 = fold (poll_arrivals_of env) js e4
     in case poll_all env js kOk [] e5 of (polled, events, e6) \<Rightarrow>
        (polled, fold (handle_completion env) events e6))"

section \<open>What the application polls\<close>

definition explicit_progress :: "'w engine_env \<Rightarrow> 'w engine \<Rightarrow> status \<times> 'w engine" where
  "explicit_progress env e = (if cfg_progress (env_cfg env) = kExplicit then progress env e else (kOk, e))"

definition poll_notifications :: "'w engine_env \<Rightarrow> nat \<Rightarrow> 'w engine \<Rightarrow> notification list \<times> 'w engine" where
  "poll_notifications env n e =
    (let e1 = snd (explicit_progress env e)
     in (take n (e_notifications e1), e1\<lparr>e_notifications := drop n (e_notifications e1)\<rparr>))"

definition poll_completions :: "'w engine_env \<Rightarrow> nat \<Rightarrow> 'w engine \<Rightarrow> (status \<times> request_id list) \<times> 'w engine" where
  "poll_completions env n e =
    (case explicit_progress env e of (s, e1) \<Rightarrow>
     ((s, take n (e_completed e1)), e1\<lparr>e_completed := drop n (e_completed e1)\<rparr>))"

definition poll_ready_events :: "'w engine_env \<Rightarrow> nat \<Rightarrow> 'w engine \<Rightarrow> ready_event list \<times> 'w engine" where
  "poll_ready_events env n e =
    (let e1 = snd (explicit_progress env e)
     in (take n (e_ready_events e1), e1\<lparr>e_ready_events := drop n (e_ready_events e1)\<rparr>))"

section \<open>Closing\<close>

text \<open>
  \<open>close\<close> drives progress until nothing is in flight or its deadline passes; \<open>turns\<close> is how many
  turns the clock allows before it does. A negative timeout has no deadline.
\<close>

fun close_loop :: "'w engine_env \<Rightarrow> nat \<Rightarrow> 'w engine \<Rightarrow> bool \<times> 'w engine" where
  "close_loop env 0 e = (e_inflight e = [], e)"
| "close_loop env (Suc n) e = (if e_inflight e = [] then (True, e) else close_loop env n (snd (progress env e)))"

definition close :: "'w engine_env \<Rightarrow> nat \<Rightarrow> 'w engine \<Rightarrow> status \<times> 'w engine" where
  "close env turns e =
    (case close_loop env turns (e\<lparr>e_closed := True\<rparr>) of (drained, e1) \<Rightarrow>
     if \<not> drained then (kTimeout, e1)
     else (kOk, end_notifications env 0 False no_error e1))"

section \<open>Reports\<close>

definition describe :: "'w engine_env \<Rightarrow> 'w engine \<Rightarrow> string" where
  "describe env e =
    (let descs = map (\<lambda>p. po_describe p (e_world e)) (env_providers env) in
     ''{'' @ [CHR 0x22] @ ''engine'' @ [CHR 0x22] @ '':'' @ describe_config (env_cfg env) @
     '','' @ [CHR 0x22] @ ''provider'' @ [CHR 0x22] @ '':'' @ hd descs @
     '','' @ [CHR 0x22] @ ''providers'' @ [CHR 0x22] @ '':['' @ commas descs @ '']}'')"

record engine_report =
  er_stats :: engine_stats
  er_waiting_on_dependency :: nat
  er_registration_cache_size :: nat
  er_provider :: provider_stats

definition add_provider_stats :: "provider_stats \<Rightarrow> provider_stats \<Rightarrow> provider_stats" where
  "add_provider_stats p s = s\<lparr>subops_posted := subops_posted s + subops_posted p,
     subops_completed := subops_completed s + subops_completed p,
     subops_failed := subops_failed s + subops_failed p,
     payload_bytes := payload_bytes s + payload_bytes p,
     payload_bytes_copied := payload_bytes_copied s + payload_bytes_copied p\<rparr>"

definition stats :: "'w engine_env \<Rightarrow> 'w engine \<Rightarrow> engine_report" where
  "stats env e = \<lparr>er_stats = e_stats e,
     er_waiting_on_dependency = length (remdups (filter
        (\<lambda>i. case e_reqs e i of None \<Rightarrow> False | Some r \<Rightarrow> rq_state r = RS_kWaitDependency)
        (map ps_req (e_pending e)))),
     er_registration_cache_size = length (e_reg_cache e),
     er_provider = fold (\<lambda>p. add_provider_stats (po_stats p (e_world e))) (env_providers env) zero_stats\<rparr>"

definition record_event :: "'w engine_env \<Rightarrow> 'w engine \<Rightarrow> event_id result \<times> 'w engine" where
  "record_event env e =
    (case env_device env of None \<Rightarrow> (Inl kUnsupported, e) | Some d \<Rightarrow> call (dv_record_event d) e)"

text \<open>A request's own methods, as the application calls them through its handle.\<close>

definition cancel_request :: "request_id \<Rightarrow> 'w engine \<Rightarrow> status \<times> 'w engine" where
  "cancel_request i e =
    (case e_reqs e i of None \<Rightarrow> (kNotFound, e) | Some r \<Rightarrow> (fst (cancel r), upd_req i (\<lambda>r. snd (cancel r)) e))"

end
