(* ===== verification/Hux_Registry.thy ===== *)
theory Hux_Registry
  imports Hux_Engine
begin

text \<open>
  Registration in core/engine_impl.cpp: the cache of registrations and its eviction, registering
  and deregistering memory, and the release of a registration when its last reference goes. A
  shared pointer's count is what refers to the object: the cache, the region objects that are
  alive, and the local variable of the call that is running.
\<close>

section \<open>The cache\<close>

definition find_registration ::
  "addr \<Rightarrow> u64 \<Rightarrow> device_id \<Rightarrow> access_flags \<Rightarrow> 'w engine \<Rightarrow> registration option" where
  "find_registration a len dev acc e = List.find (\<lambda>r. registration_covers r a len dev acc) (e_reg_cache e)"

definition reg_in_use :: "'w engine \<Rightarrow> registration \<Rightarrow> bool" where
  "reg_in_use e r \<longleftrightarrow> (\<exists>i\<in>set (e_alive e). case e_region_objs e i of
      None \<Rightarrow> False | Some m \<Rightarrow> rg_id (mr_reg m) = rg_id r)"

text \<open>
  Over the bound, the first entry nothing else holds is dropped, again and again; when every
  entry is held the bound gives way.
\<close>

function evict :: "(registration \<Rightarrow> bool) \<Rightarrow> nat \<Rightarrow> registration list \<Rightarrow> registration list \<times> registration list" where
  "evict used bound cache =
    (if length cache \<le> bound then (cache, [])
     else case List.extract (\<lambda>r. \<not> used r) cache of
       None \<Rightarrow> (cache, [])
     | Some (pre, x, post) \<Rightarrow>
        (case evict used bound (pre @ post) of (kept, dropped) \<Rightarrow> (kept, x # dropped)))"
  by pat_completeness auto

termination evict
  by (relation "measure (\<lambda>(used, bound, cache). length cache)") (auto dest!: extract_SomeE [OF sym] extract_SomeE)

declare evict.simps [simp del]

text \<open>The deleter of a registration: every transport that gave a key takes it back.\<close>

definition release_registration :: "'w engine_env \<Rightarrow> registration \<Rightarrow> 'w engine \<Rightarrow> 'w engine" where
  "release_registration env r e =
    (fold (\<lambda>(j, k) e. snd (call (po_deregister_region (the_prov env j) k) e)) (rg_held r) e)
      \<lparr>e_released := e_released e @ [rg_id r]\<rparr>"

definition cache_registration :: "'w engine_env \<Rightarrow> registration \<Rightarrow> 'w engine \<Rightarrow> 'w engine" where
  "cache_registration env reg e =
    (case evict (\<lambda>r. reg_in_use e r \<or> rg_id r = rg_id reg)
            (unat (registration_cache_entries (env_cfg env))) (e_reg_cache e @ [reg]) of (kept, dropped) \<Rightarrow>
     fold (release_registration env) dropped (e\<lparr>e_reg_cache := kept\<rparr>))"

definition release_cached_registrations :: "'w engine_env \<Rightarrow> 'w engine \<Rightarrow> nat \<times> 'w engine" where
  "release_cached_registrations env e =
    (let dropped = filter (\<lambda>r. \<not> reg_in_use e r) (e_reg_cache e)
     in (length dropped, fold (release_registration env) dropped
           (e\<lparr>e_reg_cache := filter (reg_in_use e) (e_reg_cache e)\<rparr>)))"

section \<open>Registering\<close>

text \<open>Every transport in turn: the keys of those that took the memory, and the first refusal.\<close>

fun register_loop ::
  "'w engine_env \<Rightarrow> addr \<Rightarrow> u64 \<Rightarrow> device_id \<Rightarrow> access_flags \<Rightarrow> nat list \<Rightarrow> reg_key list \<times> (nat \<times> u64) list \<times> status \<Rightarrow>
   'w engine \<Rightarrow> (reg_key list \<times> (nat \<times> u64) list \<times> status) \<times> 'w engine" where
  "register_loop env a len dev acc [] st e = (st, e)"
| "register_loop env a len dev acc (j # js) (keys, held, first_error) e =
    (case call (po_register_region (the_prov env j) a len dev acc) e of
       (Inl s, e1) \<Rightarrow> register_loop env a len dev acc js
          (keys, held, if first_error = kOk then s else first_error) e1
     | (Inr (lkey, rkey), e1) \<Rightarrow> register_loop env a len dev acc js
          (keys @ [\<lparr>rk_provider = pc_name (po_caps (the_prov env j)), rk_local_key = lkey, rk_remote_key = rkey\<rparr>],
           held @ [(j, lkey)], first_error) e1)"

definition probe_device :: "'w engine_env \<Rightarrow> addr \<Rightarrow> 'w engine \<Rightarrow> device_id \<times> memory_kind" where
  "probe_device env a e =
    (case env_device env of
       None \<Rightarrow> (cfg_device (env_cfg env), kHostPageable)
     | Some d \<Rightarrow> (case dv_probe_pointer d a (e_world e) of
         Inl _ \<Rightarrow> (cfg_device (env_cfg env), kHostPageable) | Inr x \<Rightarrow> x))"

definition over_device_cap :: "'w engine_env \<Rightarrow> u64 \<Rightarrow> bool" where
  "over_device_cap env len =
    (case env_device env of
       None \<Rightarrow> False
     | Some d \<Rightarrow> dv_max_registration_bytes d \<noteq> 0 \<and> len > dv_max_registration_bytes d)"

definition new_registration ::
  "'w engine_env \<Rightarrow> addr \<Rightarrow> u64 \<Rightarrow> device_id \<Rightarrow> access_flags \<Rightarrow> 'w engine \<Rightarrow> registration result \<times> 'w engine" where
  "new_registration env a len dev acc e =
    (case register_loop env a len dev acc [0 ..< length (env_providers env)] ([], [], kOk) e of
       ((keys, held, first_error), e1) \<Rightarrow>
        if keys = [] then (Inl (if first_error = kOk then kUnsupported else first_error), e1)
        else
          let reg = \<lparr>rg_id = e_next_reg e1, rg_base = a, rg_length = len, rg_device = dev, rg_access = acc,
                rg_keys = keys, rg_local_key = rk_local_key (hd keys), rg_remote_key = rk_remote_key (hd keys),
                rg_held = held\<rparr>;
              e2 = e1\<lparr>e_next_reg := Suc (e_next_reg e1)\<rparr>
          in (Inr reg, if registration_cache_entries (env_cfg env) > 0 then cache_registration env reg e2 else e2))"

definition add_region ::
  "'w engine_env \<Rightarrow> addr \<Rightarrow> u64 \<Rightarrow> device_id \<Rightarrow> memory_kind \<Rightarrow> access_flags \<Rightarrow> registration \<Rightarrow> 'w engine \<Rightarrow>
   region_id \<times> 'w engine" where
  "add_region env a len dev mem acc reg e =
    (let i = e_next_region e;
         m = \<lparr>mr_origin = env_identity env, mr_id = i, mr_gen = e_generation e, mr_base = a, mr_length = len,
              mr_dev = dev, mr_mem = mem, mr_access = acc, mr_reg = reg, mr_retired = False\<rparr>
     in (i, e\<lparr>e_next_region := i + 1, e_region_objs := (e_region_objs e)(i \<mapsto> m),
              e_regions := e_regions e @ [i], e_alive := e_alive e @ [i]\<rparr>))"

definition register_memory ::
  "'w engine_env \<Rightarrow> addr \<Rightarrow> u64 \<Rightarrow> access_flags \<Rightarrow> 'w engine \<Rightarrow> region_id result \<times> 'w engine" where
  "register_memory env a len acc e =
    (if a = 0 \<or> len = 0 then (Inl kInvalidArgument, e)
     else case probe_device env a e of (dev, mem) \<Rightarrow>
       if over_device_cap env len then (Inl kResourceExhausted, e)
       else case find_registration a len dev acc e of
         Some reg \<Rightarrow>
           (case add_region env a len dev mem acc reg
                   (upd_stats (\<lambda>s. s\<lparr>registrations_reused := registrations_reused s + 1\<rparr>) e) of
              (i, e1) \<Rightarrow> (Inr i, e1))
       | None \<Rightarrow>
           (case new_registration env a len dev acc
                   (upd_stats (\<lambda>s. s\<lparr>registrations_created := registrations_created s + 1\<rparr>) e) of
              (Inl s, e1) \<Rightarrow> (Inl s, e1)
            | (Inr reg, e1) \<Rightarrow> (case add_region env a len dev mem acc reg e1 of (i, e2) \<Rightarrow> (Inr i, e2))))"

fun register_each :: "'w engine_env \<Rightarrow> access_flags \<Rightarrow> (addr \<times> u64) list \<Rightarrow> 'w engine \<Rightarrow> region_id result list \<times> 'w engine" where
  "register_each env acc [] e = ([], e)"
| "register_each env acc ((a, len) # xs) e =
    (case register_memory env a len acc e of (r, e1) \<Rightarrow>
     case register_each env acc xs e1 of (rs, e2) \<Rightarrow> (r # rs, e2))"

definition register_memory_batch ::
  "'w engine_env \<Rightarrow> addr list \<Rightarrow> u64 list \<Rightarrow> access_flags \<Rightarrow> 'w engine \<Rightarrow> region_id result list result \<times> 'w engine" where
  "register_memory_batch env addrs lens acc e =
    (if length addrs \<noteq> length lens then (Inl kInvalidArgument, e)
     else case register_each env acc (zip addrs lens) e of (rs, e1) \<Rightarrow> (Inr rs, e1))"

section \<open>Deregistering\<close>

definition region_busy :: "'w engine \<Rightarrow> region_id \<Rightarrow> bool" where
  "region_busy e i \<longleftrightarrow> (\<exists>q\<in>set (e_inflight e). case e_reqs e q of
      None \<Rightarrow> False | Some r \<Rightarrow> i \<in> set (rq_held_regions r))"

text \<open>
  The notice goes out on every connection each transport holds; a transport that cannot do
  that is sent to through the peers dialled over it.
\<close>

fun broadcast_loop ::
  "'w engine_env \<Rightarrow> bytes \<Rightarrow> nat list \<Rightarrow> nat \<times> nat \<times> nat list \<Rightarrow> 'w engine \<Rightarrow> (nat \<times> nat \<times> nat list) \<times> 'w engine" where
  "broadcast_loop env payload [] st e = (st, e)"
| "broadcast_loop env payload (j # js) (sent, refused, rest) e =
    (case call (po_broadcast_control (the_prov env j) (control_type_code kRegionInvalidate) payload) e of
       ((s, n, r), e1) \<Rightarrow>
        if s = kOk then broadcast_loop env payload js (sent + n, refused + r, rest) e1
        else broadcast_loop env payload js (sent, refused, rest @ [j]) e1)"

fun notify_peers_loop ::
  "'w engine_env \<Rightarrow> bytes \<Rightarrow> nat list \<Rightarrow> peer list \<Rightarrow> nat \<times> nat \<Rightarrow> 'w engine \<Rightarrow> (nat \<times> nat) \<times> 'w engine" where
  "notify_peers_loop env payload rest [] st e = (st, e)"
| "notify_peers_loop env payload rest (p # ps) (sent, refused) e =
    (case first_provider p of
       None \<Rightarrow> notify_peers_loop env payload rest ps (sent, refused) e
     | Some j \<Rightarrow>
        if \<not> pr_connected p \<or> j \<notin> set rest then notify_peers_loop env payload rest ps (sent, refused) e
        else case call (po_send_control (the_prov env j) (first_conn p)
               (control_type_code kRegionInvalidate) payload) e of (s, e1) \<Rightarrow>
          notify_peers_loop env payload rest ps
            (if s = kOk then (sent + 1, refused) else (sent, refused + 1)) e1)"

definition announce_invalid :: "'w engine_env \<Rightarrow> memory_region \<Rightarrow> 'w engine \<Rightarrow> 'w engine" where
  "announce_invalid env m e =
    (let payload = encode_region_invalidate \<lparr>ri_region = mr_id m, ri_generation = mr_gen m,
           ri_has_origin = True, ri_origin = mr_origin m\<rparr>
     in case broadcast_loop env payload [0 ..< length (env_providers env)] (0, 0, []) e of
          ((sent, refused, rest), e1) \<Rightarrow>
        case (if rest = [] then ((sent, refused), e1)
              else notify_peers_loop env payload rest (List.map_filter (e_peer_objs e1) (e_peers e1))
                     (sent, refused) e1) of
          ((sent', refused'), e2) \<Rightarrow>
        upd_stats (\<lambda>s. s\<lparr>region_invalidates_sent := region_invalidates_sent s + word_of_nat sent',
          region_invalidates_failed := region_invalidates_failed s + word_of_nat refused'\<rparr>) e2)"

definition deregister_memory :: "'w engine_env \<Rightarrow> region_id option \<Rightarrow> 'w engine \<Rightarrow> status \<times> 'w engine" where
  "deregister_memory env region e =
    (case region of
       None \<Rightarrow> (kInvalidArgument, e)
     | Some i \<Rightarrow>
        (case e_region_objs e i of
           None \<Rightarrow> (kInvalidArgument, e)
         | Some m \<Rightarrow>
            let e1 = e\<lparr>e_region_objs := (e_region_objs e)(i \<mapsto> retire m)\<rparr> in
            if region_busy e1 i then (kWouldBlock, e1)
            else (kOk, announce_invalid env m (e1\<lparr>e_regions := removeAll i (e_regions e1)\<rparr>))))"

text \<open>
  The last pointer to a region object goes: it is in no container of the engine and no request
  in flight holds it. Its registration goes with it if nothing else refers to that.
\<close>

definition drop_region :: "'w engine_env \<Rightarrow> region_id \<Rightarrow> 'w engine \<Rightarrow> 'w engine" where
  "drop_region env i e =
    (if i \<in> set (e_regions e) \<or> region_busy e i \<or> i \<notin> set (e_alive e) then e
     else case e_region_objs e i of
       None \<Rightarrow> e
     | Some m \<Rightarrow>
        let e1 = e\<lparr>e_alive := removeAll i (e_alive e)\<rparr> in
        if reg_in_use e1 (mr_reg m) \<or> (\<exists>r\<in>set (e_reg_cache e1). rg_id r = rg_id (mr_reg m)) then e1
        else release_registration env (mr_reg m) e1)"

end
