(* ===== verification/Hux_Peers.thy ===== *)
theory Hux_Peers
  imports Hux_Engine
begin

text \<open>
  Peers in core/engine_impl.cpp: the metadata an engine publishes, its envelope and the parser,
  the choice of the transports a peer is reached over, adding a peer, and importing the regions
  it exports.
\<close>

section \<open>Metadata\<close>

type_synonym offer = "string \<times> bytes"

definition kMetadataMagic :: u32 where "kMetadataMagic = 0x58554821"
definition kMetadataMajor :: u16 where "kMetadataMajor = 1"
definition kMetadataMinor :: u16 where "kMetadataMinor = 0"

definition encode_offer :: "offer \<Rightarrow> bytes" where
  "encode_offer m = put_u16 (word_of_nat (length (fst m))) @ string_bytes (fst m) @
     put_u16 (word_of_nat (length (snd m))) @ snd m"

definition encode_envelope :: "identity \<Rightarrow> offer list \<Rightarrow> bytes" where
  "encode_envelope i metas = encode_identity i @
     put_u16 (ucast (kMetadataMagic AND 0xffff)) @ put_u16 (ucast (drop_bit 16 kMetadataMagic AND 0xffff)) @
     put_u16 kMetadataMajor @ put_u16 kMetadataMinor @
     put_u16 (word_of_nat (length metas)) @ concat (map encode_offer metas)"

text \<open>Every transport that has dialling information, by name.\<close>

definition offers_of :: "'w engine_env \<Rightarrow> 'w \<Rightarrow> offer list" where
  "offers_of env w = List.map_filter
     (\<lambda>p. case po_local_metadata p w of Inl _ \<Rightarrow> None | Inr m \<Rightarrow> Some (pc_name (po_caps p), m))
     (env_providers env)"

definition local_metadata :: "'w engine_env \<Rightarrow> 'w engine \<Rightarrow> bytes result" where
  "local_metadata env e =
    (let metas = offers_of env (e_world e) in
     if metas = [] then Inl kInternal else Inr (encode_envelope (env_identity env) metas))"

text \<open>
  The loop over the offers: \<open>False\<close> when one of them runs past the end, otherwise where the
  reading stopped and what was read.
\<close>

primrec parse_offers :: "nat \<Rightarrow> bytes \<Rightarrow> nat \<Rightarrow> offer list \<Rightarrow> (bool \<times> nat \<times> offer list) option" where
  "parse_offers 0 bs pos parsed = Some (True, pos, parsed)"
| "parse_offers (Suc cnt) bs pos parsed =
    (if length bs < pos + 2 then Some (False, pos, parsed)
     else do {
       n \<leftarrow> get_u16 bs pos;
       (if length bs < pos + 2 + unat n + 2 then Some (False, pos + 2, parsed)
        else do {
          nm \<leftarrow> rd_range bs (pos + 2) (unat n);
          mlen \<leftarrow> get_u16 bs (pos + 2 + unat n);
          (if length bs < pos + 2 + unat n + 2 + unat mlen
           then Some (False, pos + 2 + unat n + 2, parsed)
           else do {
             m \<leftarrow> rd_range bs (pos + 2 + unat n + 2) (unat mlen);
             parse_offers cnt bs (pos + 2 + unat n + 2 + unat mlen) (parsed @ [(bytes_string nm, m)]) }) }) })"

text \<open>
  What \<open>add_peer\<close> reads before it dials: the peer's identity and place, the dialling blob to
  fall back on, and what the peer offers. Without the magic, the bytes are one transport's own
  blob.
\<close>

record peer_meta =
  pm_identity :: identity
  pm_locality :: locality
  pm_blob :: bytes
  pm_offered :: "offer list"

definition is_envelope :: "bytes \<Rightarrow> bool option" where
  "is_envelope bs =
    (if length bs < kIdentityBytes + 8 then Some False
     else do {
       lo \<leftarrow> get_u16 bs kIdentityBytes;
       hi \<leftarrow> get_u16 bs (kIdentityBytes + 2);
       Some ((ucast lo :: u32) OR push_bit 16 (ucast hi) = kMetadataMagic) })"

definition bare_meta :: "bytes \<Rightarrow> peer_meta" where
  "bare_meta bs = \<lparr>pm_identity = zero_identity, pm_locality = LC_kRemote, pm_blob = bs, pm_offered = []\<rparr>"

definition parse_metadata :: "identity \<Rightarrow> bytes \<Rightarrow> peer_meta result option" where
  "parse_metadata mine bs = do {
     env \<leftarrow> is_envelope bs;
     (if \<not> env then accept (bare_meta bs)
      else do {
        maj \<leftarrow> get_u16 bs (kIdentityBytes + 4);
        (if maj \<noteq> kMetadataMajor then refuse kUnsupported
         else do {
           pid \<leftarrow> decode_identity bs 0;
           (case pid of
              Inl _ \<Rightarrow> accept (bare_meta bs)
            | Inr i \<Rightarrow>
               (if length bs < kIdentityBytes + 8 + 2 then refuse kInvalidArgument
                else do {
                  cnt \<leftarrow> get_u16 bs (kIdentityBytes + 8);
                  (ok, pos, parsed) \<leftarrow> parse_offers (unat cnt) bs (kIdentityBytes + 8 + 2) [];
                  (if \<not> ok \<or> pos \<noteq> length bs then refuse kInvalidArgument
                   else accept \<lparr>pm_identity = i, pm_locality = locality_of mine i,
                          pm_blob = drop kIdentityBytes bs, pm_offered = parsed\<rparr>) })) }) }) }"

section \<open>Which transports reach a peer\<close>

definition suits :: "string \<Rightarrow> locality \<Rightarrow> bool" where
  "suits provider loc =
    (if provider = ''ipc'' then loc = LC_kSameHost \<or> loc = LC_kSameProcess
     else if provider = ''local'' then loc = LC_kSameProcess
     else True)"

definition family :: "string \<Rightarrow> string" where
  "family n = takeWhile (\<lambda>c. c \<noteq> CHR ''#'') n"

abbreviation prov_name :: "'w engine_env \<Rightarrow> nat \<Rightarrow> string" where
  "prov_name env j \<equiv> pc_name (po_caps (the_prov env j))"

fun provider_for_loop :: "'w engine_env \<Rightarrow> locality \<Rightarrow> nat list \<Rightarrow> nat option" where
  "provider_for_loop env loc [] = None"
| "provider_for_loop env loc (j # js) =
    (if prov_name env j = ''ipc'' \<or> (loc = LC_kSameProcess \<and> prov_name env j = ''local'')
     then Some j else provider_for_loop env loc js)"

definition provider_for :: "'w engine_env \<Rightarrow> locality \<Rightarrow> nat" where
  "provider_for env loc =
    (if loc = LC_kSameHost \<or> loc = LC_kSameProcess
     then (case provider_for_loop env loc [0 ..< length (env_providers env)] of Some j \<Rightarrow> j | None \<Rightarrow> 0)
     else 0)"

fun choose_loop :: "'w engine_env \<Rightarrow> peer_meta \<Rightarrow> nat list \<Rightarrow> (nat \<times> bytes) option" where
  "choose_loop env pm [] = None"
| "choose_loop env pm (j # js) =
    (if \<not> suits (prov_name env j) (pm_locality pm) then choose_loop env pm js
     else if pm_offered pm = [] then Some (j, pm_blob pm)
     else case map_of (pm_offered pm) (prov_name env j) of
       Some m \<Rightarrow> Some (j, m)
     | None \<Rightarrow> choose_loop env pm js)"

definition make_lane :: "'w engine_env \<Rightarrow> nat \<Rightarrow> conn_id \<Rightarrow> lane" where
  "make_lane env j c = \<lparr>ln_provider = j, ln_conn = c, ln_weight = relative_capacity (po_caps (the_prov env j))\<rparr>"

text \<open>The rest of the family; a lane that will not connect is left out.\<close>

fun sibling_lanes :: "'w engine_env \<Rightarrow> peer_meta \<Rightarrow> nat \<Rightarrow> nat list \<Rightarrow> lane list \<Rightarrow> 'w engine \<Rightarrow> lane list \<times> 'w engine" where
  "sibling_lanes env pm chosen [] lanes e = (lanes, e)"
| "sibling_lanes env pm chosen (j # js) lanes e =
    (if j = chosen \<or> \<not> suits (prov_name env j) (pm_locality pm) \<or>
        family (prov_name env j) \<noteq> family (prov_name env chosen)
     then sibling_lanes env pm chosen js lanes e
     else case map_of (pm_offered pm) (prov_name env j) of
       None \<Rightarrow> sibling_lanes env pm chosen js lanes e
     | Some m \<Rightarrow>
        (case call (po_connect (the_prov env j) m) e of
           (Inl _, e1) \<Rightarrow> sibling_lanes env pm chosen js lanes e1
         | (Inr c, e1) \<Rightarrow> sibling_lanes env pm chosen js (lanes @ [make_lane env j c]) e1))"

fun place_of :: "locality \<Rightarrow> peer_place" where
  "place_of LC_kSameEngine = PP_kSameProcess"
| "place_of LC_kSameProcess = PP_kSameProcess"
| "place_of LC_kSameHost = PP_kSameHost"
| "place_of LC_kRemote = PP_kAnotherHost"

definition path_of :: "string \<Rightarrow> path_kind" where
  "path_of n =
    (if n = ''local'' then PK_kSameProcess
     else if n = ''ipc'' then PK_kIpc
     else if family n = ''ucx'' then PK_kUcx
     else PK_kRdma)"

definition caps_for :: "'w engine_env \<Rightarrow> peer_meta \<Rightarrow> nat \<Rightarrow> lane list \<Rightarrow> 'w \<Rightarrow> peer_caps" where
  "caps_for env pm chosen lanes w = \<lparr>pcap_path = path_of (prov_name env chosen),
     pcap_place = place_of (pm_locality pm), pcap_provider = prov_name env chosen,
     pcap_qp_count = sum_list (map (\<lambda>l. po_qp_count (the_prov env (ln_provider l)) (ln_conn l) w) lanes),
     pcap_lane_count = word_of_nat (length lanes), pcap_remote_device_is_gpu = False,
     pcap_remote_max_registration_bytes =
       (case env_device env of None \<Rightarrow> 0 | Some d \<Rightarrow> dv_max_registration_bytes d)\<rparr>"

definition add_peer :: "'w engine_env \<Rightarrow> bytes \<Rightarrow> 'w engine \<Rightarrow> peer_id result \<times> 'w engine" where
  "add_peer env metadata e =
    (case parse_metadata (env_identity env) metadata of
       Some (Inr pm) \<Rightarrow>
         (case choose_loop env pm [0 ..< length (env_providers env)] of
            None \<Rightarrow> (Inl kUnsupported, e)
          | Some (chosen, m) \<Rightarrow>
             (case call (po_connect (the_prov env chosen) m) e of
                (Inl s, e1) \<Rightarrow> (Inl s, e1)
              | (Inr c, e1) \<Rightarrow>
                 (case sibling_lanes env pm chosen [0 ..< length (env_providers env)]
                         [make_lane env chosen c] e1 of (lanes, e2) \<Rightarrow>
                  let i = e_next_peer e2;
                      p = \<lparr>pr_id = i, pr_identity = pm_identity pm, pr_lanes = lanes,
                           pr_caps = caps_for env pm chosen lanes (e_world e2), pr_epoch = 0,
                           pr_connected = True\<rparr>
                  in (Inr i, e2\<lparr>e_next_peer := i + 1, e_peer_objs := (e_peer_objs e2)(i \<mapsto> p),
                                e_peers := e_peers e2 @ [i]\<rparr>))))
     | Some (Inl s) \<Rightarrow> (Inl s, e)
     | None \<Rightarrow> (Inl kInvalidArgument, e))"

section \<open>Importing\<close>

definition identified :: "identity \<Rightarrow> bool" where
  "identified i \<longleftrightarrow> id_host i \<noteq> 0 \<or> id_process i \<noteq> 0 \<or> id_engine i \<noteq> 0"

definition key_of :: "string \<Rightarrow> region_descriptor \<Rightarrow> u64 option" where
  "key_of name d = map_option pk_remote_key (List.find (\<lambda>k. pk_provider k = name) (rd_provider_keys d))"

definition lane_usable :: "'w engine_env \<Rightarrow> region_descriptor \<Rightarrow> lane \<Rightarrow> bool" where
  "lane_usable env d l \<longleftrightarrow> key_of (prov_name env (ln_provider l)) d \<noteq> None"

text \<open>The first lane's key replaces the unnamed one, if the first lane has a key.\<close>

definition with_primary_key :: "'w engine_env \<Rightarrow> lane list \<Rightarrow> region_descriptor \<Rightarrow> region_descriptor" where
  "with_primary_key env lanes d =
    (case lanes of
       [] \<Rightarrow> d
     | l # _ \<Rightarrow> (case key_of (prov_name env (ln_provider l)) d of
         None \<Rightarrow> d | Some k \<Rightarrow> d\<lparr>rd_remote_key := k\<rparr>))"

definition import_region :: "'w engine_env \<Rightarrow> peer_id \<Rightarrow> bytes \<Rightarrow> 'w engine \<Rightarrow> remote_region result \<times> 'w engine" where
  "import_region env pid descriptor e =
    (case (e_peer_objs e pid, decode_descriptor descriptor) of
       (Some p, Some (Inr d)) \<Rightarrow>
         if identified (pr_identity p) \<and> rd_origin d \<noteq> pr_identity p then (Inl kStaleGeneration, e)
         else if rd_provider_keys d \<noteq> [] \<and> \<not> (\<exists>l\<in>set (pr_lanes p). lane_usable env d l)
         then (Inl kUnsupported, e)
         else
           let d' = (if rd_provider_keys d = [] then d else with_primary_key env (pr_lanes p) d);
               r = new_remote_region d'
           in (Inr r, e\<lparr>e_remotes := ((pid, rd_region d'), r) #
                  filter (\<lambda>x. fst x \<noteq> (pid, rd_region d')) (e_remotes e)\<rparr>)
     | (Some p, Some (Inl s)) \<Rightarrow> (Inl s, e)
     | _ \<Rightarrow> (Inl kInvalidArgument, e))"

fun import_region_batch :: "'w engine_env \<Rightarrow> peer_id \<Rightarrow> bytes list \<Rightarrow> 'w engine \<Rightarrow> remote_region option list \<times> 'w engine" where
  "import_region_batch env pid [] e = ([], e)"
| "import_region_batch env pid (d # ds) e =
    (case import_region env pid d e of (r, e1) \<Rightarrow>
     case import_region_batch env pid ds e1 of (rs, e2) \<Rightarrow>
       ((case r of Inl _ \<Rightarrow> None | Inr x \<Rightarrow> Some x) # rs, e2))"

section \<open>The envelope\<close>

lemma length_encode_offer [codec_len, simp]: "length (encode_offer m) = length (fst m) + length (snd m) + 4"
  by (simp add: encode_offer_def)

definition offers_fit :: "offer list \<Rightarrow> bool" where
  "offers_fit ms \<longleftrightarrow> length ms < 2 ^ 16 \<and> (\<forall>m\<in>set ms. length (fst m) < 2 ^ 16 \<and> length (snd m) < 2 ^ 16)"

lemma parse_offers_step:
  assumes "length (fst m) < 2 ^ 16" "length (snd m) < 2 ^ 16"
  shows "parse_offers (Suc cnt) (pre @ encode_offer m @ post) (length pre) acc =
     parse_offers cnt ((pre @ encode_offer m) @ post) (length (pre @ encode_offer m)) (acc @ [m])"
proof -
  have u: "unat (word_of_nat (length (fst m)) :: u16) = length (fst m)"
    "unat (word_of_nat (length (snd m)) :: u16) = length (snd m)"
    using assms by (simp_all add: unat_u16_of_nat)
  have "get_u16 (pre @ encode_offer m @ post) (length pre) = Some (word_of_nat (length (fst m)))"
    "rd_range (pre @ encode_offer m @ post) (length pre + 2) (length (fst m)) = Some (string_bytes (fst m))"
    "get_u16 (pre @ encode_offer m @ post) (length pre + 2 + length (fst m)) = Some (word_of_nat (length (snd m)))"
    "rd_range (pre @ encode_offer m @ post) (length pre + 2 + length (fst m) + 2) (length (snd m)) = Some (snd m)"
    by (simp_all add: encode_offer_def codec_rt)
  moreover have "length pre + 2 + length (fst m) + 2 + length (snd m) = length (pre @ encode_offer m)"
    by simp
  ultimately show ?thesis
    by (simp only: parse_offers.simps u bind.bind_lunit bytes_string_bytes append_assoc) simp
qed

lemma parse_offers_rt:
  "\<forall>m\<in>set ms. length (fst m) < 2 ^ 16 \<and> length (snd m) < 2 ^ 16 \<Longrightarrow>
   parse_offers (length ms) (pre @ concat (map encode_offer ms)) (length pre) acc =
     Some (True, length (pre @ concat (map encode_offer ms)), acc @ ms)"
proof (induction ms arbitrary: pre acc)
  case (Cons m ms)
  then show ?case
    using parse_offers_step [of m "length ms" pre "concat (map encode_offer ms)" acc]
      Cons.IH [of "pre @ encode_offer m" "acc @ [m]"]
    by (simp del: parse_offers.simps)
qed simp

lemma parse_offers_safe: "parse_offers cnt bs pos acc \<noteq> None"
proof (induction cnt arbitrary: pos acc)
  case (Suc cnt)
  show ?case
  proof (cases "length bs < pos + 2")
    case False
    then obtain n where n: "get_u16 bs pos = Some n" using get_u16_in [of pos bs] by auto
    show ?thesis
    proof (cases "length bs < pos + 2 + unat n + 2")
      case len: False
      then obtain k where "get_u16 bs (pos + 2 + unat n) = Some k"
        using get_u16_in [of "pos + 2 + unat n" bs] by auto
      with False n len Suc show ?thesis by (auto simp del: not_None_eq)
    qed (use False n in simp)
  qed simp
qed simp

text \<open>The fixed part of the envelope, read back.\<close>

lemma magic_halves:
  "(ucast (ucast (kMetadataMagic AND 0xffff) :: u16) :: u32) OR
     push_bit 16 (ucast (ucast (drop_bit 16 kMetadataMagic AND 0xffff) :: u16)) = kMetadataMagic"
  by (simp add: kMetadataMagic_def)

lemma envelope_fields:
  fixes i metas
  defines "bs \<equiv> encode_envelope i metas"
  shows "is_envelope bs = Some True" "get_u16 bs (kIdentityBytes + 4) = Some kMetadataMajor"
    "decode_identity bs 0 = accept i" "get_u16 bs (kIdentityBytes + 8) = Some (word_of_nat (length metas))"
    "length bs = 34 + length (concat (map encode_offer metas))"
proof -
  show "is_envelope bs = Some True"
    using magic_halves by (simp add: bs_def encode_envelope_def is_envelope_def kIdentityBytes_def codec_rt)
  show "get_u16 bs (kIdentityBytes + 4) = Some kMetadataMajor"
    "get_u16 bs (kIdentityBytes + 8) = Some (word_of_nat (length metas))"
    "length bs = 34 + length (concat (map encode_offer metas))"
    by (simp_all add: bs_def encode_envelope_def kIdentityBytes_def codec_rt)
  show "decode_identity bs 0 = accept i"
    using decode_encode_identity [of 0 "[]"] by (simp add: bs_def encode_envelope_def)
qed

lemma parse_encode_envelope:
  assumes "offers_fit metas"
  shows "parse_metadata mine (encode_envelope i metas) =
    accept \<lparr>pm_identity = i, pm_locality = locality_of mine i,
            pm_blob = drop kIdentityBytes (encode_envelope i metas), pm_offered = metas\<rparr>"
proof -
  let ?pre = "encode_identity i @
     put_u16 (ucast (kMetadataMagic AND 0xffff)) @ put_u16 (ucast (drop_bit 16 kMetadataMagic AND 0xffff)) @
     put_u16 kMetadataMajor @ put_u16 kMetadataMinor @ put_u16 (word_of_nat (length metas))"
  have "parse_offers (length metas) (?pre @ concat (map encode_offer metas)) (length ?pre) [] =
      Some (True, length (?pre @ concat (map encode_offer metas)), [] @ metas)"
    using assms by (intro parse_offers_rt) (simp add: offers_fit_def)
  then have "parse_offers (length metas) (encode_envelope i metas) 34 [] =
      Some (True, length (encode_envelope i metas), metas)"
    by (simp add: encode_envelope_def)
  moreover have "unat (word_of_nat (length metas) :: u16) = length metas"
    using assms by (intro unat_u16_of_nat) (simp add: offers_fit_def)
  ultimately show ?thesis
    using envelope_fields [of i metas] by (simp add: parse_metadata_def kIdentityBytes_def)
qed

lemma is_envelope_safe: "is_envelope bs \<noteq> None"
  using get_u16_in [of 24 bs] get_u16_in [of 26 bs]
  by (auto simp: is_envelope_def kIdentityBytes_def)

lemma parse_metadata_safe: "parse_metadata mine bs \<noteq> None"
proof (cases "is_envelope bs = Some True")
  case True
  then have len: "32 \<le> length bs" by (auto simp: is_envelope_def kIdentityBytes_def split: if_splits)
  obtain mj where mj: "get_u16 bs 28 = Some mj" using len get_u16_in [of 28 bs] by auto
  obtain pid where pid: "decode_identity bs 0 = Some pid" using decode_identity_safe [of bs 0] by blast
  have cnt: "\<not> length bs < 34 \<Longrightarrow> \<exists>c. get_u16 bs 32 = Some c" using get_u16_in [of 32 bs] by auto
  have "\<forall>c. \<exists>ok pos parsed. parse_offers c bs 34 [] = Some (ok, pos, parsed)"
    using parse_offers_safe [of _ bs 34 "[]"] by auto
  then obtain f g h where "\<And>c. parse_offers c bs 34 [] = Some (f c, g c, h c)" by metis
  then show ?thesis
    using True mj pid cnt by (auto simp: parse_metadata_def kIdentityBytes_def split: sum.splits)
next
  case False
  then have "is_envelope bs = Some False" using is_envelope_safe [of bs] by (cases "is_envelope bs") auto
  then show ?thesis by (simp add: parse_metadata_def)
qed

section \<open>The lanes of a peer\<close>

definition lane_fits :: "'w engine_env \<Rightarrow> peer_meta \<Rightarrow> string \<Rightarrow> lane \<Rightarrow> bool" where
  "lane_fits env pm fam l \<longleftrightarrow> ln_provider l < length (env_providers env) \<and>
     suits (prov_name env (ln_provider l)) (pm_locality pm) \<and>
     family (prov_name env (ln_provider l)) = fam \<and>
     (pm_offered pm \<noteq> [] \<longrightarrow> prov_name env (ln_provider l) \<in> fst ` set (pm_offered pm))"

lemma choose_loop_sound:
  "choose_loop env pm js = Some (j, m) \<Longrightarrow>
   j \<in> set js \<and> suits (prov_name env j) (pm_locality pm) \<and>
   (if pm_offered pm = [] then m = pm_blob pm else (prov_name env j, m) \<in> set (pm_offered pm))"
  by (induction env pm js rule: choose_loop.induct)
    (auto split: if_splits option.splits dest: map_of_SomeD)

text \<open>
  The transport chosen is the first in preference order that suits and is offered: none before it
  can reach the peer.
\<close>

definition can_reach :: "'w engine_env \<Rightarrow> peer_meta \<Rightarrow> nat \<Rightarrow> bool" where
  "can_reach env pm j \<longleftrightarrow> suits (prov_name env j) (pm_locality pm) \<and>
     (pm_offered pm = [] \<or> prov_name env j \<in> fst ` set (pm_offered pm))"

lemma choose_loop_first:
  "choose_loop env pm js = Some (k, m) \<Longrightarrow>
   \<exists>pre post. js = pre @ k # post \<and> (\<forall>j\<in>set pre. \<not> can_reach env pm j)"
proof (induction js)
  case (Cons x js)
  show ?case
  proof (cases "can_reach env pm x")
    case True
    with Cons.prems have "k = x"
      by (auto simp: can_reach_def map_of_eq_None_iff split: if_splits option.splits)
    then show ?thesis by (intro exI [of _ "[]"] exI [of _ js]) simp
  next
    case False
    with Cons.prems have "choose_loop env pm js = Some (k, m)"
      by (auto simp: can_reach_def map_of_eq_None_iff split: if_splits option.splits
          dest!: map_of_SomeD intro: rev_image_eqI)
    from Cons.IH [OF this] False show ?thesis by (metis append_Cons set_ConsD)
  qed
qed simp

lemma choose_loop_least:
  assumes "choose_loop env pm [0 ..< n] = Some (k, m)" "j < k"
  shows "\<not> can_reach env pm j"
proof -
  obtain pre post where js: "[0 ..< n] = pre @ k # post" and pre: "\<forall>j\<in>set pre. \<not> can_reach env pm j"
    using choose_loop_first [OF assms(1)] by blast
  have len: "length pre < n" using arg_cong [OF js, of length] by simp
  then have "length pre = k" using arg_cong [OF js, of "\<lambda>xs. xs ! length pre"] by simp
  with assms(2) have "j = pre ! j" using arg_cong [OF js, of "\<lambda>xs. xs ! j"] len by (simp add: nth_append)
  with pre assms(2) \<open>length pre = k\<close> show ?thesis by (metis nth_mem)
qed

lemma sibling_lanes_sound:
  "sibling_lanes env pm chosen js lanes e = (lanes', e') \<Longrightarrow>
   distinct js \<Longrightarrow> \<forall>j\<in>set js. j < length (env_providers env) \<Longrightarrow>
   distinct (map ln_provider lanes) \<Longrightarrow>
   \<forall>l\<in>set lanes. ln_provider l \<in> set js \<longrightarrow> ln_provider l = chosen \<Longrightarrow>
   \<forall>l\<in>set lanes. lane_fits env pm (family (prov_name env chosen)) l \<Longrightarrow>
   distinct (map ln_provider lanes') \<and> (\<exists>ext. lanes' = lanes @ ext) \<and>
   (\<forall>l\<in>set lanes'. lane_fits env pm (family (prov_name env chosen)) l)"
proof (induction js arbitrary: lanes e)
  case (Cons j js)
  note IH = Cons.IH [OF _ _ _ Cons.prems(4) _ Cons.prems(6)]
  show ?case
  proof (cases "j = chosen \<or> \<not> suits (prov_name env j) (pm_locality pm) \<or>
        family (prov_name env j) \<noteq> family (prov_name env chosen) \<or>
        map_of (pm_offered pm) (prov_name env j) = None")
    case True
    with Cons.prems(1) have "sibling_lanes env pm chosen js lanes e = (lanes', e')"
      by (auto split: if_splits)
    with Cons.prems show ?thesis by (intro IH [of e]) auto
  next
    case False
    then obtain m where m: "map_of (pm_offered pm) (prov_name env j) = Some m" by blast
    obtain r e1 where c: "call (po_connect (the_prov env j) m) e = (r, e1)" by fastforce
    show ?thesis
    proof (cases r)
      case (Inl s)
      with False m c Cons.prems show ?thesis by (intro IH [of e1]) auto
    next
      case (Inr cn)
      have "j \<notin> ln_provider ` set lanes" using False Cons.prems(5) by auto
      moreover have "lane_fits env pm (family (prov_name env chosen)) (make_lane env j cn)"
        using False m Cons.prems(3)
        by (auto simp: lane_fits_def make_lane_def dest!: map_of_SomeD intro: rev_image_eqI)
      ultimately have "distinct (map ln_provider lanes') \<and> (\<exists>ext. lanes' = (lanes @ [make_lane env j cn]) @ ext) \<and>
         (\<forall>l\<in>set lanes'. lane_fits env pm (family (prov_name env chosen)) l)"
        using False m c Inr Cons.prems
        by (intro Cons.IH [of "lanes @ [make_lane env j cn]" e1]) (auto simp: make_lane_def)
      then show ?thesis by auto
    qed
  qed
qed simp

section \<open>Properties\<close>

text \<open>
  (C18) Round trip of the metadata: what an engine publishes is read back by \<open>add_peer\<close> as that
  engine's identity, the locality the reader computes from it, and every transport's dialling
  information under its name, whenever names, blobs and their number fit the 16-bit fields.
\<close>

theorem metadata_roundtrip:
  assumes "local_metadata env e = Inr bs" "offers_fit (offers_of env (e_world e))"
  shows "parse_metadata mine bs = accept \<lparr>pm_identity = env_identity env,
     pm_locality = locality_of mine (env_identity env), pm_blob = drop kIdentityBytes bs,
     pm_offered = offers_of env (e_world e)\<rparr>"
  using assms by (auto simp: local_metadata_def Let_def parse_encode_envelope split: if_splits)

text \<open>
  (C33) Reading metadata never leaves the buffer: for every sequence of bytes, the parser comes to
  a status or a result without a read outside them.
\<close>

theorem parse_metadata_memory_safe: "\<exists>res. parse_metadata mine bs = Some res"
  using parse_metadata_safe by blast

text \<open>
  (C19) A peer is reached only by transports that can reach it: when \<open>add_peer\<close> succeeds, the new
  peer is connected, carries the identity its metadata named, and has at least one lane. The first
  lane is the first transport, in the order the engine holds them, that suits where the peer is and
  is offered, and the one the peer's capabilities name; no transport before it can reach the peer.
  All lanes are different transports of its family, each suiting where the peer is and, when the
  metadata names transports, each offered by the peer.
\<close>

theorem add_peer_sound:
  assumes "add_peer env metadata e = (Inr i, e')"
  shows "\<exists>pm p. parse_metadata (env_identity env) metadata = accept pm \<and> e_peer_objs e' i = Some p \<and>
     i \<in> set (e_peers e') \<and> pr_connected p \<and> pr_id p = i \<and> pr_identity p = pm_identity pm \<and> pr_lanes p \<noteq> [] \<and>
     (let j = ln_provider (hd (pr_lanes p)) in pcap_provider (pr_caps p) = prov_name env j \<and>
        can_reach env pm j \<and> (\<forall>j'<j. \<not> can_reach env pm j')) \<and>
     distinct (map ln_provider (pr_lanes p)) \<and>
     (\<forall>l\<in>set (pr_lanes p). lane_fits env pm (family (pcap_provider (pr_caps p))) l)"
proof -
  from assms obtain pm chosen m where pm: "parse_metadata (env_identity env) metadata = accept pm"
    and ch: "choose_loop env pm [0 ..< length (env_providers env)] = Some (chosen, m)"
    by (auto simp: add_peer_def split: option.splits sum.splits)
  obtain r e1 where c: "call (po_connect (the_prov env chosen) m) e = (r, e1)" by fastforce
  with assms pm ch obtain cn where r: "r = Inr cn" by (cases r) (auto simp: add_peer_def)
  obtain lanes e2 where sl: "sibling_lanes env pm chosen [0 ..< length (env_providers env)]
      [make_lane env chosen cn] e1 = (lanes, e2)" by fastforce
  have fits: "lane_fits env pm (family (prov_name env chosen)) (make_lane env chosen cn)"
    using choose_loop_sound [OF ch]
    by (auto simp: lane_fits_def make_lane_def intro: rev_image_eqI split: if_splits)
  have l: "distinct (map ln_provider lanes)" "\<exists>ext. lanes = [make_lane env chosen cn] @ ext"
    "\<forall>l\<in>set lanes. lane_fits env pm (family (prov_name env chosen)) l"
    using sibling_lanes_sound [OF sl] fits by (auto simp: make_lane_def)
  from assms pm ch c r sl have "i = e_next_peer e2" and e': "e' = e2\<lparr>e_next_peer := e_next_peer e2 + 1,
      e_peer_objs := (e_peer_objs e2)(e_next_peer e2 \<mapsto> \<lparr>pr_id = i, pr_identity = pm_identity pm, pr_lanes = lanes,
         pr_caps = caps_for env pm chosen lanes (e_world e2), pr_epoch = 0, pr_connected = True\<rparr>),
      e_peers := e_peers e2 @ [e_next_peer e2]\<rparr>"
    by (auto simp: add_peer_def Let_def)
  have first: "ln_provider (hd lanes) = chosen" "can_reach env pm chosen" "\<forall>j<chosen. \<not> can_reach env pm j"
    using l(2) choose_loop_sound [OF ch] choose_loop_least [OF ch]
    by (auto simp: make_lane_def can_reach_def intro: rev_image_eqI)
  with e' l pm \<open>i = e_next_peer e2\<close> show ?thesis by (auto simp: caps_for_def Let_def)
qed

definition near_env :: "local_world engine_env" where
  "near_env = sample_env\<lparr>env_identity := \<lparr>id_host = 1, id_process = 2, id_engine = 3\<rparr>\<rparr>"

definition near_identity :: identity where
  "near_identity = \<lparr>id_host = 1, id_process = 2, id_engine = 4\<rparr>"

definition near_meta :: bytes where
  "near_meta = encode_envelope near_identity [(''local'', [])]"

lemma near_parse: "parse_metadata (env_identity near_env) near_meta = accept \<lparr>pm_identity = near_identity,
   pm_locality = LC_kSameProcess, pm_blob = drop kIdentityBytes near_meta, pm_offered = [(''local'', [])]\<rparr>"
  using parse_encode_envelope [of "[(''local'', [])]" "env_identity near_env" near_identity]
  by (simp add: near_meta_def offers_fit_def near_env_def near_identity_def locality_of_def)

lemma near_providers: "env_providers near_env = [local_ops 0]" "pc_name (po_caps (local_ops 0)) = ''local''"
  by (simp_all add: near_env_def sample_env_def local_ops_def local_caps_def)

theorem metadata_roundtrip_witness:
  "\<exists>bs. local_metadata near_env sample_engine = Inr bs \<and>
     parse_metadata near_identity bs = accept \<lparr>pm_identity = env_identity near_env,
       pm_locality = LC_kSameProcess, pm_blob = drop kIdentityBytes bs,
       pm_offered = offers_of near_env (e_world sample_engine)\<rparr>"
proof -
  have o: "\<exists>m. offers_of near_env (e_world sample_engine) = [(''local'', m)] \<and> length m < 2 ^ 16"
    by (simp add: offers_of_def near_providers map_filter_simps local_ops_def local_caps_def)
  then obtain bs where bs: "local_metadata near_env sample_engine = Inr bs"
    by (auto simp: local_metadata_def Let_def)
  from o have "offers_fit (offers_of near_env (e_world sample_engine))" by (auto simp: offers_fit_def)
  from metadata_roundtrip [OF bs this, of near_identity] bs show ?thesis
    by (simp add: near_env_def near_identity_def locality_of_def)
qed

lemma near_added: "\<exists>e'. add_peer near_env near_meta sample_engine = (Inr 1, e')"
  by (simp add: add_peer_def near_parse near_providers suits_def call_def local_ops_def local_connect_def local_caps_def
      sample_engine_def new_engine_def)

theorem add_peer_sound_witness:
  "\<exists>e' p. add_peer near_env near_meta sample_engine = (Inr 1, e') \<and> e_peer_objs e' 1 = Some p \<and>
     pr_identity p = near_identity \<and> pr_lanes p \<noteq> []"
proof -
  obtain e' where e': "add_peer near_env near_meta sample_engine = (Inr 1, e')" using near_added by blast
  from add_peer_sound [OF this] near_parse show ?thesis using e' by auto
qed

lemma primary_key_keeps:
  "rd_region (with_primary_key env ls d) = rd_region d"
  "rd_provider_keys (with_primary_key env ls d) = rd_provider_keys d"
  "rd_base (with_primary_key env ls d) = rd_base d" "rd_length (with_primary_key env ls d) = rd_length d"
  "rd_access (with_primary_key env ls d) = rd_access d"
  by (simp_all add: with_primary_key_def split: list.splits option.splits)

lemma primary_key_is:
  "rd_remote_key (if rd_provider_keys d = [] then d else with_primary_key env ls d) =
    (case ls of
       [] \<Rightarrow> rd_remote_key d
     | l # _ \<Rightarrow>
        (case List.find (\<lambda>k. pk_provider k = prov_name env (ln_provider l)) (rd_provider_keys d) of
           None \<Rightarrow> rd_remote_key d
         | Some k \<Rightarrow> pk_remote_key k))"
  by (simp add: with_primary_key_def key_of_def split: list.splits option.splits)

lemma lane_usable_iff:
  "lane_usable env d l \<longleftrightarrow> (\<exists>k\<in>set (rd_provider_keys d). pk_provider k = prov_name env (ln_provider l))"
  by (auto simp: lane_usable_def key_of_def find_None_iff)

text \<open>
  (C20) Importing: through a peer that was identified, a region of another origin is refused as
  stale; a descriptor that names keys, but none for a lane of the peer, is refused as unsupported;
  nothing else is refused once the descriptor decodes, and a refusal leaves the engine as it was.
  The region handed back is what the peer's id and the region's id look up from then on, valid, with
  the range, access and keys of the descriptor. Its primary key is the one the descriptor names for
  the transport of the peer's first lane, and the descriptor's own where it names none. No other
  import changes.
\<close>

theorem import_region_sound:
  assumes "e_peer_objs e pid = Some p" "decode_descriptor bs = accept d"
  shows "case import_region env pid bs e of
     (Inl s, e') \<Rightarrow> e' = e \<and>
        (if identified (pr_identity p) \<and> rd_origin d \<noteq> pr_identity p then s = kStaleGeneration
         else s = kUnsupported \<and> rd_provider_keys d \<noteq> [] \<and>
           (\<forall>l\<in>set (pr_lanes p). \<forall>k\<in>set (rd_provider_keys d). pk_provider k \<noteq> prov_name env (ln_provider l)))
   | (Inr r, e') \<Rightarrow> (identified (pr_identity p) \<longrightarrow> rd_origin d = pr_identity p) \<and>
        find_remote pid (rd_region d) e' = Some r \<and> rr_valid r \<and>
        rd_provider_keys (rr_desc r) = rd_provider_keys d \<and> rd_base (rr_desc r) = rd_base d \<and>
        rd_length (rr_desc r) = rd_length d \<and> rd_access (rr_desc r) = rd_access d \<and>
        (rd_provider_keys d \<noteq> [] \<longrightarrow> (\<exists>l\<in>set (pr_lanes p). \<exists>k.
           remote_key_for r (prov_name env (ln_provider l)) = Some k)) \<and>
        rd_remote_key (rr_desc r) =
          (case pr_lanes p of
             [] \<Rightarrow> rd_remote_key d
           | l # _ \<Rightarrow>
              (case List.find (\<lambda>k. pk_provider k = prov_name env (ln_provider l)) (rd_provider_keys d) of
                 None \<Rightarrow> rd_remote_key d
               | Some k \<Rightarrow> pk_remote_key k)) \<and>
        (\<forall>k. (k :: peer_id \<times> region_id) \<noteq> (pid, rd_region d) \<longrightarrow>
           find_remote (fst k) (snd k) e' = find_remote (fst k) (snd k) e)"
proof -
  have m: "map_of (filter (\<lambda>x. fst x \<noteq> (pid, r)) xs) k = map_of xs k"
    if "k \<noteq> (pid, r)" for r k and xs :: "((peer_id \<times> region_id) \<times> remote_region) list"
    using that by (induction xs) auto
  have k: "lane_usable env d l \<Longrightarrow> rd_provider_keys d = rd_provider_keys (rr_desc r) \<Longrightarrow>
      \<exists>k. remote_key_for r (prov_name env (ln_provider l)) = Some k" for l r
    by (auto simp: lane_usable_def key_of_def remote_key_for_def)
  show ?thesis
  proof (cases "(identified (pr_identity p) \<and> rd_origin d \<noteq> pr_identity p) \<or>
        (rd_provider_keys d \<noteq> [] \<and> \<not> (\<exists>l\<in>set (pr_lanes p). lane_usable env d l))")
    case True
    with assms show ?thesis by (auto simp: import_region_def lane_usable_iff)
  next
    case False
    define d' where "d' = (if rd_provider_keys d = [] then d else with_primary_key env (pr_lanes p) d)"
    have same: "rd_region d' = rd_region d" "rd_provider_keys d' = rd_provider_keys d" "rd_base d' = rd_base d"
      "rd_length d' = rd_length d" "rd_access d' = rd_access d"
      by (simp_all add: d'_def primary_key_keeps)
    have "import_region env pid bs e = (Inr (new_remote_region d'), e\<lparr>e_remotes :=
        ((pid, rd_region d'), new_remote_region d') # filter (\<lambda>x. fst x \<noteq> (pid, rd_region d')) (e_remotes e)\<rparr>)"
      using False assms by (auto simp: import_region_def d'_def Let_def)
    moreover have "rd_provider_keys d \<noteq> [] \<longrightarrow> (\<exists>l\<in>set (pr_lanes p). \<exists>k.
           remote_key_for (new_remote_region d') (prov_name env (ln_provider l)) = Some k)"
      using False same(2) k [of _ "new_remote_region d'"] unfolding new_remote_region_def
      by (simp del: not_None_eq) blast
    ultimately show ?thesis
      using False primary_key_is [of d env "pr_lanes p", folded d'_def]
      by (simp add: find_remote_def same m new_remote_region_def)
  qed
qed

theorem import_region_sound_witness:
  "\<exists>r e'. import_region near_env 1 (export_descriptor sample_region)
     (sample_engine\<lparr>e_peer_objs := [1 \<mapsto> \<lparr>pr_id = 1, pr_identity = mr_origin sample_region,
        pr_lanes = sample_lanes, pr_caps = undefined, pr_epoch = 0, pr_connected = True\<rparr>]\<rparr>) = (Inr r, e') \<and>
     find_remote 1 (mr_id sample_region) e' = Some r"
proof -
  let ?p = "\<lparr>pr_id = 1, pr_identity = mr_origin sample_region,
        pr_lanes = sample_lanes, pr_caps = undefined, pr_epoch = 0, pr_connected = True\<rparr>"
  let ?e = "sample_engine\<lparr>e_peer_objs := [1 \<mapsto> ?p]\<rparr>"
  have d: "decode_descriptor (export_descriptor sample_region) = accept (region_descriptor_of sample_region)"
    unfolding export_descriptor_def
    by (rule decode_encode_descriptor) (simp add: descriptor_ok_def region_descriptor_of_def sample_region_def
        sample_registration_def host_device_def device_kind_named_def keys_fit_def)
  have "lane_usable near_env (region_descriptor_of sample_region) (hd sample_lanes)"
    by (simp add: lane_usable_def key_of_def sample_lanes_def near_providers region_descriptor_of_def
        sample_region_def sample_registration_def)
  then have "\<exists>r e'. import_region near_env 1 (export_descriptor sample_region) ?e = (Inr r, e')"
    by (simp add: import_region_def d sample_lanes_def Let_def region_descriptor_of_def)
  then obtain r e' where i: "import_region near_env 1 (export_descriptor sample_region) ?e = (Inr r, e')" by blast
  have "e_peer_objs ?e 1 = Some ?p" by simp
  from import_region_sound [OF this d, of near_env] i show ?thesis
    by (simp add: region_descriptor_of_def)
qed

end
