(* ===== verification/Hux_Invariant.thy ===== *)
theory Hux_Invariant
  imports Hux_Registry Hux_Peers
begin

text \<open>
  The invariant of the engine's transfer path over transports that keep their contract. Every
  sub-operation a request was built into is in one of three places: in a part still to be posted,
  with a transport, or completed; a request is in \<open>inflight_\<close> exactly while one of the first two
  is left of it. \<open>Q\<close> are parts a pass has taken out of \<open>pending_\<close> and \<open>E\<close> completions that
  have been polled and not handled yet, so that the invariant also holds in the middle of a
  method.
\<close>

section \<open>What is left of a request\<close>

text \<open>The sub-operations of request \<open>i\<close> among \<open>M\<close>, and the sizes of its parts among \<open>W\<close>.\<close>

definition due :: "(request_id \<times> u64) multiset \<Rightarrow> request_id \<Rightarrow> nat" where
  "due M i = size (filter_mset (\<lambda>k. fst k = i) M)"

definition parts_of :: "pending_submit multiset \<Rightarrow> request_id \<Rightarrow> nat multiset" where
  "parts_of W i = image_mset (\<lambda>p. length (ps_ops p)) (filter_mset (\<lambda>p. ps_req p = i) W)"

lemma due_simps [simp]:
  "due {#} i = 0" "due (M + N) i = due M i + due N i"
  "due (add_mset k M) i = (if fst k = i then Suc (due M i) else due M i)"
  by (simp_all add: due_def)

lemma parts_of_simps [simp]:
  "parts_of {#} i = {#}" "parts_of (V + W) i = parts_of V i + parts_of W i"
  "parts_of (add_mset p W) i = (if ps_req p = i then add_mset (length (ps_ops p)) (parts_of W i) else parts_of W i)"
  by (simp_all add: parts_of_def)

lemma due_keys: "(\<forall>op\<in>set ops. so_request op = i) \<Longrightarrow>
    due (image_mset so_key (mset ops)) j = (if j = i then length ops else 0)"
  by (induction ops) (auto simp: so_key_def)

definition live_ok :: "request \<Rightarrow> nat multiset \<Rightarrow> nat \<Rightarrow> bool" where
  "live_ok r P k \<longleftrightarrow> \<not> terminal r \<and>
     unat (rq_completed r) + k = unat (rq_accepted r) \<and>
     unat (rq_accepted r) + sum_mset P \<le> unat (rq_total r) \<and>
     (\<not> abandoning r \<longrightarrow> unat (rq_accepted r) + sum_mset P = unat (rq_total r)) \<and>
     unat (rq_parts_left r) = size P \<and>
     (rq_sealed r \<longrightarrow> P = {#} \<and> abandoning r) \<and>
     (P = {#} \<longrightarrow> rq_sealed r \<or> unat (rq_accepted r) = unat (rq_total r)) \<and>
     unat (rq_completed r) < (if rq_sealed r then unat (rq_accepted r) else unat (rq_total r))"

text \<open>
  A request that has ended has nothing with a transport, unless it failed because its peer went:
  the transports may still report what they had of it.
\<close>

definition stranded :: "(peer_id \<rightharpoonup> peer) \<Rightarrow> request \<Rightarrow> bool" where
  "stranded peers r \<longleftrightarrow> rq_state r = RS_kFailed \<and> (\<exists>p. peers (rq_peer r) = Some p \<and> \<not> pr_connected p)"

definition slot_ok :: "(request_id \<times> u64) multiset \<Rightarrow> pending_submit multiset \<Rightarrow> 'w engine \<Rightarrow> request_id \<Rightarrow> bool" where
  "slot_ok M W e i =
    (case e_reqs e i of
       None \<Rightarrow> i \<notin> set (e_inflight e) \<and> due M i = 0 \<and> parts_of W i = {#}
     | Some r \<Rightarrow> rq_id r = i \<and>
        (if i \<in> set (e_inflight e) then live_ok r (parts_of W i) (due M i)
         else (due M i = 0 \<or> stranded (e_peer_objs e) r) \<and> (parts_of W i = {#} \<or> terminal r)))"

section \<open>The invariant\<close>

definition part_ok :: "nat \<Rightarrow> pending_submit \<Rightarrow> bool" where
  "part_ok n p \<longleftrightarrow> ps_ops p \<noteq> [] \<and> ps_provider p < n \<and> (\<forall>op\<in>set (ps_ops p). so_request op = ps_req p)"

definition wiring_ok :: "nat \<Rightarrow> pending_submit multiset \<Rightarrow> 'w engine \<Rightarrow> bool" where
  "wiring_ok n W e \<longleftrightarrow> (\<forall>p\<in>#W. part_ok n p) \<and>
     (\<forall>i p. e_peer_objs e i = Some p \<longrightarrow> pr_id p = i \<and> (\<forall>l\<in>set (pr_lanes p). ln_provider l < n)) \<and>
     (\<forall>i r j. e_reqs e i = Some r \<longrightarrow> rq_provider r = Some j \<longrightarrow> j < n)"

definition ids_ok :: "'w engine \<Rightarrow> bool" where
  "ids_ok e \<longleftrightarrow> distinct (e_inflight e) \<and>
     (\<forall>i r. e_reqs e i = Some r \<longrightarrow> i < e_next_request e) \<and>
     (\<forall>i p. e_peer_objs e i = Some p \<longrightarrow> i < e_next_peer e) \<and>
     (\<forall>x\<in>set (e_notify_pending e). e_reqs e (snd x) \<noteq> None \<and> snd x \<notin> set (e_inflight e))"

definition ended :: "engine_stats \<Rightarrow> u64" where
  "ended s = requests_succeeded s + requests_failed s + requests_cancelled s"

definition stats_ok :: "'w engine \<Rightarrow> bool" where
  "stats_ok e \<longleftrightarrow>
     requests_accepted (e_stats e) = ended (e_stats e) + word_of_nat (length (e_inflight e))"

definition core_inv :: "nat \<Rightarrow> (request_id \<times> u64) multiset \<Rightarrow> pending_submit multiset \<Rightarrow> 'w engine \<Rightarrow> bool" where
  "core_inv n M W e \<longleftrightarrow> (\<forall>i. slot_ok M W e i) \<and> wiring_ok n W e \<and> ids_ok e \<and> stats_ok e"

definition engine_inv ::
  "'w engine_env \<Rightarrow> ('w \<Rightarrow> bool) \<Rightarrow> ('w \<Rightarrow> (request_id \<times> u64) multiset) \<Rightarrow> pending_submit multiset \<Rightarrow>
   completion_event list \<Rightarrow> 'w engine \<Rightarrow> bool" where
  "engine_inv env winv outs Q E e \<longleftrightarrow> winv (e_world e) \<and>
     core_inv (length (env_providers env)) (outs (e_world e) + mset (map ce_key E)) (mset (e_pending e) + Q) e"

text \<open>The part of the state the invariant reads, apart from the world and the parts.\<close>

definition acct :: "engine_stats \<Rightarrow> u64 \<times> u64" where
  "acct s = (requests_accepted s, ended s)"

definition core :: "'w engine \<Rightarrow> _" where
  "core e = (e_reqs e, e_inflight e, e_next_request e, e_peer_objs e, e_next_peer e, e_notify_pending e,
     acct (e_stats e))"

lemma core_inv_cong:
  assumes "core e' = core e"
  shows "core_inv n M W e' = core_inv n M W e"
proof -
  have "e_reqs e' = e_reqs e" "e_inflight e' = e_inflight e" "e_next_request e' = e_next_request e"
    "e_peer_objs e' = e_peer_objs e" "e_next_peer e' = e_next_peer e" "e_notify_pending e' = e_notify_pending e"
    "requests_accepted (e_stats e') = requests_accepted (e_stats e)" "ended (e_stats e') = ended (e_stats e)"
    using assms by (simp_all add: core_def acct_def)
  then show ?thesis
    by (simp only: core_inv_def slot_ok_def wiring_ok_def ids_ok_def stats_ok_def)
qed

lemma engine_inv_cong:
  assumes "core e' = core e" "e_pending e' = e_pending e" "winv (e_world e')" "outs (e_world e') = outs (e_world e)"
    "engine_inv env winv outs Q E e"
  shows "engine_inv env winv outs Q E e'"
  using assms core_inv_cong [OF assms(1)] by (simp add: engine_inv_def)

section \<open>Operations that leave the invariant's part of the state alone\<close>

lemma core_simps [simp]:
  "core (e\<lparr>e_completed := a\<rparr>) = core e" "core (e\<lparr>e_notifications := b\<rparr>) = core e"
  "core (e\<lparr>e_ready_events := c\<rparr>) = core e" "core (e\<lparr>e_remotes := d\<rparr>) = core e"
  "core (e\<lparr>e_world := w\<rparr>) = core e" "core (e\<lparr>e_region_objs := f\<rparr>) = core e" "core (e\<lparr>e_regions := g\<rparr>) = core e"
  "core (e\<lparr>e_alive := g\<rparr>) = core e" "core (e\<lparr>e_reg_cache := h\<rparr>) = core e" "core (e\<lparr>e_next_reg := k\<rparr>) = core e"
  "core (e\<lparr>e_released := l\<rparr>) = core e" "core (e\<lparr>e_next_region := m\<rparr>) = core e" "core (e\<lparr>e_closed := q\<rparr>) = core e"
  "core (e\<lparr>e_next_notify := m\<rparr>) = core e" "core (e\<lparr>e_pending := p\<rparr>) = core e" "core (e\<lparr>e_rr_cursor := u\<rparr>) = core e"
  "core (e\<lparr>e_peers := v\<rparr>) = core e"
  by (simp_all add: core_def)

lemma core_upd_stats [simp]: "acct (f (e_stats e)) = acct (e_stats e) \<Longrightarrow> core (upd_stats f e) = core e"
  by (simp add: core_def upd_stats_def)

lemma upd_stats_fields [simp]:
  "e_world (upd_stats f e) = e_world e" "e_pending (upd_stats f e) = e_pending e"
  "e_reqs (upd_stats f e) = e_reqs e" "e_inflight (upd_stats f e) = e_inflight e"
  "e_next_request (upd_stats f e) = e_next_request e" "e_peer_objs (upd_stats f e) = e_peer_objs e"
  "e_next_peer (upd_stats f e) = e_next_peer e" "e_notify_pending (upd_stats f e) = e_notify_pending e"
  "e_stats (upd_stats f e) = f (e_stats e)"
  by (simp_all add: upd_stats_def)

lemma upd_req_fields [simp]:
  "e_world (upd_req i f e) = e_world e" "e_pending (upd_req i f e) = e_pending e"
  "e_reqs (upd_req i f e) = (e_reqs e)(i := map_option f (e_reqs e i))" "e_inflight (upd_req i f e) = e_inflight e"
  "e_next_request (upd_req i f e) = e_next_request e" "e_peer_objs (upd_req i f e) = e_peer_objs e"
  "e_next_peer (upd_req i f e) = e_next_peer e" "e_notify_pending (upd_req i f e) = e_notify_pending e"
  "e_stats (upd_req i f e) = e_stats e"
  by (simp_all add: upd_req_def)

lemma keep_completed_simps [simp]:
  "core (keep_completed env i e) = core e" "e_world (keep_completed env i e) = e_world e"
  "e_pending (keep_completed env i e) = e_pending e"
  by (simp_all add: keep_completed_def Let_def acct_def ended_def)

lemma publish_simps [simp]:
  "core (publish env i e) = core e" "e_world (publish env i e) = e_world e"
  "e_pending (publish env i e) = e_pending e"
  by (simp_all add: publish_def)

lemma keep_ready_simps [simp]:
  "core (keep_ready env ev e) = core e" "e_world (keep_ready env ev e) = e_world e"
  "e_pending (keep_ready env ev e) = e_pending e"
  by (simp_all add: keep_ready_def acct_def ended_def)

lemma core_fields:
  assumes "core e' = core e"
  shows "e_reqs e' = e_reqs e" "e_inflight e' = e_inflight e" "e_peer_objs e' = e_peer_objs e"
    "e_notify_pending e' = e_notify_pending e" "e_next_request e' = e_next_request e"
  using assms by (simp_all add: core_def)

section \<open>Updates of one request\<close>

lemma slot_cong:
  assumes "due M' j = due M j" "parts_of W' j = parts_of W j" "e_reqs e' j = e_reqs e j"
    "j \<in> set (e_inflight e') \<longleftrightarrow> j \<in> set (e_inflight e)" "e_peer_objs e' = e_peer_objs e"
  shows "slot_ok M' W' e' j = slot_ok M W e j"
  using assms by (cases "e_reqs e j") (simp_all add: slot_ok_def)

definition kept :: "(request \<Rightarrow> request) \<Rightarrow> bool" where
  "kept f \<longleftrightarrow> (\<forall>r. rq_id (f r) = rq_id r \<and> rq_peer (f r) = rq_peer r \<and> rq_provider (f r) = rq_provider r \<and>
     rq_held_regions (f r) = rq_held_regions r \<and> (rq_state r = RS_kFailed \<longrightarrow> rq_state (f r) = RS_kFailed) \<and>
     (terminal r \<longrightarrow> terminal (f r)))"

definition benign :: "(request \<Rightarrow> request) \<Rightarrow> bool" where
  "benign f \<longleftrightarrow> kept f \<and> (\<forall>r. rq_total (f r) = rq_total r \<and> rq_completed (f r) = rq_completed r \<and>
     rq_accepted (f r) = rq_accepted r \<and> rq_sealed (f r) = rq_sealed r \<and>
     rq_parts_left (f r) = rq_parts_left r \<and> (\<not> terminal r \<longrightarrow> \<not> terminal (f r)) \<and>
     (abandoning r \<longrightarrow> abandoning (f r)))"

lemma benign_live: "benign f \<Longrightarrow> live_ok r P k \<Longrightarrow> live_ok (f r) P k"
  unfolding benign_def live_ok_def by (auto split: if_splits)

lemma kept_stranded: "kept f \<Longrightarrow> stranded peers r \<Longrightarrow> stranded peers (f r)"
  by (simp add: kept_def stranded_def)

lemma wiring_ok_upd_req: "wiring_ok n W e \<Longrightarrow> kept f \<Longrightarrow> wiring_ok n W (upd_req i f e)"
  by (auto simp: wiring_ok_def kept_def)

lemma ids_ok_upd_req: "ids_ok e \<Longrightarrow> ids_ok (upd_req i f e)"
  by (auto simp: ids_ok_def)

lemma slot_ok_other [simp]: "j \<noteq> i \<Longrightarrow> slot_ok M W (upd_req i f e) j = slot_ok M W e j"
  by (rule slot_cong) simp_all

lemma core_inv_upd_req:
  assumes "core_inv n M W e" "kept f" "slot_ok M W (upd_req i f e) i"
  shows "core_inv n M W (upd_req i f e)"
proof -
  have "slot_ok M W (upd_req i f e) j" for j
    using assms by (cases "j = i") (simp_all add: core_inv_def)
  with assms show ?thesis
    by (simp add: core_inv_def stats_ok_def wiring_ok_upd_req ids_ok_upd_req)
qed

lemma upd_req_benign:
  assumes "core_inv n M W e" "benign f"
  shows "core_inv n M W (upd_req i f e)"
proof (rule core_inv_upd_req [OF assms(1)])
  show k: "kept f" using assms(2) by (simp add: benign_def)
  have "slot_ok M W e i" using assms(1) by (simp add: core_inv_def)
  then show "slot_ok M W (upd_req i f e) i"
    using benign_live [OF assms(2)] kept_stranded [OF k] k
    by (auto simp: slot_ok_def kept_def split: option.splits)
qed

lemma upd_req_ended:
  assumes "core_inv n M W e" "kept f" "i \<notin> set (e_inflight e)"
  shows "core_inv n M W (upd_req i f e)"
proof (rule core_inv_upd_req [OF assms(1,2)])
  have "slot_ok M W e i" using assms(1) by (simp add: core_inv_def)
  then show "slot_ok M W (upd_req i f e) i"
    using kept_stranded [OF assms(2)] assms(2,3)
    by (auto simp: slot_ok_def kept_def split: option.splits)
qed

lemmas request_ops = set_state_def note_error_def record_error_def cancel_def mark_stage_def fail_def
  finish_success_def finish_cancelled_def seal_accepted_def

lemma benign_ops:
  "\<not> is_terminal s \<Longrightarrow> benign (set_state s)" "benign (note_error err)" "benign (\<lambda>r. snd (cancel r))"
  "benign (mark_stage st)"
  by (auto simp: benign_def kept_def request_ops terminal_def is_terminal_def abandoning_def Let_def)

lemma benign_comp: "benign f \<Longrightarrow> benign g \<Longrightarrow> benign (\<lambda>r. f (g r))"
  by (simp add: benign_def kept_def)

lemma kept_ops:
  "kept (fail err)" "kept finish_success" "kept finish_cancelled" "kept (mark_stage st)" "kept seal_accepted"
  "kept (\<lambda>r. fail (g r) r)"
  by (simp_all add: kept_def request_ops terminal_def is_terminal_def Let_def)

lemma kept_comp: "kept f \<Longrightarrow> kept g \<Longrightarrow> kept (\<lambda>r. f (g r))"
  by (simp add: kept_def)

lemma ends_terminal: "terminal (fail err r)" "terminal (finish_success r)" "terminal (finish_cancelled r)"
  by (simp_all add: request_ops terminal_def is_terminal_def Let_def)

section \<open>Taking a request out of flight\<close>

text \<open>Ending: out of \<open>inflight_\<close>, counted once, marked, queued.\<close>

definition counts_one :: "(engine_stats \<Rightarrow> engine_stats) \<Rightarrow> bool" where
  "counts_one f \<longleftrightarrow> (\<forall>s. requests_accepted (f s) = requests_accepted s \<and> ended (f s) = ended s + 1)"

lemma counts_one_ops:
  "counts_one (\<lambda>s. s\<lparr>requests_cancelled := requests_cancelled s + 1\<rparr>)"
  "counts_one (\<lambda>s. s\<lparr>requests_failed := requests_failed s + 1\<rparr>)"
  "counts_one (\<lambda>s. s\<lparr>requests_succeeded := requests_succeeded s + 1\<rparr>)"
  by (simp_all add: counts_one_def ended_def)

lemma length_removeAll_distinct: "distinct xs \<Longrightarrow> i \<in> set xs \<Longrightarrow> Suc (length (removeAll i xs)) = length xs"
  by (induction xs) (auto simp: removeAll_id)

lemma core_inv_end:
  assumes slots: "\<forall>j. j \<noteq> i \<longrightarrow> slot_ok M W e j" and "wiring_ok n W e" "ids_ok e" "stats_ok e"
    and "i \<in> set (e_inflight e)" "due M i = 0" "counts_one f" "kept g"
    and r: "e_reqs e i = Some r" "rq_id r = i" "terminal (g r)"
  shows "core_inv n M W (upd_req i g (upd_stats f (e\<lparr>e_inflight := removeAll i (e_inflight e)\<rparr>)))" (is "core_inv n M W ?e")
proof -
  have "slot_ok M W ?e j" for j
    using slots [rule_format, of j] assms(6,8) r by (cases "j = i") (auto simp: slot_ok_def kept_def split: option.splits)
  moreover have "wiring_ok n W ?e" using assms(2,8) by (auto simp: wiring_ok_def kept_def)
  moreover have "ids_ok ?e" using assms(3) by (auto simp: ids_ok_def distinct_removeAll)
  moreover have "length (e_inflight e) = Suc (length (removeAll i (e_inflight e)))"
    using length_removeAll_distinct [of "e_inflight e" i] assms(3,5) by (simp add: ids_ok_def)
  then have "stats_ok ?e" using assms(4,7) by (simp add: stats_ok_def counts_one_def)
  ultimately show ?thesis by (simp add: core_inv_def)
qed

section \<open>A part has nothing left to post\<close>

definition closing_ok :: "request \<Rightarrow> nat multiset \<Rightarrow> nat \<Rightarrow> bool" where
  "closing_ok r P k \<longleftrightarrow> \<not> terminal r \<and>
     unat (rq_completed r) + k = unat (rq_accepted r) \<and>
     unat (rq_accepted r) + sum_mset P \<le> unat (rq_total r) \<and>
     (\<not> abandoning r \<longrightarrow> unat (rq_accepted r) + sum_mset P = unat (rq_total r)) \<and>
     unat (rq_parts_left r) = Suc (size P) \<and> \<not> rq_sealed r \<and>
     unat (rq_completed r) < unat (rq_total r)"

lemma end_abandoned_fields [simp]:
  "e_world (end_abandoned env i e) = e_world e" "e_pending (end_abandoned env i e) = e_pending e"
  by (simp_all add: end_abandoned_def claim_def count_cancelled_def count_failed_def split: option.split)

lemma part_done_fields [simp]:
  "e_world (part_done env i e) = e_world e" "e_pending (part_done env i e) = e_pending e"
  by (auto simp: part_done_def Let_def split: option.split prod.split)

lemma upd_req_const: "e_reqs e i = Some r \<Longrightarrow> upd_req i (\<lambda>_. f r) e = upd_req i f e"
  by (simp add: upd_req_def)

lemma upd_req_twice: "upd_req i g (upd_req i f e) = upd_req i (\<lambda>r. g (f r)) e"
  by (simp add: upd_req_def option.map_comp comp_def)

lemma end_abandoned_inv:
  assumes "\<forall>j. j \<noteq> i \<longrightarrow> slot_ok M W e j" "wiring_ok n W e" "ids_ok e" "stats_ok e"
    "i \<in> set (e_inflight e)" "due M i = 0" "e_reqs e i = Some r" "rq_id r = i"
  shows "core_inv n M W (end_abandoned env i e)"
proof -
  note end_one = core_inv_end [OF assms(1-6) _ _ assms(7,8)]
  show ?thesis
    using assms(5,7) end_one [OF counts_one_ops(1) kept_ops(3)] end_one [OF counts_one_ops(2) kept_ops(6)]
      ends_terminal
    by (simp add: end_abandoned_def claim_def count_cancelled_def count_failed_def core_inv_cong [OF publish_simps(1)])
qed

lemma not_mine: "i \<notin> set (e_inflight e) \<Longrightarrow> end_abandoned env i e = e"
  by (simp add: end_abandoned_def claim_def)

definition step_parts :: "request \<Rightarrow> request" where
  "step_parts r = snd (part_finished r)"

lemma step_parts_kept: "kept step_parts" "kept (\<lambda>r. snd (seal_if_idle (step_parts r)))"
  by (simp_all add: kept_def terminal_def step_parts_def part_finished_def seal_if_idle_def Let_def)

text \<open>What \<open>part_done\<close> comes to, case by case.\<close>

lemma part_done_cases:
  assumes "e_reqs e i = Some r"
  shows "part_done env i e =
    (if \<not> fst (part_finished r) \<or> \<not> abandoning (step_parts r) then upd_req i step_parts e
     else let e2 = upd_req i (\<lambda>r. snd (seal_if_idle (step_parts r))) e
          in if fst (seal_if_idle (step_parts r)) then end_abandoned env i e2 else e2)"
proof -
  have "upd_req i (\<lambda>_. snd (part_finished r)) e = upd_req i step_parts e"
    using assms by (simp add: upd_req_def step_parts_def)
  moreover have "upd_req i (\<lambda>_. snd (seal_if_idle (step_parts r))) (upd_req i step_parts e) =
      upd_req i (\<lambda>r. snd (seal_if_idle (step_parts r))) e"
    using assms by (simp add: upd_req_def)
  ultimately show ?thesis
    using assms by (simp add: part_done_def Let_def split_beta step_parts_def)
qed

lemma part_done_other:
  assumes "core_inv n M W e" "e_reqs e i = Some r" "i \<notin> set (e_inflight e)"
  shows "core_inv n M W (part_done env i e)"
  using upd_req_ended [OF assms(1) step_parts_kept(1) assms(3)]
    upd_req_ended [OF assms(1) step_parts_kept(2) assms(3)] assms(3)
  by (simp add: part_done_cases [OF assms(2)] Let_def not_mine)

lemma closing_step:
  assumes "closing_ok r P k"
  shows "unat (rq_parts_left (step_parts r)) = size P" "fst (part_finished r) \<longleftrightarrow> P = {#}"
    "rq_completed (step_parts r) = rq_completed r" "rq_accepted (step_parts r) = rq_accepted r"
    "rq_total (step_parts r) = rq_total r" "rq_sealed (step_parts r) = rq_sealed r"
    "terminal (step_parts r) = terminal r" "abandoning (step_parts r) = abandoning r"
proof -
  have pos: "rq_parts_left r > 0" using assms by (auto simp: closing_ok_def word_gt_0)
  then have "unat (rq_parts_left r - 1) = size P"
    using assms by (simp add: closing_ok_def unat_minus_one word_gt_0)
  with pos show "unat (rq_parts_left (step_parts r)) = size P" "fst (part_finished r) \<longleftrightarrow> P = {#}"
    by (auto simp: step_parts_def part_finished_def Let_def unat_eq_0)
qed (simp_all add: step_parts_def part_finished_def Let_def terminal_def abandoning_def)

lemma part_done_live:
  assumes slots: "\<forall>j. j \<noteq> i \<longrightarrow> slot_ok M W e j" and rest: "wiring_ok n W e" "ids_ok e" "stats_ok e"
    and i: "i \<in> set (e_inflight e)" "e_reqs e i = Some r" "rq_id r = i"
    and c: "closing_ok r (parts_of W i) (due M i)"
  shows "core_inv n M W (part_done env i e)"
proof -
  note st = closing_step [OF c]
  have upd: "core_inv n M W (upd_req i f e)" if "kept f" "live_ok (f r) (parts_of W i) (due M i)" for f
  proof -
    have "slot_ok M W (upd_req i f e) i" using that i by (simp add: slot_ok_def kept_def)
    then have "\<forall>j. slot_ok M W (upd_req i f e) j" using slots by (metis slot_ok_other)
    with that(1) rest show ?thesis
      by (simp add: core_inv_def wiring_ok_upd_req ids_ok_upd_req stats_ok_def)
  qed
  show ?thesis
  proof (cases "parts_of W i = {#} \<and> abandoning r")
    case False
    then have "live_ok (step_parts r) (parts_of W i) (due M i)"
      using c st by (auto simp: live_ok_def closing_ok_def)
    with False st upd [OF step_parts_kept(1)] show ?thesis by (auto simp: part_done_cases [OF i(2)])
  next
    case True
    let ?s = "\<lambda>r. snd (seal_if_idle (step_parts r))"
    have s: "rq_completed (?s r) = rq_completed r" "rq_accepted (?s r) = rq_accepted r" "rq_sealed (?s r)"
      "rq_total (?s r) = rq_total r" "rq_parts_left (?s r) = rq_parts_left (step_parts r)"
      "terminal (?s r) = terminal r" "abandoning (?s r) = abandoning r"
      using st by (simp_all add: seal_if_idle_def Let_def terminal_def abandoning_def)
    have idle: "fst (seal_if_idle (step_parts r)) \<longleftrightarrow> due M i = 0"
      using c st by (auto simp: seal_if_idle_def Let_def closing_ok_def word_le_nat_alt terminal_def)
    show ?thesis
    proof (cases "due M i = 0")
      case False
      then have "live_ok (?s r) (parts_of W i) (due M i)"
        using True c st s by (auto simp: live_ok_def closing_ok_def)
      with False True st idle upd [OF step_parts_kept(2)] show ?thesis
        by (simp add: part_done_cases [OF i(2)])
    next
      case z: True
      have "core_inv n M W (end_abandoned env i (upd_req i ?s e))"
        using slots rest i z step_parts_kept(2)
        by (intro end_abandoned_inv [of i M W _ n "?s r"] wiring_ok_upd_req ids_ok_upd_req)
          (auto simp: stats_ok_def kept_def)
      with z True st idle show ?thesis by (simp add: part_done_cases [OF i(2)])
    qed
  qed
qed

section \<open>Posting\<close>

lemma closing_of_live:
  "live_ok r (add_mset l P) k \<Longrightarrow> abandoning r \<Longrightarrow> l \<noteq> 0 \<Longrightarrow> closing_ok r P k"
  by (auto simp: live_ok_def closing_ok_def split: if_splits)

lemma unat_accept:
  "unat a + n \<le> unat (t :: u32) \<Longrightarrow> unat (a + word_of_nat n :: u32) = unat a + n"
proof -
  assume le: "unat a + n \<le> unat t"
  then have "n < 2 ^ 32" using unat_less [of t] by simp
  then have n: "unat (word_of_nat n :: u32) = n" by (simp add: unat_of_nat)
  then show ?thesis using le unat_less [of t] unat_add_small [of a "word_of_nat n"] by simp
qed

definition accept_subops :: "nat \<Rightarrow> request \<Rightarrow> request" where
  "accept_subops acc r = add_accepted_subops (word_of_nat acc) (set_state RS_kInflight r)"

lemma accept_subops_fields:
  "rq_completed (accept_subops acc r) = rq_completed r" "rq_total (accept_subops acc r) = rq_total r"
  "rq_sealed (accept_subops acc r) = rq_sealed r" "rq_parts_left (accept_subops acc r) = rq_parts_left r"
  "rq_accepted (accept_subops acc r) = rq_accepted r + word_of_nat acc"
  "terminal (accept_subops acc r) = terminal r" "abandoning (accept_subops acc r) = abandoning r"
  by (auto simp: accept_subops_def add_accepted_subops_def set_state_def terminal_def is_terminal_def abandoning_def)

lemma live_accept:
  assumes "live_ok r (add_mset l P) k" "\<not> abandoning r" "acc \<le> l"
  shows "acc < l \<Longrightarrow> live_ok (accept_subops acc r) (add_mset (l - acc) P) (k + acc)"
    "acc = l \<Longrightarrow> closing_ok (accept_subops acc r) P (k + acc)"
    "\<not> ei_ok err \<Longrightarrow>
       closing_ok (set_state RS_kDraining (note_error err (accept_subops acc r))) P (k + acc)"
proof -
  have sealed: "\<not> rq_sealed r" and nt: "\<not> terminal r" using assms(1) by (simp_all add: live_ok_def)
  have n: "unat (rq_completed r) + k = unat (rq_accepted r)"
    "unat (rq_accepted r) + (l + sum_mset P) = unat (rq_total r)"
    "unat (rq_parts_left r) = Suc (size P)" "unat (rq_completed r) < unat (rq_total r)"
    using assms(1,2) sealed by (simp_all add: live_ok_def)
  have u: "unat (rq_accepted r + word_of_nat acc) = unat (rq_accepted r) + acc"
    using n(2) assms(3) by (intro unat_accept [of _ _ "rq_total r"]) simp
  note f = accept_subops_fields u
  show "live_ok (accept_subops acc r) (add_mset (l - acc) P) (k + acc)" if "acc < l"
    unfolding live_ok_def f using sealed nt n that by (intro conjI impI) simp_all
  show "closing_ok (accept_subops acc r) P (k + acc)" if "acc = l"
    unfolding closing_ok_def f using sealed nt n that by (intro conjI impI) simp_all
  let ?r = "set_state RS_kDraining (note_error err (accept_subops acc r))"
  have "benign (\<lambda>r. set_state RS_kDraining (note_error err r))"
    by (rule benign_comp [OF benign_ops(1,2)]) (simp add: is_terminal_def)
  then have b: "rq_completed ?r = rq_completed r" "rq_accepted ?r = rq_accepted r + word_of_nat acc"
    "rq_total ?r = rq_total r" "rq_sealed ?r = rq_sealed r" "rq_parts_left ?r = rq_parts_left r" "\<not> terminal ?r"
    using nt by (simp_all add: benign_def accept_subops_fields)
  show "closing_ok ?r P (k + acc)" if "\<not> ei_ok err"
  proof -
    have "\<not> terminal (accept_subops acc r)" using nt by (simp add: accept_subops_fields)
    with that have "abandoning (note_error err (accept_subops acc r))"
      by (simp add: abandoning_def note_error_def record_error_def)
    then have "abandoning ?r"
      by (auto simp: abandoning_def set_state_def terminal_def is_terminal_def)
    then show ?thesis
      unfolding closing_ok_def b(1-5) u using sealed b(6) n assms(3) by (intro conjI impI) simp_all
  qed
qed

text \<open>The transports an engine is built over, each keeping the contract of the interface.\<close>

locale engine_transports =
  fixes env :: "'w engine_env"
    and winv :: "'w \<Rightarrow> bool"
    and outs :: "'w \<Rightarrow> (request_id \<times> u64) multiset"
  assumes contract: "p \<in> set (env_providers env) \<Longrightarrow> transport_provider p winv outs"
    and some_transport: "env_providers env \<noteq> []"
    and device_law: "env_device env = Some d \<Longrightarrow> winv w \<Longrightarrow> dv_record_event d w = (r, w') \<Longrightarrow>
      winv w' \<and> outs w' = outs w"
begin

lemma prov: "j < length (env_providers env) \<Longrightarrow> transport_provider (the_prov env j) winv outs"
  by (simp add: contract)

lemma prov0: "0 < length (env_providers env)"
  using some_transport by simp

lemma call_inv:
  assumes "engine_inv env winv outs Q E e" "call f e = (x, e')"
    "\<And>w'. f (e_world e) = (x, w') \<Longrightarrow> winv w' \<and> outs w' = outs (e_world e)"
  shows "engine_inv env winv outs Q E e'" "core e' = core e" "e_pending e' = e_pending e"
proof -
  obtain w' where w: "f (e_world e) = (x, w')" and e': "e' = e\<lparr>e_world := w'\<rparr>"
    using assms(2) by (auto simp: call_def split: prod.splits)
  show "core e' = core e" "e_pending e' = e_pending e" by (simp_all add: e')
  show "engine_inv env winv outs Q E e'"
    using assms(1,3) w by (intro engine_inv_cong [of e' e]) (auto simp: e')
qed

lemma winv_world: "engine_inv env winv outs Q E e \<Longrightarrow> winv (e_world e)"
  by (simp add: engine_inv_def)

lemma send_control_inv:
  assumes "engine_inv env winv outs Q E e" "j < length (env_providers env)"
    "call (po_send_control (the_prov env j) c t pl) e = (s, e')"
  shows "engine_inv env winv outs Q E e'" "core e' = core e" "e_pending e' = e_pending e"
  using call_inv [OF assms(1,3)] transport_provider.send_control_law [OF prov [OF assms(2)] winv_world [OF assms(1)]]
  by blast+

end

lemma wiring_ok_sub: "wiring_ok n (W + V) e \<Longrightarrow> wiring_ok n W e"
  by (simp add: wiring_ok_def)

lemma part_rest:
  assumes "core_inv n M (add_mset p W) e"
  shows "\<forall>j. j \<noteq> ps_req p \<longrightarrow> slot_ok M W e j" "wiring_ok n W e" "ids_ok e" "stats_ok e" "part_ok n p"
proof -
  have "slot_ok M W e j" if "j \<noteq> ps_req p" for j
    using assms that slot_cong [of M j M "add_mset p W" W e e] by (simp add: core_inv_def)
  then show "\<forall>j. j \<noteq> ps_req p \<longrightarrow> slot_ok M W e j" by blast
  show "wiring_ok n W e" using assms wiring_ok_sub [of n W "{#p#}" e] by (simp add: core_inv_def)
  show "ids_ok e" "stats_ok e" "part_ok n p" using assms by (simp_all add: core_inv_def wiring_ok_def)
qed

lemma part_taken:
  assumes "core_inv n M (add_mset p W) e"
  shows "\<exists>r. e_reqs e (ps_req p) = Some r \<and> rq_id r = ps_req p \<and>
    (if ps_req p \<in> set (e_inflight e)
     then live_ok r (add_mset (length (ps_ops p)) (parts_of W (ps_req p))) (due M (ps_req p))
     else terminal r \<and> core_inv n M W e)"
proof -
  have slot: "slot_ok M (add_mset p W) e (ps_req p)" using assms by (simp add: core_inv_def)
  then obtain r where r: "e_reqs e (ps_req p) = Some r" by (auto simp: slot_ok_def split: option.splits)
  show ?thesis
  proof (cases "ps_req p \<in> set (e_inflight e)")
    case True
    with slot r show ?thesis by (simp add: slot_ok_def)
  next
    case False
    then have "terminal r" "slot_ok M W e (ps_req p)" "rq_id r = ps_req p" using slot r by (auto simp: slot_ok_def)
    moreover from this part_rest [OF assms] have "core_inv n M W e" unfolding core_inv_def by metis
    ultimately show ?thesis using False r by simp
  qed
qed

text \<open>A part given up: whatever it had left is dropped.\<close>

lemma part_given_up:
  assumes inv: "core_inv n M (add_mset p W) e" and r: "e_reqs e (ps_req p) = Some r" "abandoning r"
  shows "core_inv n M W (part_done env (ps_req p) e)"
proof (cases "ps_req p \<in> set (e_inflight e)")
  case True
  then have l: "rq_id r = ps_req p" "live_ok r (add_mset (length (ps_ops p)) (parts_of W (ps_req p))) (due M (ps_req p))"
    using part_taken [OF inv] r by simp_all
  then have "closing_ok r (parts_of W (ps_req p)) (due M (ps_req p))"
    using r part_rest(5) [OF inv] by (intro closing_of_live) (auto simp: part_ok_def)
  with True l r part_rest [OF inv] show ?thesis by (intro part_done_live [of _ M W e n r])
next
  case False
  with part_taken [OF inv] r show ?thesis by (intro part_done_other [of n M W e _ r]) auto
qed

lemma core_inv_world [simp]: "core_inv n M W (e\<lparr>e_world := w\<rparr>) = core_inv n M W e"
  by (rule core_inv_cong) simp

lemma wiring_ok_world [simp]:
  "wiring_ok n W (e\<lparr>e_world := w\<rparr>) = wiring_ok n W e" "ids_ok (e\<lparr>e_world := w\<rparr>) = ids_ok e"
  "stats_ok (e\<lparr>e_world := w\<rparr>) = stats_ok e"
  by (simp_all add: wiring_ok_def ids_ok_def stats_ok_def)

lemma slot_ok_world [simp]: "slot_ok M W (e\<lparr>e_world := w\<rparr>) i = slot_ok M W e i"
  by (rule slot_cong) simp_all

text \<open>
  After a submission that took \<open>acc\<close> of a part's sub-operations: the state, with the sub-operations
  taken among those outstanding.
\<close>

lemma accepted_state:
  assumes inv: "core_inv n M (add_mset p W) e" and r: "e_reqs e (ps_req p) = Some r" "\<not> abandoning r"
    and acc: "acc \<le> length (ps_ops p)" and f: "kept f"
  defines "i \<equiv> ps_req p" and "M' \<equiv> M + image_mset so_key (mset (take acc (ps_ops p)))"
    and "e' \<equiv> upd_req (ps_req p) (\<lambda>r. f (accept_subops acc r)) e"
  shows "\<forall>j. j \<noteq> i \<longrightarrow> slot_ok M' W e' j" "wiring_ok n W e'" "ids_ok e'" "stats_ok e'" "i \<in> set (e_inflight e')"
    "e_reqs e' i = Some (f (accept_subops acc r))" "rq_id (f (accept_subops acc r)) = i"
    "live_ok r (add_mset (length (ps_ops p)) (parts_of W i)) (due M i)" "due M' i = due M i + acc"
proof -
  have k: "kept (\<lambda>r. f (accept_subops acc r))"
    using f by (rule kept_comp) (auto simp: kept_def accept_subops_def add_accepted_subops_def set_state_def
        terminal_def is_terminal_def)
  have "\<not> terminal r" using r by (simp add: abandoning_def)
  then have fl: "i \<in> set (e_inflight e)" and idr: "rq_id r = i"
    and live: "live_ok r (add_mset (length (ps_ops p)) (parts_of W i)) (due M i)"
    and others: "\<forall>j. j \<noteq> i \<longrightarrow> slot_ok M W e j" and rest: "wiring_ok n W e" "ids_ok e" "stats_ok e"
    and po: "part_ok n p"
    using part_taken [OF inv] part_rest [OF inv] r unfolding i_def by (simp_all split: if_splits)
  show "live_ok r (add_mset (length (ps_ops p)) (parts_of W i)) (due M i)" by (rule live)
  have "\<forall>op\<in>set (take acc (ps_ops p)). so_request op = i"
    using po by (auto simp: part_ok_def i_def dest: in_set_takeD)
  then have due: "due (image_mset so_key (mset (take acc (ps_ops p)))) j = (if j = i then acc else 0)" for j
    using acc due_keys [of "take acc (ps_ops p)" i j] by simp
  have "slot_ok M' W e' j" if "j \<noteq> i" for j
  proof -
    have "slot_ok M' W e' j = slot_ok M W e j"
      using that due [of j] by (intro slot_cong) (simp_all add: e'_def M'_def i_def)
    with others that show ?thesis by simp
  qed
  then show "\<forall>j. j \<noteq> i \<longrightarrow> slot_ok M' W e' j" by blast
  show "due M' i = due M i + acc" by (simp add: M'_def due)
  show "wiring_ok n W e'" "ids_ok e'" unfolding e'_def
    using rest k by (simp_all add: wiring_ok_upd_req ids_ok_upd_req)
  show "stats_ok e'" "i \<in> set (e_inflight e')" "e_reqs e' i = Some (f (accept_subops acc r))"
    using rest fl r by (simp_all add: e'_def i_def stats_ok_def)
  show "rq_id (f (accept_subops acc r)) = i" using k idr by (simp add: kept_def)
qed

lemma upd_req_world: "upd_req i f (e\<lparr>e_world := w\<rparr>) = (upd_req i f e)\<lparr>e_world := w\<rparr>"
  by (simp add: upd_req_def)

lemma quantum_le: "quantum mb ops t b \<le> t + length ops"
proof (induction mb ops t b rule: quantum.induct)
  case (2 mb op ops t b)
  then show ?case by (cases "0 < t \<and> b + so_length op > mb") auto
qed simp

text \<open>What posting comes to once the transport has answered.\<close>

lemma post_ops_eq:
  fixes mb p
  defines "offer \<equiv> take (quantum mb (ps_ops p) 0 0) (ps_ops p)"
  assumes "ps_ops p \<noteq> []" "e_reqs e (ps_req p) = Some r" "\<not> abandoning r"
    and sub: "po_submit (the_prov env (ps_provider p)) (Some (ps_conn p)) offer (e_world e) = (sr, w')"
    and acc: "sr_accepted sr = acc"
  defines "e3 \<equiv> (upd_req (ps_req p) (accept_subops acc) e)\<lparr>e_world := w'\<rparr>"
    and "p3 \<equiv> p\<lparr>ps_ops := drop acc (ps_ops p)\<rparr>"
  shows "post_ops env mb p e =
    (if acc < length offer \<and> sr_status sr = kWouldBlock
     then (False, p3, upd_stats (\<lambda>s. s\<lparr>submit_deferred := submit_deferred s + 1\<rparr>) e3)
     else if acc = length offer
     then (if drop acc (ps_ops p) \<noteq> [] then (False, p3, e3) else (True, p3, part_done env (ps_req p) e3))
     else (True, p3\<lparr>ps_ops := []\<rparr>, part_done env (ps_req p) (upd_req (ps_req p)
        (\<lambda>s. set_state RS_kDraining (note_error
           (submit_error env p sr (rq_accepted (accept_subops acc r))) s)) e3)))"
proof -
  have e3: "upd_req (ps_req p) (add_accepted_subops (word_of_nat acc))
      ((upd_req (ps_req p) (set_state RS_kInflight) e)\<lparr>e_world := w'\<rparr>) = e3"
    by (simp add: e3_def upd_req_world upd_req_twice accept_subops_def [abs_def])
  have "e_reqs e3 (ps_req p) = Some (accept_subops acc r)" by (simp add: e3_def assms(3))
  then show ?thesis
    using assms(2-4) sub acc e3 unfolding offer_def
    by (auto simp: post_ops_def call_def Let_def p3_def)
qed

text \<open>The part goes on: what is left of it waits for another turn.\<close>

lemma part_goes_on:
  assumes inv: "core_inv n M (add_mset p W) e" and r: "e_reqs e (ps_req p) = Some r" "\<not> abandoning r"
    and acc: "acc < length (ps_ops p)"
  shows "core_inv n (M + image_mset so_key (mset (take acc (ps_ops p))))
     (add_mset (p\<lparr>ps_ops := drop acc (ps_ops p)\<rparr>) W) (upd_req (ps_req p) (accept_subops acc) e)"
    (is "core_inv n ?M (add_mset ?p W) ?e")
proof -
  have k: "kept (\<lambda>r. r)" by (simp add: kept_def)
  have le: "acc \<le> length (ps_ops p)" using acc by simp
  note st = accepted_state [OF inv r le k]
  have "slot_ok ?M (add_mset ?p W) ?e j" for j
  proof (cases "j = ps_req p")
    case True
    then show ?thesis
      using r(1) st(5,7-9) live_accept(1) [OF st(8) r(2) le acc] by (simp add: slot_ok_def)
  next
    case False
    then have "slot_ok ?M (add_mset ?p W) ?e j = slot_ok ?M W ?e j" by (intro slot_cong) simp_all
    with st(1) False show ?thesis by simp
  qed
  moreover have "part_ok n ?p" using part_rest(5) [OF inv] acc by (auto simp: part_ok_def dest: in_set_dropD)
  ultimately show ?thesis using st(2-4) by (simp add: core_inv_def wiring_ok_def)
qed

text \<open>The part is over: all of it was taken, or the transport refused the rest for good.\<close>

lemma part_over:
  assumes inv: "core_inv n M (add_mset p W) e" and r: "e_reqs e (ps_req p) = Some r" "\<not> abandoning r"
    and acc: "acc \<le> length (ps_ops p)" and f: "kept f"
    and c: "\<And>k P. live_ok r (add_mset (length (ps_ops p)) P) k \<Longrightarrow> closing_ok (f (accept_subops acc r)) P (k + acc)"
  shows "core_inv n (M + image_mset so_key (mset (take acc (ps_ops p)))) W
     (part_done env (ps_req p) ((upd_req (ps_req p) (\<lambda>r. f (accept_subops acc r)) e)\<lparr>e_world := w\<rparr>))"
proof -
  note st = accepted_state [OF inv r acc f]
  show ?thesis
    using st(1-7) c [OF st(8)] st(9)
    by (intro part_done_live [of _ _ _ _ _ "f (accept_subops acc r)"]) simp_all
qed

context engine_transports
begin

lemma post_ops_inv:
  assumes inv: "engine_inv env winv outs (add_mset p Q) E e" and post: "post_ops env mb p e = (fin, p', e')"
  shows "engine_inv env winv outs (if fin then Q else add_mset p' Q) E e'" "e_pending e' = e_pending e"
proof -
  let ?n = "length (env_providers env)" and ?W = "mset (e_pending e) + Q"
  let ?M = "outs (e_world e) + mset (map ce_key E)" and ?i = "ps_req p"
  have core: "core_inv ?n ?M (add_mset p ?W) e" and w: "winv (e_world e)"
    using inv by (simp_all add: engine_inv_def)
  obtain r where r: "e_reqs e ?i = Some r" using part_taken [OF core] by blast
  have po: "ps_ops p \<noteq> []" "ps_provider p < ?n" using part_rest(5) [OF core] by (simp_all add: part_ok_def)
  have "engine_inv env winv outs (if fin then Q else add_mset p' Q) E e' \<and> e_pending e' = e_pending e"
  proof (cases "abandoning r")
    case True
    with post po r have "fin" "e' = part_done env ?i e" by (auto simp: post_ops_def)
    with part_given_up [OF core r True, of env] w show ?thesis by (simp add: engine_inv_def)
  next
    case False
    let ?slice = "take (quantum mb (ps_ops p) 0 0) (ps_ops p)"
    obtain sr w' where sub: "po_submit (the_prov env (ps_provider p)) (Some (ps_conn p)) ?slice (e_world e) = (sr, w')"
      by fastforce
    define acc where "acc = sr_accepted sr"
    note law = transport_provider.submit_law [OF prov [OF po(2)] w sub]
    have acc: "acc \<le> length ?slice" "acc \<le> length (ps_ops p)" using law by (simp_all add: acc_def)
    then have tk: "take acc ?slice = take acc (ps_ops p)" by simp
    let ?M' = "?M + image_mset so_key (mset (take acc (ps_ops p)))"
    have M': "outs w' + mset (map ce_key E) = ?M'"
      using law tk by (simp add: acc_def [symmetric] ac_simps)
    have w': "winv w'" using law by simp
    let ?e3 = "(upd_req ?i (accept_subops acc) e)\<lparr>e_world := w'\<rparr>"
    let ?p3 = "p\<lparr>ps_ops := drop acc (ps_ops p)\<rparr>"
    note eq = post_ops_eq [OF po(1) r False sub acc_def [symmetric]]
    have on: "acc < length (ps_ops p) \<Longrightarrow> engine_inv env winv outs (add_mset ?p3 Q) E ?e3"
      using part_goes_on [OF core r False, of acc] M' w' by (simp add: engine_inv_def ac_simps)
    have over: "engine_inv env winv outs Q E (part_done env ?i ((upd_req ?i (\<lambda>r. f (accept_subops acc r)) e)\<lparr>e_world := w'\<rparr>))"
      if "kept f" "\<And>k P. live_ok r (add_mset (length (ps_ops p)) P) k \<Longrightarrow> closing_ok (f (accept_subops acc r)) P (k + acc)" for f
      using part_over [OF core r False acc(2) that, of env w'] M' w' by (simp add: engine_inv_def ac_simps)
    show ?thesis
    proof (cases "acc = length ?slice")
      case all: True
      show ?thesis
      proof (cases "drop acc (ps_ops p) = []")
        case True
        then have "acc = length (ps_ops p)" using acc by simp
        then have "closing_ok (accept_subops acc r) P (k + acc)" if "live_ok r (add_mset (length (ps_ops p)) P) k" for k P
          using live_accept(2) [OF that False] by simp
        with over [of "\<lambda>r. r"] have "engine_inv env winv outs Q E (part_done env ?i ?e3)" by (simp add: kept_def)
        moreover have "fin" "e' = part_done env ?i ?e3"
          using post eq all True by simp_all
        ultimately show ?thesis by simp
      next
        case left: False
        then have "\<not> fin" "e' = ?e3" "p' = ?p3"
          using post eq all by simp_all
        with on left show ?thesis by simp
      qed
    next
      case short: False
      then have lt: "acc < length ?slice" using acc(1) by linarith
      show ?thesis
      proof (cases "sr_status sr = kWouldBlock")
        case True
        then have "\<not> fin" "p' = ?p3" "e' = upd_stats (\<lambda>s. s\<lparr>submit_deferred := submit_deferred s + 1\<rparr>) ?e3"
          using post eq lt True by simp_all
        moreover from on lt have "engine_inv env winv outs (add_mset ?p3 Q) E ?e3" by simp
        then have "engine_inv env winv outs (add_mset ?p3 Q) E (upd_stats (\<lambda>s. s\<lparr>submit_deferred := submit_deferred s + 1\<rparr>) ?e3)"
          by (rule engine_inv_cong [rotated -1]) (use w' in \<open>simp_all add: acct_def ended_def\<close>)
        ultimately show ?thesis by simp
      next
        case stop: False
        define err where "err = submit_error env p sr (rq_accepted (accept_subops acc r))"
        have bad: "\<not> ei_ok err" by (simp add: err_def submit_error_def ei_ok_def)
        let ?f = "\<lambda>r. set_state RS_kDraining (note_error err r)"
        have "kept ?f" using benign_comp [OF benign_ops(1,2), of RS_kDraining err] by (simp add: benign_def is_terminal_def)
        with over [of ?f] live_accept(3) [OF _ False acc(2) bad]
        have "engine_inv env winv outs Q E (part_done env ?i ((upd_req ?i (\<lambda>r. ?f (accept_subops acc r)) e)\<lparr>e_world := w'\<rparr>))"
          by blast
        moreover have "fin" "e' = part_done env ?i (upd_req ?i ?f ?e3)"
          using post eq short stop by (simp_all add: err_def)
        moreover have "upd_req ?i ?f ?e3 = (upd_req ?i (\<lambda>r. ?f (accept_subops acc r)) e)\<lparr>e_world := w'\<rparr>"
          by (simp add: upd_req_world upd_req_twice)
        ultimately show ?thesis by simp
      qed
    qed
  qed
  then show "engine_inv env winv outs (if fin then Q else add_mset p' Q) E e'" "e_pending e' = e_pending e" by blast+
qed

end

end
