(* ===== verification/Hux_Steps.thy ===== *)
theory Hux_Steps
  imports Hux_Invariant
begin

text \<open>
  Every method of the engine keeps the invariant of \<open>Hux_Invariant\<close>: the scheduling pass,
  admission, notifications, control messages, completions, departed peers, registration and
  peers. The last section puts the methods together as the steps of the engine.
\<close>

section \<open>The scheduling pass\<close>

lemma engine_inv_stats:
  assumes "engine_inv env winv outs Q E e" "\<And>s. acct (f s) = acct s"
  shows "engine_inv env winv outs Q E (upd_stats f e)"
  using assms by (intro engine_inv_cong [of "upd_stats f e" e]) (simp_all add: engine_inv_def)

lemma engine_inv_benign:
  assumes "engine_inv env winv outs Q E e" "benign f"
  shows "engine_inv env winv outs Q E (upd_req i f e)"
  using assms unfolding engine_inv_def by (simp add: upd_req_benign)

context engine_transports
begin

lemma drain_loop_inv:
  "engine_inv env winv outs (mset ps + mset waiting + Q) E e \<Longrightarrow> drain_loop env ps waiting e = (waiting', e') \<Longrightarrow>
   engine_inv env winv outs (mset waiting' + Q) E e' \<and> e_pending e' = e_pending e"
proof (induction ps arbitrary: waiting e)
  case (Cons p ps)
  let ?aband = "case e_reqs e (ps_req p) of None \<Rightarrow> True | Some r \<Rightarrow> abandoning r"
  let ?d = "if ?aband then kOk else dependency_state env (ps_after p) (e_world e)"
  show ?case
  proof (cases "\<not> ?aband \<and> ?d = kWouldBlock")
    case True
    then have "drain_loop env ps (waiting @ [p]) e = (waiting', e')" using Cons.prems(2) by (simp add: Let_def split: if_splits)
    with Cons show ?thesis by (auto intro!: Cons.IH [of "waiting @ [p]" e])
  next
    case False
    let ?e1 = "if \<not> ?aband \<and> ?d \<noteq> kOk
      then upd_req (ps_req p) (note_error (no_error\<lparr>ei_status := ?d\<rparr>)) e else e"
    obtain fin p' e2 where post: "post_ops env (scheduler_quantum_bytes (env_cfg env)) p ?e1 = (fin, p', e2)"
      by (rule prod_cases3)
    have run: "drain_loop env ps (if fin then waiting else waiting @ [p']) e2 = (waiting', e')"
      using Cons.prems(2) False post by (simp add: Let_def split: if_splits)
    have "engine_inv env winv outs (add_mset p (mset ps + mset waiting + Q)) E ?e1"
      using Cons.prems(1) by (simp add: engine_inv_benign benign_ops(2))
    from post_ops_inv [OF this post]
    have i: "engine_inv env winv outs (if fin then mset ps + mset waiting + Q else add_mset p' (mset ps + mset waiting + Q)) E e2"
      and "e_pending e2 = e_pending e" by simp_all
    moreover from i have "engine_inv env winv outs (mset ps + mset (if fin then waiting else waiting @ [p']) + Q) E e2"
      by (simp split: if_splits)
    ultimately show ?thesis using Cons.IH [OF _ run] by simp
  qed
qed simp

lemma engine_inv_move:
  "engine_inv env winv outs (mset (e_pending e) + Q) E (e\<lparr>e_pending := []\<rparr>) \<longleftrightarrow> engine_inv env winv outs Q E e"
  by (simp add: engine_inv_def core_inv_cong [OF core_simps(15)])

lemma engine_inv_push:
  "engine_inv env winv outs Q E (e\<lparr>e_pending := e_pending e @ ps\<rparr>) \<longleftrightarrow> engine_inv env winv outs (mset ps + Q) E e"
  by (simp add: engine_inv_def core_inv_cong [OF core_simps(15)] add.assoc)

lemma engine_inv_cursor: "engine_inv env winv outs Q E (e\<lparr>e_rr_cursor := c\<rparr>) \<longleftrightarrow> engine_inv env winv outs Q E e"
  by (simp add: engine_inv_def core_inv_cong [OF core_simps(16)])

lemma drain_pending_inv:
  assumes "engine_inv env winv outs Q E e"
  shows "engine_inv env winv outs Q E (drain_pending env e)"
proof (cases "e_pending e = []")
  case False
  let ?c = "if length (e_pending e) \<le> e_rr_cursor e then 0 else e_rr_cursor e"
  let ?turn = "drop ?c (e_pending e) @ take ?c (e_pending e)"
  let ?e1 = "e\<lparr>e_pending := [], e_rr_cursor := (if 1 < length (e_pending e) then 1 else 0)\<rparr>"
  obtain waiting e2 where run: "drain_loop env ?turn [] ?e1 = (waiting, e2)" by fastforce
  have "mset ?turn = mset (e_pending e)" by (metis append_take_drop_id mset_append union_commute)
  then have "engine_inv env winv outs (mset ?turn + mset [] + Q) E ?e1"
    using assms engine_inv_move engine_inv_cursor by simp
  from drain_loop_inv [OF this run] have "engine_inv env winv outs (mset waiting + Q) E e2" by simp
  then have "engine_inv env winv outs Q E (e2\<lparr>e_pending := e_pending e2 @ waiting\<rparr>)"
    by (simp only: engine_inv_push)
  with False run show ?thesis by (simp add: drain_pending_def Let_def)
qed (simp add: drain_pending_def assms)

lemma post_parts_inv:
  "engine_inv env winv outs (mset ps + Q) E e \<Longrightarrow> engine_inv env winv outs Q E (post_parts env ps e)"
proof (induction ps arbitrary: e)
  case (Cons p ps)
  obtain fin p' e1 where post: "post_ops env (scheduler_quantum_bytes (env_cfg env)) p e = (fin, p', e1)"
    by (rule prod_cases3)
  from Cons.prems have "engine_inv env winv outs (add_mset p (mset ps + Q)) E e" by simp
  from post_ops_inv(1) [OF this post]
  have "engine_inv env winv outs (mset ps + Q) E (if fin then e1 else e1\<lparr>e_pending := e_pending e1 @ [p']\<rparr>)"
    by (auto simp: engine_inv_push split: if_splits)
  from Cons.IH [OF this] post show ?case by simp
qed simp

end

section \<open>Admission\<close>

lemma word_less_suc:
  fixes x y :: u64
  assumes "y + 1 \<noteq> 0"
  shows "x < y + 1 \<longleftrightarrow> x \<le> y"
proof -
  have "unat (y + 1) = Suc (unat y)" using assms unatSuc [of y] by (simp add: add.commute)
  then show ?thesis by (simp add: word_less_nat_alt word_le_nat_alt less_Suc_eq_le)
qed

definition req_ops :: "request_id \<Rightarrow> build \<Rightarrow> bool" where
  "req_ops req b \<longleftrightarrow> (\<forall>ops\<in>set (bs_out b). \<forall>op\<in>set ops. so_request op = req)"

lemma all_list_update: "\<forall>x\<in>set xs. P x \<Longrightarrow> i < length xs \<longrightarrow> P y \<Longrightarrow> \<forall>x\<in>set (xs[i := y]). P x"
  by (cases "i < length xs") (auto simp: list_update_beyond dest: set_update_subset_insert [THEN subsetD])

lemma build_chunks_req:
  "build_chunks env lanes kind req lr rr lsp rsp cs b = Inr b' \<Longrightarrow> req_ops req b \<Longrightarrow>
   req_ops req b' \<and> length (bs_out b') = length (bs_out b) \<and> bs_held b' = bs_held b"
proof (induction cs arbitrary: b)
  case (Cons c cs)
  define lane where "lane = pick_lane (zip lanes (bs_assigned b)) (to_double (snd c)) 0 None"
  from Cons.prems(1) obtain op where
    op: "make_subop kind req lr rr lsp rsp (pc_name (po_caps (the_prov env (ln_provider (lanes ! lane)))))
       (bs_sub_id b) c = Inr op"
    and run: "build_chunks env lanes kind req lr rr lsp rsp cs
       (b\<lparr>bs_out := (bs_out b)[lane := bs_out b ! lane @ [op]],
          bs_assigned := (bs_assigned b)[lane := bs_assigned b ! lane + to_double (snd c)],
          bs_sub_id := bs_sub_id b + 1\<rparr>) = Inr b'"
    by (auto simp: Let_def lane_def split: sum.splits)
  have "so_request op = req" using op by (auto simp: make_subop_def split: prod.splits option.splits)
  with Cons.prems(2) have "\<forall>ops\<in>set ((bs_out b)[lane := bs_out b ! lane @ [op]]). \<forall>x\<in>set ops. so_request x = req"
    unfolding req_ops_def by (intro all_list_update) (auto dest: nth_mem)
  then have "req_ops req (b\<lparr>bs_out := (bs_out b)[lane := bs_out b ! lane @ [op]],
          bs_assigned := (bs_assigned b)[lane := bs_assigned b ! lane + to_double (snd c)],
          bs_sub_id := bs_sub_id b + 1\<rparr>)"
    by (simp add: req_ops_def)
  from Cons.IH [OF run this] show ?case by simp
qed simp

lemma build_segments_req:
  "build_segments env e peer lanes chunk kind req segs b = Inr b' \<Longrightarrow> req_ops req b \<Longrightarrow>
   \<forall>g\<in>set (bs_held b). \<exists>m. find_region g e = Some m \<and> \<not> mr_retired m \<Longrightarrow>
   req_ops req b' \<and> length (bs_out b') = length (bs_out b) \<and>
   (\<forall>g\<in>set (bs_held b'). \<exists>m. find_region g e = Some m \<and> \<not> mr_retired m)"
proof (induction segs arbitrary: b)
  case (Cons seg segs)
  obtain l r where seg: "seg = (l, r)" by (cases seg)
  obtain b1 where b1: "build_segment env e peer lanes chunk kind req l r b = Inr b1"
    and run: "build_segments env e peer lanes chunk kind req segs b1 = Inr b'"
    using Cons.prems(1) seg by (auto split: sum.splits)
  from b1 obtain lr rr where "find_region (rv_region l) e = Some lr" "\<not> mr_retired lr"
    and ch: "build_chunks env lanes kind req lr rr (rv_span l) (rv_span r) (chunks chunk (sp_length (rv_span l)) 0)
       (b\<lparr>bs_held := bs_held b @ [rv_region l], bs_total := bs_total b + sp_length (rv_span l)\<rparr>) = Inr b1"
    by (auto simp: build_segment_def split: option.splits if_splits)
  with build_chunks_req [OF ch] Cons.prems(2,3)
  have "req_ops req b1 \<and> length (bs_out b1) = length (bs_out b) \<and>
      (\<forall>g\<in>set (bs_held b1). \<exists>m. find_region g e = Some m \<and> \<not> mr_retired m)"
    by (auto simp: req_ops_def)
  with Cons.IH [OF run] show ?case by simp
qed simp

lemma build_subops_req:
  assumes "build_subops env e peer local remote kind req lanes = Inr (out, held, target, tot)"
  shows "length out = length lanes" "\<forall>ops\<in>set out. \<forall>op\<in>set ops. so_request op = req"
    "\<forall>g\<in>set held. \<exists>m. find_region g e = Some m \<and> \<not> mr_retired m"
proof -
  obtain b where "build_segments env e peer lanes (chunk_limit env lanes) kind req (zip local remote)
      (empty_build (length lanes)) = Inr b" "bs_out b = out" "bs_held b = held"
    using assms by (auto simp: build_subops_def Let_def split: if_splits sum.splits)
  moreover have "req_ops req (empty_build (length lanes))" "bs_held (empty_build (length lanes)) = []"
    "length (bs_out (empty_build (length lanes))) = length lanes"
    by (auto simp: req_ops_def empty_build_def)
  ultimately show "length out = length lanes" "\<forall>ops\<in>set out. \<forall>op\<in>set ops. so_request op = req"
    "\<forall>g\<in>set held. \<exists>m. find_region g e = Some m \<and> \<not> mr_retired m"
    using build_segments_req [of env e peer lanes "chunk_limit env lanes" kind req "zip local remote"
        "empty_build (length lanes)" b] by (simp_all add: req_ops_def)
qed

lemma make_parts_ops:
  "length lanes = length pl \<Longrightarrow>
   map ps_ops (map (\<lambda>(l, ops). \<lparr>ps_req = i, ps_ops = ops, ps_conn = ln_conn l, ps_peer = q,
      ps_provider = ln_provider l, ps_after = after\<rparr>) (filter (\<lambda>(l, ops). ops \<noteq> []) (zip lanes pl))) =
   filter (\<lambda>ops. ops \<noteq> []) pl"
  by (induction lanes pl rule: list_induct2) auto

lemma make_parts_props:
  assumes "length (pr_lanes p) = length pl" "\<forall>ops\<in>set pl. \<forall>op\<in>set ops. so_request op = i"
    "\<forall>l\<in>set (pr_lanes p). ln_provider l < n"
  shows "\<forall>x\<in>set (make_parts p i after pl). ps_req x = i \<and> part_ok n x"
    "parts_of (mset (make_parts p i after pl)) i = mset (map length (filter (\<lambda>ops. ops \<noteq> []) pl))"
    "length (make_parts p i after pl) = length (filter (\<lambda>ops. ops \<noteq> []) pl)"
proof -
  show all: "\<forall>x\<in>set (make_parts p i after pl). ps_req x = i \<and> part_ok n x"
    using assms(2,3) by (auto simp: make_parts_def part_ok_def dest: set_zip_leftD set_zip_rightD)
  have ops: "map ps_ops (make_parts p i after pl) = filter (\<lambda>ops. ops \<noteq> []) pl"
    unfolding make_parts_def by (rule make_parts_ops [OF assms(1)])
  have "filter_mset (\<lambda>x. ps_req x = i) (mset (make_parts p i after pl)) = mset (make_parts p i after pl)"
    using all by (simp add: filter_mset_eq_conv)
  then have "parts_of (mset (make_parts p i after pl)) i = mset (map length (map ps_ops (make_parts p i after pl)))"
    by (simp add: parts_of_def image_mset.compositionality comp_def)
  then show "parts_of (mset (make_parts p i after pl)) i = mset (map length (filter (\<lambda>ops. ops \<noteq> []) pl))"
    by (simp add: ops)
  show "length (make_parts p i after pl) = length (filter (\<lambda>ops. ops \<noteq> []) pl)"
    using arg_cong [OF ops, of length] by simp
qed

lemma sum_nonempty: "sum_list (map length (filter (\<lambda>ops. ops \<noteq> []) pl)) = length (concat pl)"
  by (induction pl) auto

lemma nonempty_le: "length (filter (\<lambda>ops. ops \<noteq> []) pl) \<le> length (concat pl)"
proof (induction pl)
  case (Cons ops pl)
  then show ?case by (cases ops) auto
qed simp

definition submit_fits ::
  "'w engine_env \<Rightarrow> peer_id option \<Rightarrow> region_view list \<Rightarrow> region_view list \<Rightarrow> subop_kind \<Rightarrow> 'w engine \<Rightarrow> bool" where
  "submit_fits env peer local remote kind e \<longleftrightarrow> e_next_request e + 1 \<noteq> 0 \<and>
    (case Option.bind peer (e_peer_objs e) of
       None \<Rightarrow> True
     | Some p \<Rightarrow>
        (case build_subops env (e\<lparr>e_next_request := e_next_request e + 1\<rparr>) (pr_id p) local remote kind
                (e_next_request e) (pr_lanes p) of
           Inl _ \<Rightarrow> True
         | Inr (per_lane, _) \<Rightarrow> length (concat per_lane) < 2 ^ 32))"

lemma core_inv_next:
  assumes "core_inv n M W e" "e_next_request e + 1 \<noteq> 0"
  shows "core_inv n M W (e\<lparr>e_next_request := e_next_request e + 1\<rparr>)" (is "core_inv n M W ?e")
proof -
  have "slot_ok M W ?e j = slot_ok M W e j" for j by (rule slot_cong) simp_all
  with assms show ?thesis
    by (auto simp: core_inv_def wiring_ok_def ids_ok_def stats_ok_def word_less_suc [OF assms(2)])
qed

lemma next_request_inv:
  assumes "engine_inv env winv outs Q E e" "e_next_request e + 1 \<noteq> 0"
  shows "engine_inv env winv outs Q E (e\<lparr>e_next_request := e_next_request e + 1\<rparr>)"
  using assms core_inv_next by (auto simp: engine_inv_def)

text \<open>A request that has been made and not admitted: its number is used and nothing refers to it.\<close>

lemma admit_inv:
  assumes inv: "core_inv n M W e" and i: "e_reqs e i = None" "i < e_next_request e"
    and r: "rq_id r = i" "live_ok r (parts_of V i) 0" "\<forall>j. rq_provider r = Some j \<longrightarrow> j < n"
    and V: "\<forall>p\<in>#V. ps_req p = i \<and> part_ok n p"
    and np: "\<forall>x\<in>set (e_notify_pending e). snd x \<noteq> i"
  shows "core_inv n M (W + V) (count_accepted (e\<lparr>e_reqs := (e_reqs e)(i \<mapsto> r), e_inflight := e_inflight e @ [i]\<rparr>))"
    (is "core_inv n M (W + V) ?e")
proof -
  let ?e1 = "e\<lparr>e_reqs := (e_reqs e)(i \<mapsto> r), e_inflight := e_inflight e @ [i]\<rparr>"
  have slot: "slot_ok M W e i" using inv by (simp add: core_inv_def)
  then have fresh: "due M i = 0" "parts_of W i = {#}" "i \<notin> set (e_inflight e)" using i by (simp_all add: slot_ok_def)
  have f: "e_reqs ?e = (e_reqs e)(i \<mapsto> r)" "e_inflight ?e = e_inflight e @ [i]" "e_peer_objs ?e = e_peer_objs e"
    "e_next_request ?e = e_next_request e" "e_next_peer ?e = e_next_peer e" "e_notify_pending ?e = e_notify_pending e"
    "requests_accepted (e_stats ?e) = requests_accepted (e_stats e) + 1" "ended (e_stats ?e) = ended (e_stats e)"
    by (simp_all add: count_accepted_def ended_def)
  have "slot_ok M (W + V) ?e j" for j
  proof (cases "j = i")
    case True
    with fresh r f show ?thesis by (simp add: slot_ok_def)
  next
    case False
    have "filter_mset (\<lambda>p. ps_req p = j) V = {#}" using V False by (auto simp: filter_mset_eq_conv)
    then have "parts_of V j = {#}" by (simp add: parts_of_def)
    then have "slot_ok M (W + V) ?e j = slot_ok M W e j" using False f by (intro slot_cong) simp_all
    with inv show ?thesis by (simp add: core_inv_def)
  qed
  moreover have "wiring_ok n (W + V) ?e" using inv V r(3) f by (auto simp: core_inv_def wiring_ok_def)
  moreover have "ids_ok ?e" using inv i fresh np f by (auto simp: core_inv_def ids_ok_def)
  moreover have "stats_ok ?e" using inv f by (simp add: core_inv_def stats_ok_def)
  ultimately show ?thesis by (simp add: core_inv_def)
qed

lemma targets_loop_fields:
  "rq_id (targets_loop q segs e r) = rq_id r" "rq_total (targets_loop q segs e r) = rq_total r"
  "rq_completed (targets_loop q segs e r) = rq_completed r" "rq_accepted (targets_loop q segs e r) = rq_accepted r"
  "rq_sealed (targets_loop q segs e r) = rq_sealed r" "rq_state (targets_loop q segs e r) = rq_state r"
  "rq_cancel_requested (targets_loop q segs e r) = rq_cancel_requested r" "rq_error (targets_loop q segs e r) = rq_error r"
  "rq_held_regions (targets_loop q segs e r) = rq_held_regions r" "rq_peer (targets_loop q segs e r) = rq_peer r"
  by (induction segs arbitrary: r) (auto simp: add_remote_target_def Let_def split: option.split)

lemma admit_request_fields:
  fixes env e p i kind tot held target bytes remote opts parts
  defines "r \<equiv> admit_request env e p i kind tot held target bytes remote opts parts"
  shows "rq_id r = i" "rq_total r = word_of_nat tot" "rq_completed r = 0" "rq_accepted r = 0" "\<not> rq_sealed r"
    "rq_parts_left r = word_of_nat (length parts)" "\<not> terminal r" "\<not> abandoning r" "rq_provider r = first_provider p"
    "rq_held_regions r = held" "rq_peer r = pr_id p"
  unfolding r_def admit_request_def
  by (simp_all add: Let_def set_target_def new_request_def targets_loop_fields set_parts_def terminal_def
      is_terminal_def abandoning_def ei_ok_def no_error_def)

text \<open>The end of \<open>submit_vector\<close>, once the request is to be admitted.\<close>

definition admitted ::
  "'w engine_env \<Rightarrow> peer \<Rightarrow> request_id \<Rightarrow> transfer_options \<Rightarrow> subop_kind \<Rightarrow> region_view list \<Rightarrow>
   subop list list \<times> region_id list \<times> addr \<times> u64 \<Rightarrow> 'w engine \<Rightarrow> 'w engine" where
  "admitted env p i opts kind remote = (\<lambda>(per_lane, held, target, tot) e1.
    (let parts = make_parts p i (to_after opts) per_lane;
         r = admit_request env e1 p i kind (length (concat per_lane)) held target tot remote opts parts;
         e2 = count_accepted (e1\<lparr>e_reqs := (e_reqs e1)(i \<mapsto> r), e_inflight := e_inflight e1 @ [i]\<rparr>);
         dep = (if to_after opts = [] then kOk else dependency_state env (to_after opts) (e_world e2))
     in if dep = kWouldBlock
        then (upd_req i (set_state RS_kWaitDependency) e2)\<lparr>e_pending := e_pending e2 @ parts\<rparr>
        else post_parts env parts
          (if dep \<noteq> kOk then upd_req i (note_error (no_error\<lparr>ei_status := dep\<rparr>)) e2 else e2)))"

lemma submit_check_cases:
  obtains (refused) s where "submit_check env peer local remote opts e = (Inl s, e)"
  | (full) "submit_check env peer local remote opts e =
      (Inl kWouldBlock, upd_stats (\<lambda>s. s\<lparr>requests_would_block := requests_would_block s + 1\<rparr>) e)"
  | (passed) p where "submit_check env peer local remote opts e = (Inr p, e)"
      "Option.bind peer (e_peer_objs e) = Some p"
proof -
  let ?s = "submit_check env peer local remote opts e"
  have "(\<exists>s. ?s = (Inl s, e)) \<or>
      ?s = (Inl kWouldBlock, upd_stats (\<lambda>s. s\<lparr>requests_would_block := requests_would_block s + 1\<rparr>) e) \<or>
      (\<exists>p. ?s = (Inr p, e) \<and> Option.bind peer (e_peer_objs e) = Some p)"
    by (cases "Option.bind peer (e_peer_objs e)") (simp_all add: submit_check_def Let_def)
  with that show thesis by blast
qed

lemma submit_admitted_cases:
  fixes env e p local remote kind
  defines "i \<equiv> e_next_request e" and "e1 \<equiv> e\<lparr>e_next_request := e_next_request e + 1\<rparr>"
  obtains (refused) s where "submit_admitted env p local remote opts kind e = (Inl s, e1)"
  | (admits) b where "build_subops env e1 (pr_id p) local remote kind i (pr_lanes p) = Inr b" "concat (fst b) \<noteq> []"
    "\<not> e_closed e"
    "submit_admitted env p local remote opts kind e = (Inr i, admitted env p i opts kind remote b e1)"
proof (cases "build_subops env e1 (pr_id p) local remote kind i (pr_lanes p)")
  case (Inl s)
  then show thesis by (intro refused) (simp add: submit_admitted_def Let_def i_def e1_def)
next
  case (Inr b)
  obtain per_lane held target tot where b: "b = (per_lane, held, target, tot)" by (cases b) auto
  let ?stale = "\<exists>g\<in>set held. (case e_region_objs e1 g of None \<Rightarrow> False | Some m \<Rightarrow> mr_retired m)"
  have eq: "submit_admitted env p local remote opts kind e =
      (if concat per_lane = [] then (Inl kInvalidArgument, e1)
       else if e_closed e then (Inl kInvalidArgument, e1)
       else if ?stale then (Inl kStaleGeneration, e1)
       else (Inr i, admitted env p i opts kind remote b e1))"
    using Inr unfolding submit_admitted_def Let_def b admitted_def i_def e1_def by simp
  show thesis
  proof (cases "concat per_lane = [] \<or> e_closed e \<or> ?stale")
    case True
    then have "\<exists>s. submit_admitted env p local remote opts kind e = (Inl s, e1)" unfolding eq by auto
    with refused show thesis by blast
  next
    case False
    then have "submit_admitted env p local remote opts kind e = (Inr i, admitted env p i opts kind remote b e1)"
      unfolding eq by simp
    with False Inr b show thesis by (intro admits [of b]) simp_all
  qed
qed

context engine_transports
begin

lemma submit_admitted_inv:
  assumes inv: "engine_inv env winv outs Q E e" and fits: "submit_fits env peer local remote kind e"
    and Some: "Option.bind peer (e_peer_objs e) = Some p"
  shows "engine_inv env winv outs Q E (snd (submit_admitted env p local remote opts kind e))"
proof -
  let ?i = "e_next_request e" and ?n = "length (env_providers env)"
  let ?e1 = "e\<lparr>e_next_request := e_next_request e + 1\<rparr>"
  have nz: "e_next_request e + 1 \<noteq> 0" using fits by (simp add: submit_fits_def)
  note inv1 = next_request_inv [OF inv nz]
  show ?thesis
  proof (cases rule: submit_admitted_cases [of env p local remote opts kind e])
    case (refused s)
    with inv1 show ?thesis by simp
  next
    case (admits b)
    obtain per_lane held target tot where b: "b = (per_lane, held, target, tot)" by (cases b) auto
    have small: "length (concat per_lane) < 2 ^ 32" using fits Some admits(1) b by (simp add: submit_fits_def)
    note bs = build_subops_req [OF admits(1) [unfolded b]]
    let ?parts = "make_parts p ?i (to_after opts) per_lane"
    let ?r = "admit_request env ?e1 p ?i kind (length (concat per_lane)) held target tot remote opts ?parts"
    have c: "core_inv ?n (outs (e_world e) + mset (map ce_key E)) (mset (e_pending e) + Q) e"
      using inv by (simp add: engine_inv_def)
    obtain j where j: "peer = Some j" "e_peer_objs e j = Some p" using Some by (cases peer) auto
    have lanes: "\<forall>l\<in>set (pr_lanes p). ln_provider l < ?n"
      using c j by (auto simp: core_inv_def wiring_ok_def)
    note parts = make_parts_props [OF bs(1) [symmetric] bs(2) lanes, of "to_after opts"]
    let ?ne = "filter (\<lambda>ops. ops \<noteq> []) per_lane"
    have "length ?ne \<le> length (concat per_lane)"
      by (rule nonempty_le)
    then have lens: "unat (word_of_nat (length (concat per_lane)) :: u32) = length (concat per_lane)"
      "unat (word_of_nat (length ?ne) :: u32) = length ?ne" using small by (simp_all add: unat_of_nat)
    have "?ne \<noteq> []" "0 < length (concat per_lane)" using admits(2) b by (auto simp: filter_empty_conv)
    then have live: "live_ok ?r (parts_of (mset ?parts) ?i) 0"
      using lens sum_nonempty [of per_lane]
      by (simp add: live_ok_def admit_request_fields parts(2,3) sum_mset_sum_list flip: mset_map mset_filter)
    have fresh: "e_reqs ?e1 ?i = None" "\<forall>x\<in>set (e_notify_pending ?e1). snd x \<noteq> ?i"
      using c by (force simp: core_inv_def ids_ok_def)+
    let ?e2 = "count_accepted (?e1\<lparr>e_reqs := (e_reqs ?e1)(?i \<mapsto> ?r), e_inflight := e_inflight ?e1 @ [?i]\<rparr>)"
    have prov: "\<forall>j. rq_provider ?r = Some j \<longrightarrow> j < ?n"
      using lanes by (simp add: admit_request_fields first_provider_def split: list.split)
    have "core_inv ?n (outs (e_world e) + mset (map ce_key E)) (mset (e_pending e) + Q + mset ?parts) ?e2"
      using core_inv_next [OF c nz] fresh live prov parts(1)
      by (intro admit_inv) (simp_all add: admit_request_fields word_less_suc [OF nz])
    then have inv2: "engine_inv env winv outs (mset ?parts + Q) E ?e2"
      using inv by (simp add: engine_inv_def count_accepted_def ac_simps)
    show ?thesis
      unfolding admits(4) snd_conv admitted_def b
      using post_parts_inv [OF inv2] post_parts_inv [OF engine_inv_benign [OF inv2 benign_ops(2)]]
        engine_inv_benign [OF inv2 benign_ops(1), of RS_kWaitDependency ?i]
        engine_inv_push [of Q E "upd_req ?i (set_state RS_kWaitDependency) ?e2" ?parts]
      by (simp add: Let_def is_terminal_def)
  qed
qed

lemma submit_vector_inv:
  assumes inv: "engine_inv env winv outs Q E e" and fits: "submit_fits env peer local remote kind e"
  shows "engine_inv env winv outs Q E (snd (submit_vector env peer local remote opts kind e))"
proof (cases rule: submit_check_cases [of env peer local remote opts e])
  case full
  with inv show ?thesis by (simp add: submit_vector_def engine_inv_stats acct_def ended_def)
next
  case (passed p)
  with submit_admitted_inv [OF inv fits] show ?thesis by (simp add: submit_vector_def)
qed (use inv in \<open>simp add: submit_vector_def\<close>)

end

end
