(* ===== verification/Hux_Ends.thy ===== *)
theory Hux_Ends
  imports Hux_Steps
begin

text \<open>
  The rest of a turn of the engine keeps the invariant: notifications and control messages,
  completions, and peers that are gone.
\<close>

section \<open>Notifications\<close>

lemma engine_inv_publish [simp]:
  "engine_inv env winv outs Q E (publish env' i e) = engine_inv env winv outs Q E e"
  by (simp add: engine_inv_def core_inv_cong [OF publish_simps(1)])

lemma engine_inv_ended:
  assumes "engine_inv env winv outs Q E e" "kept f" "i \<notin> set (e_inflight e)"
  shows "engine_inv env winv outs Q E (upd_req i f e)"
  using assms upd_req_ended [OF _ assms(2,3)] by (auto simp: engine_inv_def)

lemma publish_fields [simp]:
  "e_reqs (publish env i e) = e_reqs e" "e_inflight (publish env i e) = e_inflight e"
  "e_peer_objs (publish env i e) = e_peer_objs e" "e_notify_pending (publish env i e) = e_notify_pending e"
  "e_next_request (publish env i e) = e_next_request e"
  using core_fields [OF publish_simps(1)] by blast+

lemma engine_inv_notify_filter:
  assumes "engine_inv env winv outs Q E e"
  shows "engine_inv env winv outs Q E (e\<lparr>e_notify_pending := filter P (e_notify_pending e)\<rparr>)" (is "engine_inv _ _ _ _ _ ?e")
proof -
  have "slot_ok M W ?e j = slot_ok M W e j" for M W j by (rule slot_cong) simp_all
  with assms show ?thesis
    by (auto simp: engine_inv_def core_inv_def wiring_ok_def ids_ok_def stats_ok_def)
qed

lemma take_notification_inv:
  assumes "engine_inv env winv outs Q E e" "take_notification k e = (x, e')"
  shows "engine_inv env winv outs Q E e'" "e_inflight e' = e_inflight e" "e_pending e' = e_pending e"
    "x = Some i \<Longrightarrow> i \<notin> set (e_inflight e')"
proof -
  have e': "e' = e\<lparr>e_notify_pending := filter (\<lambda>x. fst x \<noteq> k) (e_notify_pending e)\<rparr>" "x = map_of (e_notify_pending e) k"
    using assms(2) by (simp_all add: take_notification_def)
  then show "engine_inv env winv outs Q E e'" "e_inflight e' = e_inflight e" "e_pending e' = e_pending e"
    using engine_inv_notify_filter [OF assms(1)] by simp_all
  show "i \<notin> set (e_inflight e')" if "x = Some i"
    using assms(1) that e' by (auto simp: engine_inv_def core_inv_def ids_ok_def dest!: map_of_SomeD)
qed

lemma kept_end_notification: "kept (\<lambda>r. if ei_ok err \<or> rq_cancel_requested r then finish_cancelled r else fail err r)"
  using kept_ops(1) [of err] kept_ops(3) by (simp add: kept_def)

lemma end_notification_fold:
  "engine_inv env winv outs Q E e \<Longrightarrow> \<forall>x\<in>set xs. snd x \<notin> set (e_inflight e) \<Longrightarrow>
   engine_inv env winv outs Q E (fold (end_notification env err) xs e) \<and>
   e_inflight (fold (end_notification env err) xs e) = e_inflight e"
proof (induction xs arbitrary: e)
  case (Cons x xs)
  have "engine_inv env winv outs Q E (end_notification env err x e)"
    using Cons.prems engine_inv_ended [OF Cons.prems(1) kept_end_notification] by (simp add: end_notification_def)
  from Cons.IH [OF this] Cons.prems(2) show ?case by (simp add: end_notification_def)
qed simp

lemma end_notifications_inv:
  assumes "engine_inv env winv outs Q E e"
  shows "engine_inv env winv outs Q E (end_notifications env peer oc err e)"
proof -
  have "\<forall>x\<in>set (e_notify_pending e). snd x \<notin> set (e_inflight e)"
    using assms by (simp add: engine_inv_def core_inv_def ids_ok_def)
  with end_notification_fold [OF engine_inv_notify_filter [OF assms]] show ?thesis
    by (simp add: end_notifications_def Let_def)
qed

text \<open>A request that waits for an acknowledgement has nothing with a transport.\<close>

lemma notify_added_inv:
  assumes inv: "engine_inv env winv outs Q E e" and nz: "e_next_request e + 1 \<noteq> 0"
    and r: "rq_id r = e_next_request e" "rq_provider r = None"
  shows "engine_inv env winv outs Q E (e\<lparr>e_next_notify := k', e_next_request := e_next_request e + 1,
      e_reqs := (e_reqs e)(e_next_request e \<mapsto> r), e_notify_pending := e_notify_pending e @ [(k, e_next_request e)]\<rparr>)"
    (is "engine_inv _ _ _ _ _ ?e")
proof -
  let ?M = "outs (e_world e) + mset (map ce_key E)" and ?W = "mset (e_pending e) + Q" and ?i = "e_next_request e"
  have c: "core_inv (length (env_providers env)) ?M ?W e" using inv by (simp add: engine_inv_def)
  have none: "e_reqs e ?i = None" using c by (force simp: core_inv_def ids_ok_def)
  have s: "slot_ok ?M ?W e j" for j using c by (simp add: core_inv_def)
  have fresh: "due ?M ?i = 0" "parts_of ?W ?i = {#}" "?i \<notin> set (e_inflight e)"
    using s [of ?i] none by (simp_all add: slot_ok_def)
  have "slot_ok ?M ?W ?e j" for j
  proof (cases "j = ?i")
    case True
    with fresh r show ?thesis by (simp add: slot_ok_def)
  next
    case False
    then have "slot_ok ?M ?W ?e j = slot_ok ?M ?W e j" by (intro slot_cong) simp_all
    with s show ?thesis by simp
  qed
  moreover have "wiring_ok (length (env_providers env)) ?W ?e" using c r by (auto simp: core_inv_def wiring_ok_def)
  moreover have "ids_ok ?e" using c fresh none nz
    by (auto simp: core_inv_def ids_ok_def word_less_suc [OF nz] less_imp_le)
  moreover have "stats_ok ?e" using c by (simp add: core_inv_def stats_ok_def)
  ultimately show ?thesis using inv by (simp add: engine_inv_def core_inv_def)
qed

context engine_transports
begin

lemma first_provider_ok:
  assumes "engine_inv env winv outs Q E e" "e_peer_objs e q = Some p"
  shows "(case first_provider p of None \<Rightarrow> 0 | Some j \<Rightarrow> j) < length (env_providers env)"
  using assms prov0 by (auto simp: engine_inv_def core_inv_def wiring_ok_def first_provider_def split: list.split)

lemma notify_inv:
  assumes inv: "engine_inv env winv outs Q E e" and nz: "e_next_request e + 1 \<noteq> 0"
  shows "engine_inv env winv outs Q E (snd (snd (notify env peer payload e)))"
proof (cases "Option.bind peer (e_peer_objs e)")
  case None
  with inv show ?thesis by (simp add: notify_def)
next
  case (Some p)
  obtain q where q: "e_peer_objs e q = Some p" using Some by (cases peer) auto
  let ?j = "case first_provider p of None \<Rightarrow> 0 | Some j \<Rightarrow> j"
  let ?k = "e_next_notify e" and ?i = "e_next_request e"
  let ?r = "(set_state RS_kWaitNotifyAck (new_request ?i kWrite 0 0))\<lparr>rq_peer := pr_id p\<rparr>"
  let ?e1 = "e\<lparr>e_next_notify := ?k + 1, e_next_request := ?i + 1, e_reqs := (e_reqs e)(?i \<mapsto> ?r),
     e_notify_pending := e_notify_pending e @ [(?k, ?i)]\<rparr>"
  have "rq_id ?r = ?i" "rq_provider ?r = None" by (simp_all add: set_state_def new_request_def)
  then have i1: "engine_inv env winv outs Q E ?e1" by (rule notify_added_inv [OF inv nz])
  obtain s e2 where send: "call (po_send_control (the_prov env ?j) (first_conn p)
     (control_type_code kNotification) (encode_u64 ?k @ payload)) ?e1 = (s, e2)" by fastforce
  note i2 = send_control_inv [OF i1 first_provider_ok [OF inv q] send]
  obtain x e3 where take: "take_notification ?k e2 = (x, e3)" by fastforce
  note i3 = take_notification_inv [OF i2(1) take]
  have "?i \<notin> set (e_inflight e3)"
    using i1 core_fields(2) [OF i2(2)] i3(2) by (auto simp: engine_inv_def core_inv_def ids_ok_def)
  then have "engine_inv env winv outs Q E (upd_req ?i (fail err) e3)" for err
    by (rule engine_inv_ended [OF i3(1) kept_ops(1)])
  with i2 i3 inv Some send take show ?thesis
    by (auto simp: notify_def Let_def engine_inv_stats acct_def ended_def split: option.split)
qed

lemma keep_ready_inv: "engine_inv env winv outs Q E e \<Longrightarrow> engine_inv env winv outs Q E (keep_ready env ev e)"
  by (simp add: engine_inv_def core_inv_cong [OF keep_ready_simps(1)])

lemma handle_ready_handoff_inv:
  "engine_inv env winv outs Q E e \<Longrightarrow> engine_inv env winv outs Q E (handle_ready_handoff env m e)"
  by (auto simp: handle_ready_handoff_def Let_def keep_ready_inv engine_inv_stats acct_def ended_def
      split: option.split sum.split)

lemma engine_inv_core:
  "engine_inv env winv outs Q E e \<Longrightarrow> core e' = core e \<Longrightarrow> e_pending e' = e_pending e \<Longrightarrow> e_world e' = e_world e \<Longrightarrow>
   engine_inv env winv outs Q E e'"
  using core_inv_cong [of e' e] by (simp add: engine_inv_def)

lemma notified_inv:
  assumes "engine_inv env winv outs Q E e"
  shows "engine_inv env winv outs Q E (upd_stats (\<lambda>s. if q then s\<lparr>notifications_received := notifications_received s + 1\<rparr>
     else s\<lparr>notifications_dropped := notifications_dropped s + 1\<rparr>) (if q then e\<lparr>e_notifications := ns\<rparr> else e))"
proof (rule engine_inv_stats)
  show "engine_inv env winv outs Q E (if q then e\<lparr>e_notifications := ns\<rparr> else e)"
    using assms by (auto intro: engine_inv_core)
qed (simp add: acct_def ended_def)

lemma handle_notification_inv:
  assumes inv: "engine_inv env winv outs Q E e" and j: "j < length (env_providers env)"
  shows "engine_inv env winv outs Q E (handle_notification env j m e)"
proof (cases "\<exists>k. decode_u64 (take 8 (cm_payload m)) = Some (Inr k)")
  case True
  then obtain k where k: "decode_u64 (take 8 (cm_payload m)) = Some (Inr k)" by blast
  define q where "q \<longleftrightarrow> length (e_notifications e) < unat (notify_queue_depth (env_cfg env))"
  define e2 where "e2 = upd_stats (\<lambda>s. if q then s\<lparr>notifications_received := notifications_received s + 1\<rparr>
     else s\<lparr>notifications_dropped := notifications_dropped s + 1\<rparr>) (if q then e\<lparr>e_notifications := e_notifications e @
     [\<lparr>nt_peer = cm_peer m, nt_epoch = 0, nt_id = k, nt_related_request = 0, nt_payload = drop 8 (cm_payload m)\<rparr>]\<rparr> else e)"
  have i2: "engine_inv env winv outs Q E e2" unfolding e2_def by (rule notified_inv [OF inv])
  have send: "engine_inv env winv outs Q E (snd (call (po_send_control (the_prov env j) c t pl) e2))" for c t pl
    using send_control_inv(1) [OF i2 j] by (metis prod.collapse)
  have "handle_notification env j m e = (if length (cm_payload m) < 8 then e else if cm_conn m = None then e2
     else if q then (let x = call (po_send_control (the_prov env j) (cm_conn m) (control_type_code kNotificationAck) (encode_u64 k)) e2
        in if fst x = kOk then snd x
           else upd_stats (\<lambda>st. st\<lparr>notification_acks_failed := notification_acks_failed st + 1\<rparr>) (snd x))
     else snd (call (po_send_control (the_prov env j) (cm_conn m) (control_type_code kNotificationRefused) (encode_u64 k)) e2))"
    unfolding handle_notification_def k e2_def q_def Let_def split_beta by simp
  with inv i2 send show ?thesis by (simp add: Let_def engine_inv_stats acct_def ended_def)
qed (use inv in \<open>auto simp: handle_notification_def split: option.split sum.split\<close>)

lemma handle_region_invalidate_inv:
  "engine_inv env winv outs Q E e \<Longrightarrow> engine_inv env winv outs Q E (handle_region_invalidate m e)"
  by (auto simp: handle_region_invalidate_def intro: engine_inv_core split: option.split sum.split)

lemma notification_ended_inv:
  assumes inv: "engine_inv env winv outs Q E e" and f: "kept f"
  shows "engine_inv env winv outs Q E (case take_notification k e of
     (None, e1) \<Rightarrow> e1 | (Some i, e1) \<Rightarrow> publish env i (upd_req i f e1))"
proof -
  obtain x e1 where take: "take_notification k e = (x, e1)" by fastforce
  note t = take_notification_inv [OF inv take]
  show ?thesis
  proof (cases x)
    case (Some i)
    then have "engine_inv env winv outs Q E (upd_req i f e1)" using t by (intro engine_inv_ended f) simp_all
    with take Some show ?thesis by simp
  qed (simp add: take t)
qed

lemma handle_notification_ends_inv:
  assumes "engine_inv env winv outs Q E e"
  shows "engine_inv env winv outs Q E (handle_notification_ack env m e)"
    "engine_inv env winv outs Q E (handle_notification_refused env m e)"
  using assms notification_ended_inv [OF assms kept_comp [OF kept_ops(2,4)]] notification_ended_inv [OF assms kept_ops(1)]
  by (auto simp: handle_notification_ack_def handle_notification_refused_def split: option.split sum.split)

lemma handle_control_inv:
  assumes "engine_inv env winv outs Q E e" "j < length (env_providers env)"
  shows "engine_inv env winv outs Q E (handle_control env j m e)"
  using assms handle_ready_handoff_inv handle_notification_inv handle_region_invalidate_inv handle_notification_ends_inv
  by (simp add: handle_control_def Let_def split: control_type.split)

lemma fold_inv: "(\<And>x s. x \<in> set xs \<Longrightarrow> P s \<Longrightarrow> P (f x s)) \<Longrightarrow> P s \<Longrightarrow> P (fold f xs s)"
  by (induction xs arbitrary: s) auto

lemma poll_control_of_inv:
  assumes inv: "engine_inv env winv outs Q E e" and j: "j < length (env_providers env)"
  shows "engine_inv env winv outs Q E (poll_control_of env j e)"
proof -
  obtain s msgs e1 where c: "call (po_poll_control (the_prov env j) (unat (cq_batch (env_cfg env)))) e = ((s, msgs), e1)"
    by (metis prod.collapse)
  have "engine_inv env winv outs Q E e1"
    by (rule call_inv(1) [OF inv c]) (rule transport_provider.poll_control_law [OF prov [OF j] winv_world [OF inv]])
  with c j show ?thesis by (simp add: poll_control_of_def handle_control_inv fold_inv)
qed

lemma poll_arrivals_of_inv:
  assumes inv: "engine_inv env winv outs Q E e" and j: "j < length (env_providers env)"
  shows "engine_inv env winv outs Q E (poll_arrivals_of env j e)"
proof -
  obtain s as e1 where c: "call (po_poll_peer_arrivals (the_prov env j) (unat (cq_batch (env_cfg env)))) e = ((s, as), e1)"
    by (metis prod.collapse)
  have "engine_inv env winv outs Q E e1"
    by (rule call_inv(1) [OF inv c]) (rule transport_provider.arrivals_law [OF prov [OF j] winv_world [OF inv]])
  with c show ?thesis by (simp add: poll_arrivals_of_def keep_ready_inv fold_inv)
qed

end

section \<open>Completions\<close>

text \<open>
  One completion of a request in flight: it goes on, or that was its last and nothing of it is
  left with a transport.
\<close>

lemma live_complete:
  assumes "live_ok r P (Suc k)"
  shows "\<not> fst (on_subop_complete ev r) \<Longrightarrow> live_ok (snd (on_subop_complete ev r)) P k"
    "fst (on_subop_complete ev r) \<Longrightarrow> k = 0"
proof -
  have nt: "\<not> terminal r" and n: "unat (rq_completed r) + Suc k = unat (rq_accepted r)"
    using assms by (simp_all add: live_ok_def)
  have u: "unat (rq_completed r + 1) = Suc (unat (rq_completed r))"
    using n by (intro unat_suc [of _ "rq_accepted r"]) (simp add: word_less_nat_alt)
  have ab: "abandoning r \<Longrightarrow> abandoning (snd (on_subop_complete ev r))"
    using nt by (auto simp: abandoning_def on_subop_complete_def Let_def terminal_def record_error_def)
  have pl: "rq_parts_left (snd (on_subop_complete ev r)) = rq_parts_left r"
    using nt by (simp add: on_subop_complete_def Let_def record_error_def)
  note s = on_subop_complete_simps [OF nt]
  show "live_ok (snd (on_subop_complete ev r)) P k" if "\<not> fst (on_subop_complete ev r)"
    using assms that ab s(6) unfolding live_ok_def s(1-5,7) pl u word_le_nat_alt by (auto simp: u split: if_splits)
  show "k = 0" if "fst (on_subop_complete ev r)"
    using assms that s(7) n by (auto simp: live_ok_def word_le_nat_alt u split: if_splits)
qed


lemma completion_others:
  assumes "core_inv n (add_mset (i, k) M) W e"
  shows "\<forall>j. j \<noteq> i \<longrightarrow> slot_ok M W e j" "wiring_ok n W e" "ids_ok e" "stats_ok e" "slot_ok (add_mset (i, k) M) W e i"
proof -
  have "slot_ok M W e j" if "j \<noteq> i" for j
    using assms that slot_cong [of M j "add_mset (i, k) M" W W e e] by (simp add: core_inv_def)
  then show "\<forall>j. j \<noteq> i \<longrightarrow> slot_ok M W e j" by blast
qed (use assms in \<open>simp_all add: core_inv_def\<close>)

lemma completion_not_mine:
  assumes "core_inv n (add_mset (i, k) M) W e" "i \<notin> set (e_inflight e)"
  shows "core_inv n M W e"
proof -
  note c = completion_others [OF assms(1)]
  have "slot_ok M W e i" using c(5) assms(2) by (auto simp: slot_ok_def split: option.splits)
  with c show ?thesis unfolding core_inv_def by metis
qed

lemma completion_goes_on:
  assumes inv: "core_inv n (add_mset (i, k) M) W e" and i: "i \<in> set (e_inflight e)" "e_reqs e i = Some r"
    and f: "kept f" "live_ok r (parts_of W i) (Suc (due M i)) \<Longrightarrow> live_ok (f r) (parts_of W i) (due M i)"
  shows "core_inv n M W (upd_req i f e)"
proof -
  note c = completion_others [OF inv]
  have "rq_id r = i" "live_ok r (parts_of W i) (Suc (due M i))" using c(5) i by (simp_all add: slot_ok_def)
  then have "slot_ok M W (upd_req i f e) i" using i f by (simp add: slot_ok_def kept_def)
  then have "\<forall>j. slot_ok M W (upd_req i f e) j" using c(1) by (metis slot_ok_other)
  with c(2-4) f(1) show ?thesis by (simp add: core_inv_def wiring_ok_upd_req ids_ok_upd_req stats_ok_def)
qed

lemma kept_complete: "kept (\<lambda>r. snd (on_subop_complete ev r))"
  by (auto simp: kept_def on_subop_complete_def Let_def record_error_def terminal_def)

lemma core_end_cong:
  assumes "core x = core y" "counts_one f"
  shows "core (upd_req i g (upd_stats f x)) = core (upd_req i g (upd_stats f y))"
  using assms by (simp add: core_def acct_def counts_one_def)

lemma core_upd_req_cong: "core x = core y \<Longrightarrow> core (upd_req i g x) = core (upd_req i g y)"
  by (simp add: core_def)

context engine_transports
begin

lemma send_handoff_keeps:
  assumes "winv (e_world e)" "\<And>j. rq_provider r = Some j \<Longrightarrow> j < length (env_providers env)"
  shows "core (send_handoff env r t e) = core e \<and> e_pending (send_handoff env r t e) = e_pending e \<and>
    winv (e_world (send_handoff env r t e)) \<and> outs (e_world (send_handoff env r t e)) = outs (e_world e)"
proof -
  let ?j = "case rq_provider r of Some j \<Rightarrow> j | None \<Rightarrow> 0"
  let ?pl = "encode_ready_handoff \<lparr>rh_request = rq_id r, rh_region = rt_region t,
     rh_generation = rt_generation t, rh_offset = sp_offset (rt_span t), rh_length = sp_length (rt_span t)\<rparr>"
  have j: "?j < length (env_providers env)" using assms(2) prov0 by (simp split: option.split)
  obtain s w where w: "po_send_control (the_prov env ?j) (rq_conn r) (control_type_code kReadyHandoff) ?pl (e_world e) = (s, w)"
    by fastforce
  from transport_provider.send_control_law [OF prov [OF j] assms(1) w] w show ?thesis
    using assms(1) by (simp add: send_handoff_def Let_def call_def acct_def ended_def)
qed

lemma send_handoffs_keep:
  assumes "\<And>j. rq_provider r = Some j \<Longrightarrow> j < length (env_providers env)"
  shows "winv (e_world e) \<Longrightarrow> core (fold (send_handoff env r) ts e) = core e \<and>
    e_pending (fold (send_handoff env r) ts e) = e_pending e \<and> winv (e_world (fold (send_handoff env r) ts e)) \<and>
    outs (e_world (fold (send_handoff env r) ts e)) = outs (e_world e)"
  using send_handoff_keeps [OF _ assms] by (induction ts arbitrary: e) auto

text \<open>Every way a completed request ends: the counter, the mark and the queue, once each.\<close>

lemma end_completed_ends:
  assumes w: "winv (e_world e)" and p: "\<And>j. rq_provider r = Some j \<Longrightarrow> j < length (env_providers env)"
  shows "\<exists>f g. counts_one f \<and> kept g \<and> (\<forall>s. terminal (g s)) \<and>
    core (end_completed env i r e) = core (upd_req i g (upd_stats f e)) \<and>
    e_pending (end_completed env i r e) = e_pending e \<and> winv (e_world (end_completed env i r e)) \<and>
    outs (e_world (end_completed env i r e)) = outs (e_world e)"
proof -
  consider (cancel) "rq_cancel_requested r" | (err) "\<not> rq_cancel_requested r" "\<not> ei_ok (rq_error r)"
    | (good) "\<not> rq_cancel_requested r" "ei_ok (rq_error r)" by blast
  then show ?thesis
  proof cases
    case cancel
    then show ?thesis using w
      by (intro exI [of _ "\<lambda>s. s\<lparr>requests_cancelled := requests_cancelled s + 1\<rparr>"] exI [of _ finish_cancelled])
        (simp add: end_completed_def count_cancelled_def counts_one_ops kept_ops ends_terminal)
  next
    case err
    then show ?thesis using w
      by (intro exI [of _ "\<lambda>s. s\<lparr>requests_failed := requests_failed s + 1\<rparr>"] exI [of _ "\<lambda>r. fail (rq_error r) r"])
        (simp add: end_completed_def count_failed_def counts_one_ops kept_ops ends_terminal)
  next
    case good
    define mark where "mark = (\<lambda>r. let r1 = mark_stage ST_kTransferComplete r in
       if env_device env \<noteq> None \<and> rq_kind r = kRead then mark_stage ST_kTargetReady r1 else r1)"
    define e2 where "e2 = fold (send_handoff env r) (rq_remote_targets r) (upd_req i mark e)"
    have km: "kept mark" by (simp add: mark_def kept_def mark_stage_def terminal_def Let_def)
    have k: "core e2 = core (upd_req i mark e)" "e_pending e2 = e_pending e" "winv (e_world e2)"
      "outs (e_world e2) = outs (e_world e)"
      using send_handoffs_keep [where r = r and e = "upd_req i mark e" and ts = "rq_remote_targets r", OF p] w by (simp_all add: e2_def)
    have eq: "end_completed env i r e = publish env i (upd_req i finish_success (count_succeeded e2))"
      using good by (simp add: end_completed_def mark_def e2_def Let_def)
    let ?f = "\<lambda>s. s\<lparr>requests_succeeded := requests_succeeded s + 1\<rparr>"
    have "core (upd_req i finish_success (upd_stats ?f e2)) =
        core (upd_req i finish_success (upd_stats ?f (upd_req i mark e)))"
      by (rule core_end_cong [OF k(1) counts_one_ops(3)])
    also have "\<dots> = core (upd_req i (\<lambda>r. finish_success (mark r)) (upd_stats ?f e))"
      by (simp add: core_def option.map_comp comp_def)
    finally show ?thesis
      using k kept_comp [OF kept_ops(2) km]
      by (intro exI [of _ ?f] exI [of _ "\<lambda>r. finish_success (mark r)"])
        (simp add: eq count_succeeded_def counts_one_ops ends_terminal)
  qed
qed

lemma handle_completion_inv:
  assumes inv: "engine_inv env winv outs Q (ev # E) e"
  shows "engine_inv env winv outs Q E (handle_completion env ev e)"
proof -
  let ?n = "length (env_providers env)" and ?i = "ce_request ev" and ?W = "mset (e_pending e) + Q"
  let ?M = "outs (e_world e) + mset (map ce_key E)"
  obtain k where k: "ce_key ev = (?i, k)" by (simp add: ce_key_def)
  have c: "core_inv ?n (add_mset (?i, k) ?M) ?W e" and w: "winv (e_world e)"
    using inv k by (simp_all add: engine_inv_def)
  show ?thesis
  proof (cases "?i \<in> set (e_inflight e)")
    case False
    then show ?thesis using completion_not_mine [OF c] w by (simp add: handle_completion_def engine_inv_def)
  next
    case True
    note o = completion_others [OF c]
    obtain r where r: "e_reqs e ?i = Some r" "rq_id r = ?i" "live_ok r (parts_of ?W ?i) (Suc (due ?M ?i))"
      using o(5) True by (auto simp: slot_ok_def split: option.splits)
    let ?f = "\<lambda>r. snd (on_subop_complete ev r)"
    have up: "upd_req ?i (\<lambda>_. ?f r) e = upd_req ?i ?f e" by (rule upd_req_const [OF r(1)])
    show ?thesis
    proof (cases "fst (on_subop_complete ev r)")
      case False
      have "core_inv ?n ?M ?W (upd_req ?i ?f e)"
        using live_complete(1) [OF _ False] by (intro completion_goes_on [OF c True r(1) kept_complete]) blast
      with False True r up w show ?thesis
        by (simp add: handle_completion_def split_beta Let_def engine_inv_def)
    next
      case lst: True
      let ?e1 = "upd_req ?i ?f e"
      let ?e2 = "?e1\<lparr>e_inflight := removeAll ?i (e_inflight ?e1)\<rparr>"
      have z: "due ?M ?i = 0" by (rule live_complete(2) [OF r(3) lst])
      have pv: "j < ?n" if "rq_provider (?f r) = Some j" for j
        using o(2) r(1) that kept_complete [of ev] by (simp add: wiring_ok_def kept_def)
      obtain f g where e: "counts_one f" "kept g" "\<forall>s. terminal (g s)"
        "core (end_completed env ?i (?f r) ?e2) = core (upd_req ?i g (upd_stats f ?e2))"
        "e_pending (end_completed env ?i (?f r) ?e2) = e_pending ?e2" "winv (e_world (end_completed env ?i (?f r) ?e2))"
        "outs (e_world (end_completed env ?i (?f r) ?e2)) = outs (e_world ?e2)"
        using end_completed_ends [of ?e2 "?f r" ?i] pv w by auto
      have "core_inv ?n ?M ?W (upd_req ?i g (upd_stats f ?e2))"
        using o z True r e(1-3) kept_complete [of ev]
        by (intro core_inv_end [where r = "?f r"])
          (simp_all add: wiring_ok_upd_req ids_ok_upd_req stats_ok_def kept_def)
      with core_inv_cong [OF e(4)] e(5-7) have "engine_inv env winv outs Q E (end_completed env ?i (?f r) ?e2)"
        by (simp add: engine_inv_def)
      with lst True r up show ?thesis
        by (simp add: handle_completion_def split_beta Let_def claim_def)
    qed
  qed
qed

lemma handle_completions_inv:
  "engine_inv env winv outs Q (evs @ E) e \<Longrightarrow> engine_inv env winv outs Q E (fold (handle_completion env) evs e)"
  by (induction evs arbitrary: e) (simp_all add: handle_completion_inv)

lemma poll_all_inv:
  "\<forall>j\<in>set js. j < length (env_providers env) \<Longrightarrow> engine_inv env winv outs Q (evs @ E) e \<Longrightarrow>
   poll_all env js s evs e = (s', evs', e') \<Longrightarrow> engine_inv env winv outs Q (evs' @ E) e'"
proof (induction js arbitrary: s evs e)
  case (Cons j js)
  obtain t batch w where p: "po_poll (the_prov env j) (unat (cq_batch (env_cfg env))) (e_world e) = ((t, batch), w)"
    by (metis prod.collapse)
  have j: "j < length (env_providers env)" using Cons.prems(1) by simp
  have "winv w \<and> outs (e_world e) = mset (map ce_key batch) + outs w"
    by (rule transport_provider.poll_law [OF prov [OF j] winv_world [OF Cons.prems(2)] p])
  then have "engine_inv env winv outs Q ((evs @ batch) @ E) (e\<lparr>e_world := w\<rparr>)"
    using Cons.prems(2) by (simp add: engine_inv_def ac_simps)
  with Cons.IH [OF _ this] Cons.prems p show ?case by (simp add: call_def)
qed simp

end


section \<open>Peers that are gone\<close>

lemma bump_inv:
  assumes inv: "engine_inv env winv outs Q E e"
  shows "engine_inv env winv outs Q E (upd_peer q bump_epoch e)" (is "engine_inv _ _ _ _ _ ?e")
proof -
  have str: "stranded (e_peer_objs e) r \<Longrightarrow> stranded (e_peer_objs ?e) r" for r
    by (auto simp: stranded_def upd_peer_def bump_epoch_def)
  have "slot_ok M W e j \<Longrightarrow> slot_ok M W ?e j" for M W j
    using str by (auto simp: slot_ok_def upd_peer_def split: option.splits)
  with inv show ?thesis
    by (auto simp: engine_inv_def core_inv_def wiring_ok_def ids_ok_def stats_ok_def upd_peer_def bump_epoch_def)
qed

context engine_transports
begin

lemma disconnect_lanes_inv:
  "\<forall>l\<in>set ls. ln_provider l < length (env_providers env) \<Longrightarrow> engine_inv env winv outs Q E e \<Longrightarrow>
   disconnect_lanes env ls s e = (s', e') \<Longrightarrow>
   engine_inv env winv outs Q E e' \<and> core e' = core e \<and> e_pending e' = e_pending e"
proof (induction ls arbitrary: s e)
  case (Cons l ls)
  obtain t e1 where c: "call (po_disconnect (the_prov env (ln_provider l)) (ln_conn l)) e = (t, e1)" by fastforce
  have l: "ln_provider l < length (env_providers env)" using Cons.prems(1) by simp
  note i = call_inv [OF Cons.prems(2) c
      transport_provider.disconnect_law [OF prov [OF l] winv_world [OF Cons.prems(2)]]]
  have "disconnect_lanes env ls (if t \<noteq> kOk \<and> s = kOk then t else s) e1 = (s', e')"
    using Cons.prems(3) c by simp
  from Cons.IH [OF _ i(1) this] Cons.prems(1) i(2,3) show ?case by simp
qed simp

end

definition strand :: "'w engine_env \<Rightarrow> peer \<Rightarrow> request \<Rightarrow> request" where
  "strand env p r = fail (stranded_error env p r) (seal_accepted r)"

lemma strand_props: "kept (strand env p)" "terminal (strand env p r)" "\<not> terminal r \<Longrightarrow> rq_state (strand env p r) = RS_kFailed"
  by (simp_all add: kept_def strand_def request_ops terminal_def is_terminal_def Let_def)

lemma end_stranded_fold:
  fixes env p xs e
  defines "e' \<equiv> fold (end_stranded env p) xs e"
  assumes "distinct xs"
  shows "e_reqs e' = (\<lambda>i. if i \<in> set xs then map_option (strand env p) (e_reqs e i) else e_reqs e i)"
    "e_inflight e' = e_inflight e" "e_peer_objs e' = e_peer_objs e" "e_pending e' = e_pending e" "e_world e' = e_world e"
    "e_next_request e' = e_next_request e" "e_next_peer e' = e_next_peer e" "e_notify_pending e' = e_notify_pending e"
    "requests_accepted (e_stats e') = requests_accepted (e_stats e)"
    "ended (e_stats e') = ended (e_stats e) + word_of_nat (length xs)"
proof -
  have st: "requests_accepted (e_stats (publish env i x)) = requests_accepted (e_stats x)"
    "ended (e_stats (publish env i x)) = ended (e_stats x)" "e_next_peer (publish env i x) = e_next_peer x" for i and x :: "'a engine"
    using publish_simps(1) [of env i x] by (simp_all add: core_def acct_def)
  have one: "e_reqs (end_stranded env p i x) = (e_reqs x)(i := map_option (strand env p) (e_reqs x i))"
    "e_inflight (end_stranded env p i x) = e_inflight x" "e_peer_objs (end_stranded env p i x) = e_peer_objs x"
    "e_pending (end_stranded env p i x) = e_pending x" "e_world (end_stranded env p i x) = e_world x"
    "e_next_request (end_stranded env p i x) = e_next_request x" "e_next_peer (end_stranded env p i x) = e_next_peer x"
    "e_notify_pending (end_stranded env p i x) = e_notify_pending x"
    "requests_accepted (e_stats (end_stranded env p i x)) = requests_accepted (e_stats x)"
    "ended (e_stats (end_stranded env p i x)) = ended (e_stats x) + 1" for i and x :: "'a engine"
    by (simp_all add: end_stranded_def count_failed_def st strand_def [abs_def]) (simp add: ended_def)
  show "e_reqs e' = (\<lambda>i. if i \<in> set xs then map_option (strand env p) (e_reqs e i) else e_reqs e i)"
    using assms(2) unfolding e'_def by (induction xs arbitrary: e) (auto simp: one fun_eq_iff)
  show "e_inflight e' = e_inflight e" "e_peer_objs e' = e_peer_objs e" "e_pending e' = e_pending e" "e_world e' = e_world e"
    "e_next_request e' = e_next_request e" "e_next_peer e' = e_next_peer e" "e_notify_pending e' = e_notify_pending e"
    "requests_accepted (e_stats e') = requests_accepted (e_stats e)"
    unfolding e'_def by (induction xs arbitrary: e) (simp_all add: one)
  show "ended (e_stats e') = ended (e_stats e) + word_of_nat (length xs)"
    unfolding e'_def by (induction xs arbitrary: e) (simp_all add: one)
qed

text \<open>Every request of a peer that is gone ends, whatever a transport still has of it.\<close>

lemma strand_all_inv:
  assumes inv: "core_inv n M W e" and q: "e_peer_objs e q = Some p'" "\<not> pr_connected p'"
  defines "B \<equiv> belongs_to e q"
  shows "core_inv n M W (fold (end_stranded env p) (filter B (e_inflight e))
     (e\<lparr>e_inflight := filter (\<lambda>i. \<not> B i) (e_inflight e)\<rparr>))"
proof -
  let ?xs = "filter B (e_inflight e)" and ?start = "e\<lparr>e_inflight := filter (\<lambda>i. \<not> B i) (e_inflight e)\<rparr>"
  let ?e = "fold (end_stranded env p) ?xs ?start"
  have d: "distinct ?xs" using inv by (simp add: core_inv_def ids_ok_def)
  note f = end_stranded_fold [OF d, of env p ?start]
  have "slot_ok M W ?e j" for j
  proof (cases "j \<in> set (e_inflight e) \<and> B j")
    case False
    then have "slot_ok M W ?e j = slot_ok M W e j" by (intro slot_cong) (auto simp: f)
    with inv show ?thesis by (simp add: core_inv_def)
  next
    case True
    obtain r where r: "e_reqs e j = Some r" "rq_peer r = q" using True by (auto simp: B_def belongs_to_def split: option.splits)
    have l: "rq_id r = j" "\<not> terminal r"
      using inv r True by (auto simp: core_inv_def slot_ok_def live_ok_def dest!: spec [of _ j])
    have k: "rq_id (strand env p r) = j" "rq_peer (strand env p r) = q"
      using strand_props(1) [of env p] l r by (simp_all add: kept_def)
    then have "stranded (e_peer_objs e) (strand env p r)" using q l strand_props(3) by (simp add: stranded_def)
    moreover have "e_reqs ?e j = Some (strand env p r)" "j \<notin> set (e_inflight ?e)" "e_peer_objs ?e = e_peer_objs e"
      using True r by (simp_all add: f)
    ultimately show ?thesis using k by (simp add: slot_ok_def strand_props(2))
  qed
  moreover have "wiring_ok n W ?e"
  proof -
    have "rq_provider (strand env p r) = rq_provider r" for r using strand_props(1) [of env p] by (simp add: kept_def)
    with inv show ?thesis by (auto simp: core_inv_def wiring_ok_def f split: if_splits)
  qed
  moreover have "ids_ok ?e" using inv by (auto simp: core_inv_def ids_ok_def f split: if_splits)
  moreover have "stats_ok ?e"
  proof -
    have "(of_nat (length (e_inflight e)) :: u64) = of_nat (length ?xs) + of_nat (length (filter (\<lambda>i. \<not> B i) (e_inflight e)))"
      by (metis of_nat_add sum_length_filter_compl)
    with inv show ?thesis by (simp add: core_inv_def stats_ok_def f add.assoc)
  qed
  ultimately show ?thesis by (simp add: core_inv_def)
qed

context engine_transports
begin

lemma reap_peer_inv:
  assumes inv: "engine_inv env winv outs Q E e" and l: "\<forall>l\<in>set (pr_lanes p). ln_provider l < length (env_providers env)"
    and q: "e_peer_objs e (pr_id p) \<noteq> None"
  shows "engine_inv env winv outs Q E (reap_peer env p e)"
    "e_peer_objs e q' \<noteq> None \<Longrightarrow> e_peer_objs (reap_peer env p e) q' \<noteq> None"
proof -
  let ?e1 = "upd_peer (pr_id p) bump_epoch e" and ?n = "length (env_providers env)"
  note i1 = bump_inv [OF inv, of "pr_id p"]
  obtain s e2 where d: "disconnect_lanes env (pr_lanes p) kOk ?e1 = (s, e2)" by fastforce
  note i2 = disconnect_lanes_inv [OF l i1 d]
  let ?B = "belongs_to e2 (pr_id p)"
  let ?e3 = "e2\<lparr>e_inflight := filter (\<lambda>i. \<not> ?B i) (e_inflight e2)\<rparr>"
  let ?xs = "filter ?B (e_inflight e2)" and ?e4 = "fold (end_stranded env p) (filter ?B (e_inflight e2)) ?e3"
  obtain p' where p': "e_peer_objs e2 (pr_id p) = Some p'" "\<not> pr_connected p'"
    using q core_fields(3) [of e2 ?e1] i2 by (auto simp: upd_peer_def bump_epoch_def)
  have c2: "core_inv ?n (outs (e_world e2) + mset (map ce_key E)) (mset (e_pending e2) + Q) e2"
    and w2: "winv (e_world e2)" using conjunct1 [OF i2] by (simp_all add: engine_inv_def)
  from c2 have "distinct ?xs" by (simp add: core_inv_def ids_ok_def)
  note f = end_stranded_fold [OF this, of env p ?e3]
  from strand_all_inv [OF c2 p', of env p] w2
  have i4: "engine_inv env winv outs Q E ?e4" unfolding engine_inv_def f by simp
  have eq: "reap_peer env p e = end_notifications env (pr_id p) False
      (gone_error (pr_id p) ''the peer went before acknowledging; whether it arrived is not known'') ?e4"
    by (simp add: reap_peer_def d Let_def)
  show "engine_inv env winv outs Q E (reap_peer env p e)" unfolding eq by (rule end_notifications_inv [OF i4])
  have po: "e_peer_objs (end_notifications env a b err x) = e_peer_objs x" for a b err and x :: "'w engine"
  proof -
    have "e_peer_objs (fold (end_notification env err) ys y) = e_peer_objs y" for ys and y :: "'w engine"
      by (induction ys arbitrary: y) (simp_all add: end_notification_def)
    then show ?thesis by (simp add: end_notifications_def Let_def)
  qed
  show "e_peer_objs (reap_peer env p e) q' \<noteq> None" if "e_peer_objs e q' \<noteq> None"
    using that core_fields(3) [of e2 ?e1] i2 by (auto simp: eq po f upd_peer_def)
qed

lemma reap_departed_peers_inv:
  assumes inv: "engine_inv env winv outs Q E e"
  shows "engine_inv env winv outs Q E (reap_departed_peers env e)"
proof -
  have g: "\<exists>q. e_peer_objs e q = Some p" if "p \<in> set (gone_peers env e)" for p
    using that by (auto simp: gone_peers_def List.map_filter_def)
  have ok: "(\<forall>l\<in>set (pr_lanes p). ln_provider l < length (env_providers env)) \<and> e_peer_objs e (pr_id p) \<noteq> None"
    if "p \<in> set (gone_peers env e)" for p
    using g [OF that] inv by (auto simp: engine_inv_def core_inv_def wiring_ok_def)
  have "engine_inv env winv outs Q E x \<and> (\<forall>q. e_peer_objs e q \<noteq> None \<longrightarrow> e_peer_objs x q \<noteq> None) \<Longrightarrow>
     p \<in> set (gone_peers env e) \<Longrightarrow> engine_inv env winv outs Q E (reap_peer env p x) \<and>
     (\<forall>q. e_peer_objs e q \<noteq> None \<longrightarrow> e_peer_objs (reap_peer env p x) q \<noteq> None)" for p x
    using ok [of p] reap_peer_inv [of Q E x p] by simp
  then have "engine_inv env winv outs Q E (fold (reap_peer env) (gone_peers env e) e) \<and>
     (\<forall>q. e_peer_objs e q \<noteq> None \<longrightarrow> e_peer_objs (fold (reap_peer env) (gone_peers env e) e) q \<noteq> None)"
    using inv by (intro fold_inv [where P = "\<lambda>x. engine_inv env winv outs Q E x \<and> (\<forall>q. e_peer_objs e q \<noteq> None \<longrightarrow> e_peer_objs x q \<noteq> None)"]) auto
  then show ?thesis by (simp add: reap_departed_peers_def)
qed

lemma remove_peer_inv:
  assumes inv: "engine_inv env winv outs Q E e"
  shows "engine_inv env winv outs Q E (snd (remove_peer env peer e))"
proof (cases "Option.bind peer (e_peer_objs e)")
  case (Some p)
  obtain q where q: "e_peer_objs e q = Some p" using Some by (cases peer) auto
  then have l: "\<forall>l\<in>set (pr_lanes p). ln_provider l < length (env_providers env)"
    using inv by (auto simp: engine_inv_def core_inv_def wiring_ok_def)
  let ?e1 = "upd_peer (pr_id p) bump_epoch e"
  have "engine_inv env winv outs Q E (?e1\<lparr>e_peers := removeAll (pr_id p) (e_peers ?e1)\<rparr>)"
    using bump_inv [OF inv] by (rule engine_inv_core) simp_all
  from disconnect_lanes_inv [OF l end_notifications_inv [OF this]] Some show ?thesis
    by (auto simp: remove_peer_def Let_def split: prod.split) (metis snd_conv surj_pair)
qed (simp add: remove_peer_def inv)

end

end
