(* ===== verification/Hux_Run.thy ===== *)
theory Hux_Run
  imports Hux_Ends
begin

text \<open>
  The methods an application calls keep the invariant: progress and the polls built on it,
  closing, cancelling, registering memory, and adding peers.
\<close>

section \<open>Progress\<close>

context engine_transports
begin

lemma progress_inv:
  assumes inv: "engine_inv env winv outs {#} [] e"
  shows "engine_inv env winv outs {#} [] (snd (progress env e))"
proof -
  let ?js = "[0 ..< length (env_providers env)]"
  let ?e3 = "end_notifications env 0 True no_error (reap_departed_peers env (drain_pending env e))"
  let ?e5 = "fold (poll_arrivals_of env) ?js (fold (poll_control_of env) ?js ?e3)"
  have "engine_inv env winv outs {#} [] ?e3"
    by (intro end_notifications_inv reap_departed_peers_inv drain_pending_inv inv)
  then have i5: "engine_inv env winv outs {#} ([] @ []) ?e5"
    by (auto intro!: fold_inv [where P = "engine_inv env winv outs {#} []"] poll_control_of_inv poll_arrivals_of_inv)
  obtain s evs e6 where p: "poll_all env ?js kOk [] ?e5 = (s, evs, e6)" by (rule prod_cases3)
  have "engine_inv env winv outs {#} (evs @ []) e6" by (rule poll_all_inv [OF _ i5 p]) simp
  from handle_completions_inv [OF this] p show ?thesis by (simp add: progress_def Let_def)
qed

lemma explicit_progress_inv:
  "engine_inv env winv outs {#} [] e \<Longrightarrow> engine_inv env winv outs {#} [] (snd (explicit_progress env e))"
  by (simp add: explicit_progress_def progress_inv)

lemma polls_inv:
  assumes "engine_inv env winv outs {#} [] e"
  shows "engine_inv env winv outs {#} [] (snd (poll_notifications env n e))"
    "engine_inv env winv outs {#} [] (snd (poll_completions env n e))"
    "engine_inv env winv outs {#} [] (snd (poll_ready_events env n e))"
  by (auto simp: poll_notifications_def poll_completions_def poll_ready_events_def Let_def split_beta
      intro!: engine_inv_core [OF explicit_progress_inv [OF assms]])

lemma close_loop_inv:
  "engine_inv env winv outs {#} [] e \<Longrightarrow> engine_inv env winv outs {#} [] (snd (close_loop env n e))"
  by (induction n arbitrary: e) (simp_all add: progress_inv)

lemma close_inv:
  assumes "engine_inv env winv outs {#} [] e"
  shows "engine_inv env winv outs {#} [] (snd (close env n e))"
proof -
  have "engine_inv env winv outs {#} [] (e\<lparr>e_closed := True\<rparr>)" using assms by (rule engine_inv_core) simp_all
  from close_loop_inv [OF this, of n] show ?thesis
    by (simp add: close_def split_beta end_notifications_inv)
qed

lemma cancel_request_inv:
  "engine_inv env winv outs Q E e \<Longrightarrow> engine_inv env winv outs Q E (snd (cancel_request i e))"
  by (auto simp: cancel_request_def split: option.split intro: engine_inv_benign benign_ops)

lemma record_event_inv:
  assumes "engine_inv env winv outs Q E e"
  shows "engine_inv env winv outs Q E (snd (record_event env e))"
proof (cases "env_device env")
  case (Some d)
  obtain x e1 where c: "call (dv_record_event d) e = (x, e1)" by fastforce
  have "engine_inv env winv outs Q E e1"
    by (rule call_inv(1) [OF assms c]) (rule device_law [OF Some winv_world [OF assms]])
  with c Some show ?thesis by (simp add: record_event_def)
qed (simp add: record_event_def assms)

lemma world_inv:
  assumes "engine_inv env winv outs Q E e" "winv w" "outs w = outs (e_world e)"
  shows "engine_inv env winv outs Q E (e\<lparr>e_world := w\<rparr>)"
  using assms by (simp add: engine_inv_def)

section \<open>Adding a peer\<close>

lemma connect_inv:
  assumes "engine_inv env winv outs Q E e" "j < length (env_providers env)"
    "call (po_connect (the_prov env j) m) e = (x, e')"
  shows "engine_inv env winv outs Q E e'"
  by (rule call_inv(1) [OF assms(1,3)])
    (rule transport_provider.connect_law [OF prov [OF assms(2)] winv_world [OF assms(1)]])

lemma sibling_lanes_inv:
  "\<forall>j\<in>set js. j < length (env_providers env) \<Longrightarrow> engine_inv env winv outs Q E e \<Longrightarrow>
   \<forall>l\<in>set lanes. ln_provider l < length (env_providers env) \<Longrightarrow>
   sibling_lanes env pm chosen js lanes e = (lanes', e') \<Longrightarrow>
   engine_inv env winv outs Q E e' \<and> (\<forall>l\<in>set lanes'. ln_provider l < length (env_providers env))"
proof (induction js arbitrary: lanes e)
  case (Cons j js)
  have j: "j < length (env_providers env)" and js: "\<forall>j\<in>set js. j < length (env_providers env)"
    using Cons.prems(1) by simp_all
  obtain c where c: "c = call (po_connect (the_prov env j) (the (map_of (pm_offered pm) (prov_name env j)))) e" by simp
  have i1: "engine_inv env winv outs Q E (snd c)" using connect_inv [OF Cons.prems(2) j] c by (metis prod.collapse)
  from Cons.prems(4) consider
    "sibling_lanes env pm chosen js lanes e = (lanes', e')"
    | "sibling_lanes env pm chosen js lanes (snd c) = (lanes', e')"
    | x where "sibling_lanes env pm chosen js (lanes @ [make_lane env j x]) (snd c) = (lanes', e')"
    by (auto simp: c split: if_splits option.splits prod.splits sum.splits)
  then show ?case
  proof cases
    case 3
    have "\<forall>l\<in>set (lanes @ [make_lane env j x]). ln_provider l < length (env_providers env)"
      using Cons.prems(3) j by (auto simp: make_lane_def)
    from Cons.IH [OF js i1 this 3] show ?thesis .
  qed (use Cons.IH [OF js _ Cons.prems(3)] Cons.prems(2) i1 in blast)+
qed simp

lemma peer_added_inv:
  assumes inv: "engine_inv env winv outs Q E e" and nz: "e_next_peer e + 1 \<noteq> 0"
    and p: "pr_id p = e_next_peer e" "\<forall>l\<in>set (pr_lanes p). ln_provider l < length (env_providers env)"
  shows "engine_inv env winv outs Q E (e\<lparr>e_next_peer := e_next_peer e + 1,
     e_peer_objs := (e_peer_objs e)(e_next_peer e \<mapsto> p), e_peers := ps\<rparr>)" (is "engine_inv _ _ _ _ _ ?e")
proof -
  have none: "e_peer_objs e (e_next_peer e) = None"
    using inv by (force simp: engine_inv_def core_inv_def ids_ok_def)
  have str: "stranded (e_peer_objs e) r \<Longrightarrow> stranded (e_peer_objs ?e) r" for r
    using none by (auto simp: stranded_def)
  have "slot_ok M W e j \<Longrightarrow> slot_ok M W ?e j" for M W j
    using str by (auto simp: slot_ok_def split: option.splits)
  with inv p show ?thesis
    by (auto simp: engine_inv_def core_inv_def wiring_ok_def ids_ok_def stats_ok_def word_less_suc [OF nz] less_imp_le)
qed

lemma choose_loop_index: "choose_loop env pm js = Some (j, m) \<Longrightarrow> j \<in> set js"
  by (induction js) (auto split: if_splits option.splits)

end

lemma sibling_lanes_next_peer: "sibling_lanes env pm chosen js lanes e = (lanes', e') \<Longrightarrow> e_next_peer e' = e_next_peer e"
  by (induction js arbitrary: lanes e) (force simp: call_def split: if_splits option.splits prod.splits sum.splits)+

context engine_transports
begin

lemma add_peer_inv:
  assumes inv: "engine_inv env winv outs Q E e" and nz: "e_next_peer e + 1 \<noteq> 0"
  shows "engine_inv env winv outs Q E (snd (add_peer env md e))"
proof (cases "\<exists>pm j m. parse_metadata (env_identity env) md = Some (Inr pm) \<and>
    choose_loop env pm [0 ..< length (env_providers env)] = Some (j, m)")
  case False
  with inv show ?thesis by (auto simp: add_peer_def split: option.split sum.split)
next
  case True
  then obtain pm j m where pm: "parse_metadata (env_identity env) md = Some (Inr pm)"
    and ch: "choose_loop env pm [0 ..< length (env_providers env)] = Some (j, m)" by blast
  have j: "j < length (env_providers env)" using choose_loop_index [OF ch] by simp
  obtain x e1 where con: "call (po_connect (the_prov env j) m) e = (x, e1)" by fastforce
  note i1 = connect_inv [OF inv j con]
  show ?thesis
  proof (cases x)
    case (Inl s)
    with pm ch con i1 show ?thesis by (simp add: add_peer_def)
  next
    case (Inr c)
    obtain lanes e2 where sib: "sibling_lanes env pm j [0 ..< length (env_providers env)] [make_lane env j c] e1 = (lanes, e2)"
      by fastforce
    have i2: "engine_inv env winv outs Q E e2" "\<forall>l\<in>set lanes. ln_provider l < length (env_providers env)"
      using sibling_lanes_inv [OF _ i1 _ sib] j by (simp_all add: make_lane_def)
    have "e_next_peer e2 = e_next_peer e" using sibling_lanes_next_peer [OF sib] con by (auto simp: call_def split: prod.splits)
    with peer_added_inv [OF i2(1)] i2(2) nz pm ch con sib Inr show ?thesis
      by (simp add: add_peer_def Let_def)
  qed
qed

lemma import_region_inv:
  assumes "engine_inv env winv outs Q E e"
  shows "engine_inv env winv outs Q E (snd (import_region env q d e))"
proof -
  have "core (snd (import_region env q d e)) = core e" "e_pending (snd (import_region env q d e)) = e_pending e"
    "e_world (snd (import_region env q d e)) = e_world e"
    by (simp_all add: import_region_def Let_def split: option.split sum.split)
  then show ?thesis by (rule engine_inv_core [OF assms])
qed

lemma import_region_batch_inv:
  "engine_inv env winv outs Q E e \<Longrightarrow> engine_inv env winv outs Q E (snd (import_region_batch env q ds e))"
proof (induction ds arbitrary: e)
  case (Cons d ds)
  from import_region_inv [OF Cons.prems, of q d] Cons.IH show ?case by (simp add: split_beta split: sum.split)
qed simp

end

end
