(* ===== verification/Hux_Regs.thy ===== *)
theory Hux_Regs
  imports Hux_Run
begin

text \<open>
  The registry: a registration is released exactly when nothing refers to it any more, once, and
  never while a region object that someone holds was built on it. \<open>X\<close> below are the
  registrations a method has in its own variables.
\<close>

section \<open>The invariant\<close>

definition reg_ok :: "nat \<Rightarrow> nat \<Rightarrow> registration \<Rightarrow> bool" where
  "reg_ok n k r \<longleftrightarrow> rg_id r < k \<and> (\<forall>x\<in>set (rg_held r). fst x < n)"

definition built_on :: "'w engine \<Rightarrow> nat \<Rightarrow> bool" where
  "built_on e x \<longleftrightarrow> (\<exists>i\<in>set (e_alive e). case e_region_objs e i of None \<Rightarrow> False | Some m \<Rightarrow> rg_id (mr_reg m) = x)"

definition owned :: "nat set \<Rightarrow> 'w engine \<Rightarrow> nat \<Rightarrow> bool" where
  "owned X e x \<longleftrightarrow> x \<in> X \<or> x \<in> rg_id ` set (e_reg_cache e) \<or> built_on e x"

definition held_alive :: "'w engine \<Rightarrow> bool" where
  "held_alive e \<longleftrightarrow> (\<forall>q\<in>set (e_inflight e). case e_reqs e q of
     None \<Rightarrow> True | Some r \<Rightarrow> set (rq_held_regions r) \<subseteq> set (e_alive e))"

definition regs_inv :: "nat \<Rightarrow> nat set \<Rightarrow> 'w engine \<Rightarrow> bool" where
  "regs_inv n X e \<longleftrightarrow>
     (\<forall>r\<in>set (e_reg_cache e). reg_ok n (e_next_reg e) r) \<and>
     (\<forall>i m. e_region_objs e i = Some m \<longrightarrow> mr_id m = i \<and> i < e_next_region e \<and> reg_ok n (e_next_reg e) (mr_reg m)) \<and>
     distinct (map rg_id (e_reg_cache e)) \<and> distinct (e_released e) \<and>
     (\<forall>x. x \<in> set (e_released e) \<longleftrightarrow> x < e_next_reg e \<and> \<not> owned X e x) \<and>
     (\<forall>x\<in>X. x < e_next_reg e) \<and>
     set (e_regions e) \<subseteq> set (e_alive e) \<and> (\<forall>i\<in>set (e_alive e). e_region_objs e i \<noteq> None) \<and> held_alive e"

lemma regs_invD:
  assumes "regs_inv n X e"
  shows "\<forall>r\<in>set (e_reg_cache e). reg_ok n (e_next_reg e) r"
    "\<forall>i m. e_region_objs e i = Some m \<longrightarrow> mr_id m = i \<and> i < e_next_region e \<and> reg_ok n (e_next_reg e) (mr_reg m)"
    "distinct (map rg_id (e_reg_cache e))" "distinct (e_released e)"
    "\<forall>x. x \<in> set (e_released e) \<longleftrightarrow> x < e_next_reg e \<and> \<not> owned X e x" "\<forall>x\<in>X. x < e_next_reg e"
    "set (e_regions e) \<subseteq> set (e_alive e)" "\<forall>i\<in>set (e_alive e). e_region_objs e i \<noteq> None" "held_alive e"
  using assms unfolding regs_inv_def by - (elim conjE, assumption)+

definition regview :: "'w engine \<Rightarrow> _" where
  "regview e = (e_region_objs e, e_regions e, e_alive e, e_reg_cache e, e_next_reg e, e_released e, e_next_region e)"

lemma regs_inv_cong:
  assumes "regview e' = regview e" "held_alive e \<Longrightarrow> held_alive e'" "regs_inv n X e"
  shows "regs_inv n X e'"
proof -
  have f: "e_region_objs e' = e_region_objs e" "e_regions e' = e_regions e" "e_alive e' = e_alive e"
    "e_reg_cache e' = e_reg_cache e" "e_next_reg e' = e_next_reg e" "e_released e' = e_released e"
    "e_next_region e' = e_next_region e"
    using assms(1) by (simp_all add: regview_def)
  show ?thesis using assms(2,3) unfolding regs_inv_def owned_def built_on_def f by blast
qed

lemma held_alive_cong:
  "e_inflight e' = e_inflight e \<Longrightarrow> e_reqs e' = e_reqs e \<Longrightarrow> e_alive e' = e_alive e \<Longrightarrow> held_alive e' = held_alive e"
  by (simp only: held_alive_def)

lemma regs_inv_same:
  "regview e' = regview e \<Longrightarrow> e_inflight e' = e_inflight e \<Longrightarrow> e_reqs e' = e_reqs e \<Longrightarrow> regs_inv n X e \<Longrightarrow> regs_inv n X e'"
  using held_alive_cong [of e' e] by (intro regs_inv_cong [of e' e n X]) (simp_all add: regview_def)

lemma reg_in_use_iff: "reg_in_use e r \<longleftrightarrow> built_on e (rg_id r)"
  by (simp add: reg_in_use_def built_on_def)

section \<open>Eviction\<close>

lemma evict_split:
  "evict used bound cache = (rest, dropped) \<Longrightarrow>
   mset cache = mset rest + mset dropped \<and> (\<forall>r\<in>set dropped. \<not> used r) \<and>
   (length rest \<le> bound \<or> (\<forall>r\<in>set rest. used r))"
proof (induction used bound cache arbitrary: rest dropped rule: evict.induct)
  case (1 used bound cache)
  show ?case
  proof (cases "length cache \<le> bound \<or> List.extract (\<lambda>r. \<not> used r) cache = None")
    case True
    then have "rest = cache" "dropped = []"
      using "1.prems" evict.simps [of used bound cache] by (auto split: if_splits option.splits)
    then show ?thesis using True by (auto simp: extract_None_iff)
  next
    case False
    then obtain pre x post where x: "List.extract (\<lambda>r. \<not> used r) cache = Some (pre, x, post)" by (auto split: prod.splits)
    obtain k d where r: "evict used bound (pre @ post) = (k, d)" by fastforce
    have "rest = k" "dropped = x # d"
      using "1.prems" evict.simps [of used bound cache] False x r by simp_all
    moreover have "cache = pre @ x # post" "\<not> used x" using x by (auto dest: extract_SomeE)
    moreover have "\<not> length cache \<le> bound" using False by simp
    moreover note "1.IH" [OF this x refl refl r]
    ultimately show ?thesis by auto
  qed
qed

section \<open>Releasing\<close>

lemma call_simps [simp]:
  "regview (snd (call f e)) = regview e" "e_inflight (snd (call f e)) = e_inflight e" "e_reqs (snd (call f e)) = e_reqs e"
  "e_alive (snd (call f e)) = e_alive e"
  by (simp_all add: call_def regview_def split: prod.split)

definition deregister_keys :: "'w engine_env \<Rightarrow> (nat \<times> u64) list \<Rightarrow> 'w engine \<Rightarrow> 'w engine" where
  "deregister_keys env ks = fold (\<lambda>(j, k) e. snd (call (po_deregister_region (the_prov env j) k) e)) ks"

lemma deregister_keys_simps:
  "regview (deregister_keys env ks e) = regview e" "e_inflight (deregister_keys env ks e) = e_inflight e"
  "e_reqs (deregister_keys env ks e) = e_reqs e"
  unfolding deregister_keys_def by (induction ks arbitrary: e) auto

lemma release_registration_eq:
  "release_registration env r e = (deregister_keys env (rg_held r) e)\<lparr>e_released := e_released e @ [rg_id r]\<rparr>"
  by (simp add: release_registration_def deregister_keys_def)

lemma release_all_fields:
  fixes env rs e
  defines "e' \<equiv> fold (release_registration env) rs e"
  shows "regview e' = regview (e\<lparr>e_released := e_released e @ map rg_id rs\<rparr>)" "e_inflight e' = e_inflight e"
    "e_reqs e' = e_reqs e"
proof -
  have one: "regview (release_registration env r x) = regview (x\<lparr>e_released := e_released x @ [rg_id r]\<rparr>)"
    "e_inflight (release_registration env r x) = e_inflight x" "e_reqs (release_registration env r x) = e_reqs x"
    for r and x :: "'a engine"
    using deregister_keys_simps [of env "rg_held r" x] by (simp_all add: release_registration_eq regview_def)
  show "regview e' = regview (e\<lparr>e_released := e_released e @ map rg_id rs\<rparr>)"
    unfolding e'_def
  proof (induction rs arbitrary: e)
    case (Cons r rs)
    from Cons.IH [of "release_registration env r e"] one(1) [of r e] show ?case by (simp add: regview_def)
  qed simp
  show "e_inflight e' = e_inflight e" "e_reqs e' = e_reqs e"
    unfolding e'_def by (induction rs arbitrary: e) (simp_all add: one)
qed

lemma release_all_counters:
  "e_next_reg (fold (release_registration env) rs e) = e_next_reg e"
  "e_next_region (fold (release_registration env) rs e) = e_next_region e"
  using release_all_fields(1) [of env rs e] by (simp_all add: regview_def)

lemma cache_registration_counters [simp]:
  "e_next_reg (cache_registration env reg e) = e_next_reg e"
  "e_next_region (cache_registration env reg e) = e_next_region e"
  by (simp_all add: cache_registration_def release_all_counters split: prod.split)

text \<open>The engine after a method dropped some of the cache and ran the deleters.\<close>

lemma drop_regs_inv:
  assumes inv: "regs_inv n X e" and split: "mset (e_reg_cache e) = mset rest + mset dropped"
    and free: "\<forall>r\<in>set dropped. \<not> built_on e (rg_id r) \<and> rg_id r \<notin> X"
  shows "regs_inv n X (fold (release_registration env) dropped (e\<lparr>e_reg_cache := rest\<rparr>))"
proof -
  note i = regs_invD [OF inv]
  let ?e = "e\<lparr>e_reg_cache := rest, e_released := e_released e @ map rg_id dropped\<rparr>"
  have set: "set (e_reg_cache e) = set rest \<union> set dropped"
    using arg_cong [OF split, of set_mset] by simp
  have "mset (map rg_id (e_reg_cache e)) = mset (map rg_id (rest @ dropped))"
    using arg_cong [OF split, of "image_mset rg_id"] by simp
  from mset_eq_imp_distinct_iff [OF this] have d: "distinct (map rg_id (rest @ dropped))" using i(3) by blast
  have o: "built_on ?e x = built_on e x" for x by (simp add: built_on_def)
  have ow: "owned X e x \<longleftrightarrow> owned X ?e x \<or> x \<in> rg_id ` set dropped" for x
    by (auto simp: owned_def set o)
  have no: "\<not> owned X ?e x" if "x \<in> rg_id ` set dropped" for x
    using that free d by (auto simp: owned_def o)
  have lt: "x < e_next_reg e" if "x \<in> rg_id ` set dropped" for x
    using that i(1) set by (auto simp: reg_ok_def)
  have "x \<notin> set (e_released e)" if "x \<in> rg_id ` set dropped" for x using that ow i(5) by blast
  then have dr: "distinct (e_released ?e)" using d i(4) by auto
  have rel: "\<forall>x. x \<in> set (e_released ?e) \<longleftrightarrow> x < e_next_reg ?e \<and> \<not> owned X ?e x"
  proof
    fix x
    show "x \<in> set (e_released ?e) \<longleftrightarrow> x < e_next_reg ?e \<and> \<not> owned X ?e x"
      using i(5) [rule_format, of x] ow [of x] no [of x] lt [of x] by (cases "x \<in> rg_id ` set dropped") simp_all
  qed
  have ha: "held_alive ?e" using i(9) by (simp add: held_alive_cong [of ?e e])
  have "regs_inv n X ?e"
    unfolding regs_inv_def using i(1,2,6-8) d dr rel ha set by (intro conjI) simp_all
  moreover note f = release_all_fields [of env dropped "e\<lparr>e_reg_cache := rest\<rparr>"]
  have "held_alive (fold (release_registration env) dropped (e\<lparr>e_reg_cache := rest\<rparr>)) = held_alive ?e"
    using f by (intro held_alive_cong) (simp_all add: regview_def)
  moreover have "regview (fold (release_registration env) dropped (e\<lparr>e_reg_cache := rest\<rparr>)) = regview ?e"
    using f(1) by (simp add: regview_def)
  ultimately show ?thesis using regs_inv_cong by metis
qed

lemma release_cached_regs_inv:
  assumes "regs_inv n {} e"
  shows "regs_inv n {} (snd (release_cached_registrations env e))"
proof -
  have "mset (e_reg_cache e) = mset (filter (reg_in_use e) (e_reg_cache e)) + mset (filter (\<lambda>r. \<not> reg_in_use e r) (e_reg_cache e))"
    by (simp add: multiset_partition [symmetric])
  from drop_regs_inv [OF assms this] show ?thesis
    by (simp add: release_cached_registrations_def Let_def reg_in_use_iff)
qed


section \<open>Registering\<close>

lemma register_loop_fields:
  "register_loop env a len dev acc js (keys, held, fe) e = ((keys', held', fe'), e') \<Longrightarrow>
   regview e' = regview e \<and> e_inflight e' = e_inflight e \<and> e_reqs e' = e_reqs e \<and>
   fst ` set held' \<subseteq> fst ` set held \<union> set js"
proof (induction js arbitrary: keys held fe e)
  case (Cons j js)
  obtain x e1 where c: "call (po_register_region (the_prov env j) a len dev acc) e = (x, e1)" by fastforce
  have f: "regview e1 = regview e" "e_inflight e1 = e_inflight e" "e_reqs e1 = e_reqs e"
    using call_simps [of "po_register_region (the_prov env j) a len dev acc" e] c by simp_all
  obtain k h s where "register_loop env a len dev acc js (k, h, s) e1 = ((keys', held', fe'), e')"
    and h: "fst ` set h \<subseteq> insert j (fst ` set held)"
    using Cons.prems c by (cases x) (auto split: prod.splits)
  note ih = Cons.IH [OF this(1)]
  then have "fst ` set held' \<subseteq> fst ` set held \<union> set (j # js)" using h by (simp only: list.set) blast
  with ih f show ?case by simp
qed simp

lemma new_reg_inv:
  assumes inv: "regs_inv n {} e"
  shows "regs_inv n {e_next_reg e} (e\<lparr>e_next_reg := Suc (e_next_reg e)\<rparr>)" (is "regs_inv n _ ?e")
proof -
  note i = regs_invD [OF inv]
  have up: "reg_ok n k r \<Longrightarrow> reg_ok n (Suc k) r" for k r by (auto simp: reg_ok_def)
  have b: "built_on ?e x = built_on e x" for x by (simp add: built_on_def)
  have lt: "x < e_next_reg e" if "owned {} e x" for x
    using that i(1,2) by (auto simp: owned_def built_on_def reg_ok_def split: option.splits)
  have "\<forall>x. x \<in> set (e_released ?e) \<longleftrightarrow> x < e_next_reg ?e \<and> \<not> owned {e_next_reg e} ?e x"
    using i(5) lt by (auto simp: owned_def b less_Suc_eq)
  moreover have "held_alive ?e" using i(9) by (simp add: held_alive_cong [of ?e e])
  ultimately show ?thesis
    unfolding regs_inv_def using i(1-4,7,8) up by (intro conjI) (auto simp: less_Suc_eq)
qed

lemma cached_inv:
  assumes inv: "regs_inv n {rg_id reg} e" and reg: "reg_ok n (e_next_reg e) reg" "rg_id reg \<notin> rg_id ` set (e_reg_cache e)"
  shows "regs_inv n {rg_id reg} (e\<lparr>e_reg_cache := e_reg_cache e @ [reg]\<rparr>)" (is "regs_inv n ?X ?e")
proof -
  note i = regs_invD [OF inv]
  have "owned ?X ?e x = owned ?X e x" for x by (auto simp: owned_def built_on_def)
  then have "\<forall>x. x \<in> set (e_released ?e) \<longleftrightarrow> x < e_next_reg ?e \<and> \<not> owned ?X ?e x" using i(5) by simp
  moreover have "held_alive ?e" using i(9) by (simp add: held_alive_cong [of ?e e])
  ultimately show ?thesis unfolding regs_inv_def using i(1-4,6-8) reg by (intro conjI) auto
qed

lemma cache_registration_regs:
  assumes inv: "regs_inv n {rg_id reg} e" and reg: "reg_ok n (e_next_reg e) reg" "rg_id reg \<notin> rg_id ` set (e_reg_cache e)"
  shows "regs_inv n {rg_id reg} (cache_registration env reg e)"
proof -
  let ?e = "e\<lparr>e_reg_cache := e_reg_cache e @ [reg]\<rparr>"
  let ?used = "\<lambda>r. reg_in_use e r \<or> rg_id r = rg_id reg"
  obtain rest dropped where ev: "evict ?used (unat (registration_cache_entries (env_cfg env))) (e_reg_cache e @ [reg]) =
     (rest, dropped)" by fastforce
  note sp = evict_split [OF ev]
  have "\<forall>r\<in>set dropped. \<not> built_on ?e (rg_id r) \<and> rg_id r \<notin> {rg_id reg}"
    using sp by (auto simp: reg_in_use_iff built_on_def)
  moreover have "mset (e_reg_cache ?e) = mset rest + mset dropped" using sp by simp
  ultimately show ?thesis
    using drop_regs_inv [OF cached_inv [OF assms], of rest dropped env] ev by (simp add: cache_registration_def)
qed

lemma new_registration_regs:
  assumes inv: "regs_inv (length (env_providers env)) {} e" and new: "new_registration env a len dev acc e = (x, e')"
  shows "case x of Inl s \<Rightarrow> regs_inv (length (env_providers env)) {} e'
    | Inr reg \<Rightarrow> regs_inv (length (env_providers env)) {rg_id reg} e' \<and> reg_ok (length (env_providers env)) (e_next_reg e') reg"
proof -
  let ?n = "length (env_providers env)"
  obtain keys held fe e1 where l: "register_loop env a len dev acc [0 ..< ?n] ([], [], kOk) e = ((keys, held, fe), e1)"
    by (metis prod.collapse)
  note f = register_loop_fields [OF l]
  have i1: "regs_inv ?n {} e1"
    using f by (intro regs_inv_same [OF _ _ _ inv]) simp_all
  show ?thesis
  proof (cases "keys = []")
    case True
    with l new i1 show ?thesis by (auto simp: new_registration_def)
  next
    case False
    define reg where "reg = \<lparr>rg_id = e_next_reg e1, rg_base = a, rg_length = len, rg_device = dev, rg_access = acc,
       rg_keys = keys, rg_local_key = rk_local_key (hd keys), rg_remote_key = rk_remote_key (hd keys), rg_held = held\<rparr>"
    let ?e2 = "e1\<lparr>e_next_reg := Suc (e_next_reg e1)\<rparr>"
    have "new_registration env a len dev acc e =
       (Inr reg, if registration_cache_entries (env_cfg env) > 0 then cache_registration env reg ?e2 else ?e2)"
      using l False by (simp add: new_registration_def reg_def Let_def)
    with new have x: "x = Inr reg"
      "e' = (if registration_cache_entries (env_cfg env) > 0 then cache_registration env reg ?e2 else ?e2)" by simp_all
    have i2: "regs_inv ?n {rg_id reg} ?e2" using new_reg_inv [OF i1] by (simp add: reg_def)
    have ok: "reg_ok ?n (Suc (e_next_reg e1)) reg" using f by (force simp: reg_ok_def reg_def)
    have "rg_id reg \<notin> rg_id ` set (e_reg_cache ?e2)"
      using regs_invD(1) [OF i1] by (auto simp: reg_def reg_ok_def)
    then have i3: "regs_inv ?n {rg_id reg} e'" using i2 ok cache_registration_regs [OF i2] by (simp add: x)
    moreover have "e_next_reg e' = Suc (e_next_reg e1)" by (simp add: x)
    ultimately show ?thesis using ok by (simp add: x)
  qed
qed

lemma add_region_regs:
  assumes inv: "regs_inv n {rg_id reg} e" and reg: "reg_ok n (e_next_reg e) reg" and nz: "e_next_region e + 1 \<noteq> 0"
  shows "regs_inv n {} (snd (add_region env a len dev mem acc reg e))" (is "regs_inv n {} ?e")
proof -
  note i = regs_invD [OF inv]
  let ?i = "e_next_region e"
  have none: "e_region_objs e ?i = None" by (rule ccontr) (auto dest!: i(2) [rule_format])
  have fresh: "?i \<notin> set (e_alive e)" using none i(8) by blast
  obtain m where m: "mr_id m = ?i" "mr_reg m = reg" and e': "?e = e\<lparr>e_next_region := ?i + 1,
     e_region_objs := (e_region_objs e)(?i \<mapsto> m), e_regions := e_regions e @ [?i], e_alive := e_alive e @ [?i]\<rparr>"
    by (force simp: add_region_def Let_def)
  have "built_on ?e x \<longleftrightarrow> built_on e x \<or> x = rg_id reg" for x
    using fresh m by (auto simp: built_on_def e')
  then have "owned {} ?e x = owned {rg_id reg} e x" for x by (auto simp: owned_def e')
  then have "\<forall>x. x \<in> set (e_released ?e) \<longleftrightarrow> x < e_next_reg ?e \<and> \<not> owned {} ?e x" using i(5) by (simp add: e')
  moreover have "held_alive ?e" using i(9) by (auto simp: held_alive_def e' split: option.splits)
  moreover have "\<forall>i m. e_region_objs ?e i = Some m \<longrightarrow> mr_id m = i \<and> i < e_next_region ?e \<and> reg_ok n (e_next_reg ?e) (mr_reg m)"
    using i(2) m reg by (auto simp: e' word_less_suc [OF nz] less_imp_le)
  ultimately show ?thesis
    unfolding regs_inv_def using i(1,3,4,7,8) by (intro conjI) (auto simp: e')
qed

lemma regs_inv_hold:
  assumes inv: "regs_inv n {} e" and r: "r \<in> set (e_reg_cache e)"
  shows "regs_inv n {rg_id r} e"
proof -
  note i = regs_invD [OF inv]
  have "owned {rg_id r} e x = owned {} e x" for x using r by (auto simp: owned_def)
  moreover have "rg_id r < e_next_reg e" using i(1) r by (auto simp: reg_ok_def)
  ultimately show ?thesis unfolding regs_inv_def using i by (intro conjI) simp_all
qed

lemma regs_inv_stats [simp]: "regs_inv n X (upd_stats f e) = regs_inv n X e"
proof -
  have "regview (upd_stats f e) = regview e" by (simp add: regview_def upd_stats_def)
  moreover have "held_alive (upd_stats f e) = held_alive e" by (rule held_alive_cong) (simp_all add: upd_stats_def)
  ultimately show ?thesis using regs_inv_cong [of "upd_stats f e" e] regs_inv_cong [of e "upd_stats f e"] by metis
qed

lemma upd_stats_regview [simp]:
  "e_next_region (upd_stats f e) = e_next_region e" "e_reg_cache (upd_stats f e) = e_reg_cache e"
  "e_next_reg (upd_stats f e) = e_next_reg e"
  by (simp_all add: upd_stats_def)

lemma new_registration_next:
  assumes "new_registration env a len dev acc e = (x, e')"
  shows "e_next_region e' = e_next_region e"
proof -
  obtain keys held fe e1 where l: "register_loop env a len dev acc [0 ..< length (env_providers env)] ([], [], kOk) e =
     ((keys, held, fe), e1)" by (metis prod.collapse)
  from register_loop_fields [OF l] have "e_next_region e1 = e_next_region e" by (simp add: regview_def)
  with assms l show ?thesis by (auto simp: new_registration_def Let_def split: if_splits)
qed

lemma register_memory_cases:
  obtains (none) "snd (register_memory env a len acc e) = e"
  | (hit) reg f dev mem where "reg \<in> set (e_reg_cache e)"
      "snd (register_memory env a len acc e) = snd (add_region env a len dev mem acc reg (upd_stats f e))"
  | (fresh) x e1 f dev mem where "new_registration env a len dev acc (upd_stats f e) = (x, e1)"
      "snd (register_memory env a len acc e) = (case x of Inl s \<Rightarrow> e1 | Inr reg \<Rightarrow> snd (add_region env a len dev mem acc reg e1))"
proof -
  obtain dev mem where pr: "probe_device env a e = (dev, mem)" by fastforce
  show thesis
  proof (cases "a = 0 \<or> len = 0 \<or> over_device_cap env len")
    case True
    with pr none show thesis by (auto simp: register_memory_def)
  next
    case False
    show thesis
    proof (cases "find_registration a len dev acc e")
      case None
      obtain x e1 where n: "new_registration env a len dev acc
          (upd_stats (\<lambda>s. s\<lparr>registrations_created := registrations_created s + 1\<rparr>) e) = (x, e1)" by fastforce
      with False None pr show thesis
        by (intro fresh [OF n, of mem]) (auto simp: register_memory_def split: sum.split prod.split)
    next
      case (Some reg)
      then have "reg \<in> set (e_reg_cache e)" by (auto simp: find_registration_def find_Some_iff)
      with False Some pr show thesis
        by (intro hit [of reg dev mem "\<lambda>s. s\<lparr>registrations_reused := registrations_reused s + 1\<rparr>"])
          (auto simp: register_memory_def split: prod.split)
    qed
  qed
qed

lemma register_memory_regs:
  assumes inv: "regs_inv (length (env_providers env)) {} e" and nz: "e_next_region e + 1 \<noteq> 0"
  shows "regs_inv (length (env_providers env)) {} (snd (register_memory env a len acc e))"
proof (cases rule: register_memory_cases [of env a len acc e])
  case (hit reg f)
  then show ?thesis
    using regs_inv_hold [OF inv] regs_invD(1) [OF inv] nz
      add_region_regs [of "length (env_providers env)" reg "upd_stats f e"] by simp
next
  case (fresh x e1 f)
  have "regs_inv (length (env_providers env)) {} (upd_stats f e)" using inv by simp
  from new_registration_regs [OF this fresh(1)] new_registration_next [OF fresh(1)] fresh(2) nz show ?thesis
    by (auto simp: add_region_regs split: sum.splits)
qed (use inv in simp)

lemma register_memory_next:
  "e_next_region (snd (register_memory env a len acc e)) = e_next_region e \<or>
   e_next_region (snd (register_memory env a len acc e)) = e_next_region e + 1"
proof (cases rule: register_memory_cases [of env a len acc e])
  case (fresh x e1 f)
  with new_registration_next [OF fresh(1)] show ?thesis by (cases x) (simp_all add: add_region_def Let_def)
qed (simp_all add: add_region_def Let_def)

lemma register_each_regs:
  "regs_inv (length (env_providers env)) {} e \<Longrightarrow> unat (e_next_region e) + length xs < 2 ^ 64 \<Longrightarrow>
   regs_inv (length (env_providers env)) {} (snd (register_each env acc xs e))"
proof (induction xs arbitrary: e)
  case (Cons x xs)
  obtain a len where x: "x = (a, len)" by fastforce
  let ?e = "snd (register_memory env a len acc e)"
  have u: "unat (e_next_region e + 1) = Suc (unat (e_next_region e))"
    using Cons.prems(2) by (simp add: unat_word_ariths)
  then have nz: "e_next_region e + 1 \<noteq> 0" by (metis nat.distinct(1) unat_0)
  have "unat (e_next_region ?e) + length xs < 2 ^ 64"
    using register_memory_next [of env a len acc e] Cons.prems(2) u by auto
  from Cons.IH [OF register_memory_regs [OF Cons.prems(1) nz] this] x show ?case by (simp add: split_beta)
qed simp

section \<open>Deregistering\<close>

lemma held_alive_regions: "held_alive (e\<lparr>e_region_objs := a, e_regions := b\<rparr>) = held_alive e"
  "held_alive (e\<lparr>e_region_objs := a\<rparr>) = held_alive e"
  by (rule held_alive_cong; simp)+

lemma retire_regs:
  assumes inv: "regs_inv n {} e" and m: "e_region_objs e i = Some m" and s: "set rs \<subseteq> set (e_regions e)"
  shows "regs_inv n {} (e\<lparr>e_region_objs := (e_region_objs e)(i \<mapsto> retire m), e_regions := rs\<rparr>)" (is "regs_inv n {} ?e")
proof -
  note v = regs_invD [OF inv]
  have r: "mr_reg (retire m) = mr_reg m" "mr_id (retire m) = mr_id m" by (simp_all add: retire_def)
  have "built_on ?e x = built_on e x" for x
  proof -
    have "(case e_region_objs ?e j of None \<Rightarrow> False | Some k \<Rightarrow> rg_id (mr_reg k) = x) =
       (case e_region_objs e j of None \<Rightarrow> False | Some k \<Rightarrow> rg_id (mr_reg k) = x)" for j
      by (cases "j = i") (simp_all add: m r)
    then show ?thesis by (simp add: built_on_def)
  qed
  then have "owned {} ?e x = owned {} e x" for x by (simp add: owned_def)
  then have "\<forall>x. x \<in> set (e_released ?e) \<longleftrightarrow> x < e_next_reg ?e \<and> \<not> owned {} ?e x" using v(5) by simp
  moreover have "\<forall>j k. e_region_objs ?e j = Some k \<longrightarrow> mr_id k = j \<and> j < e_next_region ?e \<and> reg_ok n (e_next_reg ?e) (mr_reg k)"
    using v(2) m r by auto
  ultimately show ?thesis
    unfolding regs_inv_def using v(1,3,4,7-9) s by (intro conjI) (auto simp: held_alive_regions)
qed

lemma broadcast_loop_fields:
  "broadcast_loop env pl js st e = (st', e') \<Longrightarrow> regview e' = regview e \<and> e_inflight e' = e_inflight e \<and> e_reqs e' = e_reqs e"
proof (induction js arbitrary: st e)
  case (Cons j js)
  obtain sent refused rest where st: "st = (sent, refused, rest)" by (rule prod_cases3)
  let ?c = "call (po_broadcast_control (the_prov env j) (control_type_code kRegionInvalidate) pl) e"
  obtain st1 where "broadcast_loop env pl js st1 (snd ?c) = (st', e')"
    using Cons.prems by (auto simp: st split: prod.splits if_splits)
  from Cons.IH [OF this] show ?case by simp
qed simp

lemma notify_peers_loop_fields:
  "notify_peers_loop env pl rest ps st e = (st', e') \<Longrightarrow>
   regview e' = regview e \<and> e_inflight e' = e_inflight e \<and> e_reqs e' = e_reqs e"
proof (induction ps arbitrary: st e)
  case (Cons p ps)
  obtain sent refused where st: "st = (sent, refused)" by fastforce
  have ih: "notify_peers_loop env pl rest ps st1 e1 = (st', e') \<Longrightarrow>
      regview e1 = regview e \<and> e_inflight e1 = e_inflight e \<and> e_reqs e1 = e_reqs e \<Longrightarrow> ?case" for st1 e1
    using Cons.IH by metis
  show ?case
  proof (cases "first_provider p")
    case None
    then show ?thesis using Cons.prems st by (intro ih [of st e]) auto
  next
    case (Some j)
    let ?c = "call (po_send_control (the_prov env j) (first_conn p) (control_type_code kRegionInvalidate) pl) e"
    show ?thesis
    proof (cases "\<not> pr_connected p \<or> j \<notin> set rest")
      case True
      then show ?thesis using Cons.prems st Some by (intro ih [of st e]) auto
    next
      case False
      then show ?thesis using Cons.prems st Some
        by (intro ih [of "if fst ?c = kOk then (sent + 1, refused) else (sent, refused + 1)" "snd ?c"])
          (auto simp: split_beta)
    qed
  qed
qed simp

lemma announce_invalid_cases:
  obtains st e1 f st' e2 where
    "broadcast_loop env (encode_region_invalidate \<lparr>ri_region = mr_id m, ri_generation = mr_gen m,
       ri_has_origin = True, ri_origin = mr_origin m\<rparr>) [0 ..< length (env_providers env)] (0, 0, []) e = (st, e1)"
    "announce_invalid env m e = upd_stats f e2" "\<And>s. acct (f s) = acct s"
    "e2 = e1 \<or> (\<exists>pl st1 st'. notify_peers_loop env pl (snd (snd st)) (List.map_filter (e_peer_objs e1) (e_peers e1)) st1 e1 = (st', e2))"
proof -
  let ?pl = "encode_region_invalidate \<lparr>ri_region = mr_id m, ri_generation = mr_gen m,
       ri_has_origin = True, ri_origin = mr_origin m\<rparr>"
  obtain sent refused rest e1 where b: "broadcast_loop env ?pl [0 ..< length (env_providers env)] (0, 0, []) e =
     ((sent, refused, rest), e1)" by (metis prod.collapse)
  obtain s r e2 where n: "(if rest = [] then ((sent, refused), e1)
     else notify_peers_loop env ?pl rest (List.map_filter (e_peer_objs e1) (e_peers e1)) (sent, refused) e1) = ((s, r), e2)"
    by (metis prod.collapse)
  show thesis
    by (rule that [OF b, of "\<lambda>st. st\<lparr>region_invalidates_sent := region_invalidates_sent st + word_of_nat s,
         region_invalidates_failed := region_invalidates_failed st + word_of_nat r\<rparr>" e2])
      (use b n in \<open>auto simp: announce_invalid_def Let_def acct_def ended_def split: if_splits\<close>)
qed

lemma announce_invalid_fields:
  "regview (announce_invalid env m e) = regview e \<and> e_inflight (announce_invalid env m e) = e_inflight e \<and>
   e_reqs (announce_invalid env m e) = e_reqs e"
proof (rule announce_invalid_cases [of env m e])
  fix st e1 f st' e2
  assume *: "broadcast_loop env (encode_region_invalidate \<lparr>ri_region = mr_id m, ri_generation = mr_gen m,
       ri_has_origin = True, ri_origin = mr_origin m\<rparr>) [0 ..< length (env_providers env)] (0, 0, []) e = (st, e1)"
    "announce_invalid env m e = upd_stats f e2"
    "e2 = e1 \<or> (\<exists>pl st1 st'. notify_peers_loop env pl (snd (snd st)) (List.map_filter (e_peer_objs e1) (e_peers e1)) st1 e1 = (st', e2))"
  have "regview e2 = regview e1 \<and> e_inflight e2 = e_inflight e1 \<and> e_reqs e2 = e_reqs e1"
    using *(3) notify_peers_loop_fields by blast
  with broadcast_loop_fields [OF *(1)] *(2) show ?thesis by (simp add: regview_def upd_stats_def)
qed

lemma deregister_memory_regs:
  assumes "regs_inv n {} e"
  shows "regs_inv n {} (snd (deregister_memory env region e))"
proof (cases "\<exists>i m. region = Some i \<and> e_region_objs e i = Some m")
  case True
  then obtain i m where i: "region = Some i" "e_region_objs e i = Some m" by blast
  let ?e1 = "e\<lparr>e_region_objs := (e_region_objs e)(i \<mapsto> retire m)\<rparr>"
  let ?e2 = "?e1\<lparr>e_regions := removeAll i (e_regions ?e1)\<rparr>"
  have 1: "regs_inv n {} ?e1" using retire_regs [OF assms i(2), of "e_regions e"] by simp
  have 2: "regs_inv n {} ?e2" using retire_regs [OF assms i(2), of "removeAll i (e_regions e)"] by simp
  have "regs_inv n {} (announce_invalid env m ?e2)"
    using announce_invalid_fields [of env m ?e2] by (intro regs_inv_same [OF _ _ _ 2]) simp_all
  with 1 i show ?thesis by (simp add: deregister_memory_def Let_def)
qed (use assms in \<open>auto simp: deregister_memory_def split: option.split\<close>)

lemma drop_region_regs:
  assumes inv: "regs_inv n {} e"
  shows "regs_inv n {} (drop_region env i e)"
proof (cases "i \<in> set (e_regions e) \<or> region_busy e i \<or> i \<notin> set (e_alive e) \<or> e_region_objs e i = None")
  case True
  with inv show ?thesis by (auto simp: drop_region_def split: option.split)
next
  case False
  then obtain m where m: "e_region_objs e i = Some m" by auto
  note v = regs_invD [OF inv]
  let ?e1 = "e\<lparr>e_alive := removeAll i (e_alive e)\<rparr>" and ?x = "rg_id (mr_reg m)"
  have b: "built_on e x \<longleftrightarrow> built_on ?e1 x \<or> x = ?x" for x
    using False m by (auto simp: built_on_def split: option.splits)
  have lt: "?x < e_next_reg e" using v(2) m by (auto simp: reg_ok_def)
  have held: "held_alive ?e1" using v(9) False
    unfolding held_alive_def region_busy_def by (fastforce split: option.splits)
  have rest: "regs_inv n {?x} ?e1"
  proof -
    have "owned {?x} ?e1 x = owned {} e x" for x using b [of x] by (auto simp: owned_def)
    then have "\<forall>x. x \<in> set (e_released ?e1) \<longleftrightarrow> x < e_next_reg ?e1 \<and> \<not> owned {?x} ?e1 x" using v(5) by simp
    then show ?thesis unfolding regs_inv_def using v(1-4,7,8) held lt False by (intro conjI) auto
  qed
  note w = regs_invD [OF rest]
  show ?thesis
  proof (cases "owned {} ?e1 ?x")
    case True
    then have "owned {?x} ?e1 x = owned {} ?e1 x" for x by (auto simp: owned_def)
    then have "regs_inv n {} ?e1" unfolding regs_inv_def using w by (intro conjI) simp_all
    with False True m show ?thesis
      by (auto simp: drop_region_def Let_def reg_in_use_iff owned_def)
  next
    case free: False
    let ?e2 = "?e1\<lparr>e_released := e_released ?e1 @ [?x]\<rparr>"
    have "owned {} ?e2 x \<longleftrightarrow> owned {?x} ?e1 x \<and> x \<noteq> ?x" for x
    proof -
      have "built_on ?e2 x = built_on ?e1 x" by (simp add: built_on_def)
      then have "owned {} ?e2 x = owned {} ?e1 x" by (simp add: owned_def)
      with free show ?thesis by (cases "x = ?x") (simp_all add: owned_def)
    qed
    then have "\<forall>x. x \<in> set (e_released ?e2) \<longleftrightarrow> x < e_next_reg ?e2 \<and> \<not> owned {} ?e2 x" using w(5) lt by auto
    moreover have "?x \<notin> set (e_released ?e1)" using w(5) by (auto simp: owned_def)
    moreover have "held_alive ?e2 = held_alive ?e1" by (rule held_alive_cong) simp_all
    note this [THEN iffD2, OF held]
    ultimately have 2: "regs_inv n {} ?e2" unfolding regs_inv_def using w(1-4,7,8) by (intro conjI) auto
    have eq: "drop_region env i e = fold (release_registration env) [mr_reg m] ?e1"
    proof -
      have "\<not> (\<exists>r\<in>set (e_reg_cache ?e1). rg_id r = ?x)" using free unfolding owned_def by (metis image_eqI)
      with False free m show ?thesis by (simp add: drop_region_def reg_in_use_iff owned_def)
    qed
    have "regview (fold (release_registration env) [mr_reg m] ?e1) = regview ?e2"
      using release_all_fields(1) [of env "[mr_reg m]" ?e1] by simp
    then show ?thesis unfolding eq
      using release_all_fields(2,3) [of env "[mr_reg m]" ?e1] by (intro regs_inv_same [OF _ _ _ 2]) simp_all
  qed
qed


section \<open>The registry and the transfer path\<close>

context engine_transports
begin

lemma call_law_inv:
  assumes "engine_inv env winv outs Q E e"
    "\<And>x w'. f (e_world e) = (x, w') \<Longrightarrow> winv w' \<and> outs w' = outs (e_world e)"
  shows "engine_inv env winv outs Q E (snd (call f e))"
  using assms by (cases "f (e_world e)") (auto simp: call_def engine_inv_def)

lemma deregister_keys_inv:
  "\<forall>x\<in>set ks. fst x < length (env_providers env) \<Longrightarrow> engine_inv env winv outs Q E e \<Longrightarrow>
   engine_inv env winv outs Q E (deregister_keys env ks e)"
proof (induction ks arbitrary: e)
  case (Cons x ks)
  obtain j k where x: "x = (j, k)" by fastforce
  have j: "j < length (env_providers env)" using Cons.prems(1) x by simp
  have "engine_inv env winv outs Q E (snd (call (po_deregister_region (the_prov env j) k) e))"
    by (rule call_law_inv [OF Cons.prems(2)])
      (rule transport_provider.deregister_law [OF prov [OF j] winv_world [OF Cons.prems(2)]])
  from Cons.IH [OF _ this] Cons.prems(1) x show ?case by (simp add: deregister_keys_def)
qed (simp add: deregister_keys_def)

lemma release_all_inv:
  "\<forall>r\<in>set rs. \<forall>x\<in>set (rg_held r). fst x < length (env_providers env) \<Longrightarrow> engine_inv env winv outs Q E e \<Longrightarrow>
   engine_inv env winv outs Q E (fold (release_registration env) rs e)"
proof (induction rs arbitrary: e)
  case (Cons r rs)
  have "engine_inv env winv outs Q E (release_registration env r e)"
    unfolding release_registration_eq
    by (rule engine_inv_core [OF deregister_keys_inv]) (use Cons.prems in simp_all)
  from Cons.IH [OF _ this] Cons.prems(1) show ?case by simp
qed simp

lemma release_cached_inv:
  assumes inv: "engine_inv env winv outs Q E e" and regs: "regs_inv (length (env_providers env)) X e"
  shows "engine_inv env winv outs Q E (snd (release_cached_registrations env e))"
proof -
  have "engine_inv env winv outs Q E (e\<lparr>e_reg_cache := filter (reg_in_use e) (e_reg_cache e)\<rparr>)"
    using inv by (rule engine_inv_core) simp_all
  with regs_invD(1) [OF regs] show ?thesis
    by (auto simp: release_cached_registrations_def Let_def reg_ok_def intro!: release_all_inv)
qed

lemma register_loop_inv:
  "\<forall>j\<in>set js. j < length (env_providers env) \<Longrightarrow> engine_inv env winv outs Q E e \<Longrightarrow>
   engine_inv env winv outs Q E (snd (register_loop env a len dev acc js st e))"
proof (induction js arbitrary: st e)
  case (Cons j js)
  obtain keys held fe where st: "st = (keys, held, fe)" by (rule prod_cases3)
  have j: "j < length (env_providers env)" and js: "\<forall>j\<in>set js. j < length (env_providers env)" using Cons.prems(1) by simp_all
  let ?c = "call (po_register_region (the_prov env j) a len dev acc) e"
  have "engine_inv env winv outs Q E (snd ?c)"
    by (rule call_law_inv [OF Cons.prems(2)])
      (rule transport_provider.register_law [OF prov [OF j] winv_world [OF Cons.prems(2)]])
  from Cons.IH [OF js this] show ?case by (auto simp: st split: prod.split sum.split)
qed simp

lemma cache_registration_inv:
  assumes inv: "engine_inv env winv outs Q E e"
    and regs: "\<forall>r\<in>insert reg (set (e_reg_cache e)). \<forall>x\<in>set (rg_held r). fst x < length (env_providers env)"
  shows "engine_inv env winv outs Q E (cache_registration env reg e)"
proof -
  let ?used = "\<lambda>r. reg_in_use e r \<or> rg_id r = rg_id reg"
  obtain rest dropped where ev: "evict ?used (unat (registration_cache_entries (env_cfg env))) (e_reg_cache e @ [reg]) =
     (rest, dropped)" by fastforce
  have "set_mset (mset (e_reg_cache e @ [reg])) = set rest \<union> set dropped" using evict_split [OF ev] by simp
  then have "set dropped \<subseteq> insert reg (set (e_reg_cache e))" by auto
  moreover have "engine_inv env winv outs Q E (e\<lparr>e_reg_cache := rest\<rparr>)" using inv by (rule engine_inv_core) simp_all
  ultimately show ?thesis using regs ev by (auto simp: cache_registration_def intro!: release_all_inv)
qed

lemma new_registration_inv:
  assumes inv: "engine_inv env winv outs Q E e" and regs: "regs_inv (length (env_providers env)) X e"
  shows "engine_inv env winv outs Q E (snd (new_registration env a len dev acc e))"
proof -
  let ?js = "[0 ..< length (env_providers env)]"
  obtain keys held fe e1 where l: "register_loop env a len dev acc ?js ([], [], kOk) e = ((keys, held, fe), e1)"
    by (metis prod.collapse)
  have "engine_inv env winv outs Q E (snd (register_loop env a len dev acc ?js ([], [], kOk) e))"
    by (rule register_loop_inv [OF _ inv]) simp
  then have i1: "engine_inv env winv outs Q E e1" by (simp add: l)
  have i2: "engine_inv env winv outs Q E (e1\<lparr>e_next_reg := Suc (e_next_reg e1)\<rparr>)" using i1 by (rule engine_inv_core) simp_all
  have "e_reg_cache e1 = e_reg_cache e" "\<forall>x\<in>set held. fst x < length (env_providers env)"
    using register_loop_fields [OF l] by (simp_all add: regview_def image_subset_iff)
  with regs_invD(1) [OF regs] l i1 i2 show ?thesis
    by (auto simp: new_registration_def Let_def reg_ok_def intro!: cache_registration_inv)
qed

lemma add_region_inv:
  "engine_inv env winv outs Q E e \<Longrightarrow> engine_inv env winv outs Q E (snd (add_region env a len dev mem acc reg e))"
  by (erule engine_inv_core) (simp_all add: add_region_def Let_def)

lemma register_memory_inv:
  assumes inv: "engine_inv env winv outs Q E e" and regs: "regs_inv (length (env_providers env)) {} e"
  shows "engine_inv env winv outs Q E (snd (register_memory env a len acc e))"
proof -
  obtain dev mem where pr: "probe_device env a e = (dev, mem)" by fastforce
  let ?re = "upd_stats (\<lambda>s. s\<lparr>registrations_reused := registrations_reused s + 1\<rparr>) e"
  let ?cr = "upd_stats (\<lambda>s. s\<lparr>registrations_created := registrations_created s + 1\<rparr>) e"
  have s: "engine_inv env winv outs Q E ?re" "engine_inv env winv outs Q E ?cr"
    using inv by (auto intro!: engine_inv_stats simp: acct_def ended_def)
  have n: "engine_inv env winv outs Q E (snd (new_registration env a len dev acc ?cr))"
    using new_registration_inv [OF s(2)] regs by simp
  show ?thesis
    using inv n add_region_inv [OF s(1)] add_region_inv [OF n] pr
    by (auto simp: register_memory_def split_beta split: option.split sum.split prod.split)
qed

lemma register_each_inv:
  "engine_inv env winv outs Q E e \<Longrightarrow> regs_inv (length (env_providers env)) {} e \<Longrightarrow>
   unat (e_next_region e) + length xs < 2 ^ 64 \<Longrightarrow> engine_inv env winv outs Q E (snd (register_each env acc xs e))"
proof (induction xs arbitrary: e)
  case (Cons x xs)
  obtain a len where x: "x = (a, len)" by fastforce
  let ?e = "snd (register_memory env a len acc e)"
  have r: "regs_inv (length (env_providers env)) {} ?e"
    using register_each_regs [of env e "[(a, len)]" acc] Cons.prems(2,3) by (simp add: split_beta)
  have u: "unat (e_next_region e + 1) = Suc (unat (e_next_region e))" using Cons.prems(3) by (simp add: unat_word_ariths)
  have "unat (e_next_region ?e) + length xs < 2 ^ 64"
    using register_memory_next [of env a len acc e] Cons.prems(3) u by auto
  from Cons.IH [OF register_memory_inv [OF Cons.prems(1,2)] r this] x show ?case by (simp add: split_beta)
qed simp

lemma broadcast_loop_inv:
  "\<forall>j\<in>set js. j < length (env_providers env) \<Longrightarrow> engine_inv env winv outs Q E e \<Longrightarrow>
   engine_inv env winv outs Q E (snd (broadcast_loop env pl js st e)) \<and>
   e_peer_objs (snd (broadcast_loop env pl js st e)) = e_peer_objs e \<and>
   set (snd (snd (fst (broadcast_loop env pl js st e)))) \<subseteq> set (snd (snd st)) \<union> set js"
proof (induction js arbitrary: st e)
  case (Cons j js)
  obtain sent refused rest where st: "st = (sent, refused, rest)" by (rule prod_cases3)
  have j: "j < length (env_providers env)" and js: "\<forall>j\<in>set js. j < length (env_providers env)" using Cons.prems(1) by simp_all
  obtain s n r e1 where c: "call (po_broadcast_control (the_prov env j) (control_type_code kRegionInvalidate) pl) e = ((s, n, r), e1)"
    by (metis prod.collapse)
  have i: "engine_inv env winv outs Q E e1"
    by (rule call_inv(1) [OF Cons.prems(2) c])
      (rule transport_provider.broadcast_law [OF prov [OF j] winv_world [OF Cons.prems(2)]])
  have p: "e_peer_objs e1 = e_peer_objs e" using c by (auto simp: call_def split: prod.splits)
  show ?case
    using Cons.IH [OF js i, of "(sent + n, refused + r, rest)"] Cons.IH [OF js i, of "(sent, refused, rest @ [j])"] p c
    by (auto simp: st)
qed simp

lemma notify_peers_loop_inv:
  "set rest \<subseteq> {0 ..< length (env_providers env)} \<Longrightarrow> engine_inv env winv outs Q E e \<Longrightarrow>
   engine_inv env winv outs Q E (snd (notify_peers_loop env pl rest ps st e))"
proof (induction ps arbitrary: st e)
  case (Cons p ps)
  obtain sent refused where st: "st = (sent, refused)" by fastforce
  show ?case
  proof (cases "\<exists>j. first_provider p = Some j \<and> pr_connected p \<and> j \<in> set rest")
    case False
    then show ?thesis using Cons by (auto simp: st split: option.split)
  next
    case True
    then obtain j where j: "first_provider p = Some j" "pr_connected p" "j \<in> set rest" by blast
    obtain s e1 where c: "call (po_send_control (the_prov env j) (first_conn p) (control_type_code kRegionInvalidate) pl) e = (s, e1)"
      by fastforce
    have "j < length (env_providers env)" using j(3) Cons.prems(1) by auto
    from send_control_inv(1) [OF Cons.prems(2) this c] Cons.IH [OF Cons.prems(1)] j c show ?thesis by (simp add: st)
  qed
qed simp

lemma announce_invalid_inv:
  assumes inv: "engine_inv env winv outs Q E e"
  shows "engine_inv env winv outs Q E (announce_invalid env m e)"
proof (rule announce_invalid_cases [of env m e])
  fix st e1 f st' e2
  assume *: "broadcast_loop env (encode_region_invalidate \<lparr>ri_region = mr_id m, ri_generation = mr_gen m,
       ri_has_origin = True, ri_origin = mr_origin m\<rparr>) [0 ..< length (env_providers env)] (0, 0, []) e = (st, e1)"
    "announce_invalid env m e = upd_stats f e2" "\<And>s. acct (f s) = acct s"
    "e2 = e1 \<or> (\<exists>pl st1 st'. notify_peers_loop env pl (snd (snd st)) (List.map_filter (e_peer_objs e1) (e_peers e1)) st1 e1 = (st', e2))"
  have "engine_inv env winv outs Q E e1 \<and> set (snd (snd st)) \<subseteq> {0 ..< length (env_providers env)}"
    using broadcast_loop_inv [OF _ inv, of "[0 ..< length (env_providers env)]"
        "encode_region_invalidate \<lparr>ri_region = mr_id m, ri_generation = mr_gen m, ri_has_origin = True, ri_origin = mr_origin m\<rparr>" "(0, 0, [])"]
    by (simp add: *(1))
  then have "engine_inv env winv outs Q E e2" using *(4) notify_peers_loop_inv by (metis snd_conv)
  then show ?thesis unfolding *(2) by (rule engine_inv_stats) (rule *(3))
qed

lemma deregister_memory_inv:
  assumes inv: "engine_inv env winv outs Q E e"
  shows "engine_inv env winv outs Q E (snd (deregister_memory env region e))"
proof -
  have "engine_inv env winv outs Q E (e\<lparr>e_region_objs := a\<rparr>)"
    "engine_inv env winv outs Q E (e\<lparr>e_region_objs := a, e_regions := b\<rparr>)" for a b
    using inv by (auto intro: engine_inv_core)
  then show ?thesis
    by (auto simp: deregister_memory_def Let_def announce_invalid_inv inv split: option.split)
qed

lemma drop_region_inv:
  assumes inv: "engine_inv env winv outs Q E e" and regs: "regs_inv (length (env_providers env)) X e"
  shows "engine_inv env winv outs Q E (drop_region env i e)"
proof -
  have i1: "engine_inv env winv outs Q E (e\<lparr>e_alive := removeAll i (e_alive e)\<rparr>)" using inv by (rule engine_inv_core) simp_all
  have "engine_inv env winv outs Q E (release_registration env (mr_reg m) (e\<lparr>e_alive := removeAll i (e_alive e)\<rparr>))"
    if "e_region_objs e i = Some m" for m
    using release_all_inv [of "[mr_reg m]", OF _ i1] regs_invD(2) [OF regs] that by (auto simp: reg_ok_def)
  with inv i1 show ?thesis by (auto simp: drop_region_def Let_def split: option.split)
qed

end

end
