(* ===== verification/Hux_Evolve.thy ===== *)
theory Hux_Evolve
  imports Hux_Regs
begin

text \<open>
  What a method may do to the parts of the engine it does not name: a request only moves along
  the steps of its own component, the registry stays as it is, the queues stay within their
  bounds, and nothing enters \<open>inflight_\<close> but through admission.
\<close>

section \<open>The relation\<close>

definition queues_ok :: "'w engine_env \<Rightarrow> 'w engine \<Rightarrow> bool" where
  "queues_ok env e \<longleftrightarrow> length (e_completed e) \<le> unat (completion_queue_depth (env_cfg env)) \<and>
     length (e_ready_events e) \<le> unat (ready_queue_depth (env_cfg env)) \<and>
     length (e_notifications e) \<le> unat (notify_queue_depth (env_cfg env))"

definition quiet :: "'w engine_env \<Rightarrow> 'w engine \<Rightarrow> 'w engine \<Rightarrow> bool" where
  "quiet env e e' \<longleftrightarrow> regview e' = regview e \<and> set (e_inflight e') \<subseteq> set (e_inflight e) \<and>
     (\<forall>i. rel_option req_steps (e_reqs e i) (e_reqs e' i)) \<and> (queues_ok env e \<longrightarrow> queues_ok env e')"

named_theorems quietly \<open>how the primitive updates continue a quiet run\<close>
named_theorems req_moves \<open>what the engine does to a request\<close>

lemma rel_option_req_steps_refl: "rel_option req_steps x x"
  by (rule option.rel_refl) simp

lemma quiet_refl [quietly]: "quiet env e e"
  by (simp add: quiet_def rel_option_req_steps_refl)

lemma quiet_trans [trans]:
  assumes "quiet env a b" "quiet env b c"
  shows "quiet env a c"
proof -
  have "rel_option req_steps (e_reqs a i) (e_reqs c i)" for i
  proof -
    have "rel_option req_steps (e_reqs a i) (e_reqs b i)" "rel_option req_steps (e_reqs b i) (e_reqs c i)"
      using assms by (simp_all add: quiet_def)
    then show ?thesis
      by (cases "e_reqs a i"; cases "e_reqs b i"; cases "e_reqs c i") (auto intro: rtranclp_trans)
  qed
  with assms show ?thesis unfolding quiet_def by auto
qed

text \<open>An update that touches only what the relation does not look at.\<close>

definition unseen :: "'w engine \<Rightarrow> _" where
  "unseen e = (regview e, e_inflight e, e_reqs e, e_completed e, e_ready_events e, e_notifications e)"

lemma quiet_unseen:
  assumes "quiet env a e" "unseen e' = unseen e"
  shows "quiet env a e'"
proof -
  have f: "regview e' = regview e" "e_inflight e' = e_inflight e" "e_reqs e' = e_reqs e" "e_completed e' = e_completed e"
    "e_ready_events e' = e_ready_events e" "e_notifications e' = e_notifications e"
    using assms(2) by (simp_all add: unseen_def)
  show ?thesis using assms(1) unfolding quiet_def queues_ok_def f by blast
qed

lemma unseen_simps [simp]:
  "unseen (upd_stats f e) = unseen e" "unseen (e\<lparr>e_world := w\<rparr>) = unseen e" "unseen (e\<lparr>e_pending := p\<rparr>) = unseen e"
  "unseen (e\<lparr>e_rr_cursor := c\<rparr>) = unseen e" "unseen (e\<lparr>e_remotes := r\<rparr>) = unseen e"
  "unseen (e\<lparr>e_peers := q\<rparr>) = unseen e" "unseen (upd_peer i g e) = unseen e"
  "unseen (e\<lparr>e_notify_pending := n\<rparr>) = unseen e" "unseen (e\<lparr>e_next_notify := k\<rparr>) = unseen e"
  "unseen (e\<lparr>e_next_request := k\<rparr>) = unseen e" "unseen (e\<lparr>e_closed := b\<rparr>) = unseen e"
  "unseen (e\<lparr>e_peer_objs := po\<rparr>) = unseen e" "unseen (e\<lparr>e_next_peer := k\<rparr>) = unseen e"
  "unseen (snd (call h e)) = unseen e"
  by (simp_all add: unseen_def regview_def upd_stats_def upd_peer_def call_def split: prod.split)

lemma quiet_plain [quietly]:
  assumes "quiet env a e"
  shows "quiet env a (upd_stats f e)" "quiet env a (e\<lparr>e_world := w\<rparr>)" "quiet env a (e\<lparr>e_pending := p\<rparr>)"
    "quiet env a (e\<lparr>e_rr_cursor := c\<rparr>)" "quiet env a (e\<lparr>e_remotes := r\<rparr>)" "quiet env a (e\<lparr>e_peers := q\<rparr>)"
    "quiet env a (upd_peer i g e)" "quiet env a (e\<lparr>e_notify_pending := n\<rparr>)" "quiet env a (e\<lparr>e_closed := b\<rparr>)"
    "quiet env a (snd (call h e))" "quiet env a (e\<lparr>e_next_request := k\<rparr>)"
  by (rule quiet_unseen [OF assms], simp)+

lemma quiet_call: "quiet env a e \<Longrightarrow> call h e = (x, e') \<Longrightarrow> quiet env a e'"
  using quiet_plain(10) [of env a e h] by simp

lemma quiet_counts [quietly]:
  "quiet env a e \<Longrightarrow> quiet env a (count_cancelled e)" "quiet env a e \<Longrightarrow> quiet env a (count_failed e)"
  "quiet env a e \<Longrightarrow> quiet env a (count_succeeded e)"
  by (simp_all add: count_cancelled_def count_failed_def count_succeeded_def quietly)

lemma quiet_upd_req:
  assumes "quiet env a e" "\<And>r. e_reqs e i = Some r \<Longrightarrow> req_steps r (f r)"
  shows "quiet env a (upd_req i f e)"
proof -
  have "quiet env e (upd_req i f e)"
    using assms(2) by (cases "e_reqs e i")
      (auto simp: quiet_def upd_req_def regview_def queues_ok_def rel_option_req_steps_refl)
  with assms(1) show ?thesis by (rule quiet_trans)
qed

lemma quiet_shrink [quietly]:
  assumes "quiet env a e"
  shows "quiet env a (e\<lparr>e_inflight := filter P (e_inflight e)\<rparr>)" "quiet env a (e\<lparr>e_inflight := removeAll i (e_inflight e)\<rparr>)"
proof -
  have "quiet env e (e\<lparr>e_inflight := filter P (e_inflight e)\<rparr>)" for P
    using length_filter_le [of P "e_inflight e"]
    by (auto simp: quiet_def regview_def queues_ok_def rel_option_req_steps_refl simp del: length_filter_le)
  then show "quiet env a (e\<lparr>e_inflight := filter P (e_inflight e)\<rparr>)"
    "quiet env a (e\<lparr>e_inflight := removeAll i (e_inflight e)\<rparr>)"
    using assms quiet_trans unfolding removeAll_filter_not_eq by blast+
qed

lemma quiet_publish [quietly]:
  assumes "quiet env a e"
  shows "quiet env a (publish env i e)"
proof -
  have "quiet env e (publish env i e)"
    by (auto simp: quiet_def publish_def keep_completed_def Let_def upd_stats_def regview_def queues_ok_def
        rel_option_req_steps_refl)
  with assms show ?thesis by (rule quiet_trans)
qed

lemma quiet_keep_ready [quietly]:
  assumes "quiet env a e"
  shows "quiet env a (keep_ready env ev e)"
proof -
  have "quiet env e (keep_ready env ev e)"
    by (auto simp: quiet_def keep_ready_def upd_stats_def regview_def queues_ok_def rel_option_req_steps_refl)
  with assms show ?thesis by (rule quiet_trans)
qed

lemma quiet_fold [quietly]:
  "quiet env a e \<Longrightarrow> (\<And>x e. x \<in> set xs \<Longrightarrow> quiet env e (f x e)) \<Longrightarrow> quiet env a (fold f xs e)"
proof (induction xs arbitrary: e)
  case (Cons x xs)
  have "quiet env a (f x e)" using Cons.prems by (auto intro: quiet_trans)
  with Cons.IH Cons.prems(2) show ?case by simp
qed simp

section \<open>What the engine does to a request\<close>

lemma req_move [req_moves]:
  "req_steps r (set_state RS_kInflight r)" "req_steps r (set_state RS_kDraining r)"
  "req_steps r (set_state RS_kWaitDependency r)"
  "req_steps r (mark_stage ST_kTransferComplete r)" "req_steps r (mark_stage ST_kTargetReady r)"
  "req_steps r (add_accepted_subops n r)" "req_steps r (seal_accepted r)" "req_steps r (snd (part_finished r))"
  "req_steps r (snd (seal_if_idle r))" "req_steps r (snd (on_subop_complete ev r))" "req_steps r (snd (cancel r))"
  "req_steps r (note_error err r)" "req_steps r (fail err r)" "req_steps r (finish_success r)"
  "req_steps r (finish_cancelled r)"
  by (auto intro!: r_into_rtranclp req_step.intros)

lemma req_move_comp: "req_steps r s \<Longrightarrow> (\<And>r. req_steps r (f r)) \<Longrightarrow> req_steps r (f s)"
  by (rule rtranclp_trans)

section \<open>The transfer path\<close>

lemma quiet_claim: "quiet env a e \<Longrightarrow> claim i e = (b, e') \<Longrightarrow> quiet env a e'"
  by (auto simp: claim_def intro: quietly)

lemma quiet_end_abandoned [quietly]:
  assumes "quiet env a e"
  shows "quiet env a (end_abandoned env i e)"
proof -
  obtain b e1 where c: "claim i e = (b, e1)" by fastforce
  from quiet_claim [OF assms c] c show ?thesis
    by (auto simp: end_abandoned_def split: option.split intro!: quietly quiet_upd_req req_moves)
qed

lemma quiet_part_done [quietly]:
  assumes "quiet env a e"
  shows "quiet env a (part_done env i e)"
proof (cases "e_reqs e i")
  case (Some r)
  have 1: "quiet env a (upd_req i step_parts e)"
    using assms req_moves by (intro quiet_upd_req) (simp_all add: step_parts_def)
  have 2: "quiet env a (upd_req i (\<lambda>r. snd (seal_if_idle (step_parts r))) e)"
    by (rule quiet_upd_req [OF assms], unfold step_parts_def, rule req_move_comp [OF req_move(8)], rule req_move(9))
  show ?thesis unfolding part_done_cases [OF Some] using 1 2 by (auto simp: Let_def intro: quietly)
qed (simp add: part_done_def assms)

lemma quiet_post_ops:
  assumes "post_ops env mb p e = (fin, p', e')" "quiet env a e"
  shows "quiet env a e'"
proof (cases "ps_ops p = [] \<or> e_reqs e (ps_req p) = None \<or> (\<exists>r. e_reqs e (ps_req p) = Some r \<and> abandoning r)")
  case True
  then show ?thesis
    using assms by (cases "e_reqs e (ps_req p)") (auto simp: post_ops_def intro: quietly split: if_splits)
next
  case False
  then obtain r where r: "ps_ops p \<noteq> []" "e_reqs e (ps_req p) = Some r" "\<not> abandoning r" by auto
  obtain sr w' where sub: "po_submit (the_prov env (ps_provider p)) (Some (ps_conn p))
      (take (quantum mb (ps_ops p) 0 0) (ps_ops p)) (e_world e) = (sr, w')" by fastforce
  define e3 where "e3 = (upd_req (ps_req p) (accept_subops (sr_accepted sr)) e)\<lparr>e_world := w'\<rparr>"
  have "req_steps s (accept_subops n s)" for s n
    unfolding accept_subops_def by (rule req_move_comp [OF req_move(1) req_move(6)])
  then have 3: "quiet env a e3" unfolding e3_def using assms(2) by (intro quietly quiet_upd_req) simp_all
  have d: "req_steps s (set_state RS_kDraining (note_error err s))" for s err
    by (rule req_move_comp [OF req_move(12) req_move(2)])
  note eq = post_ops_eq [OF r sub refl, folded e3_def]
  show ?thesis
    using assms(1) 3 unfolding eq by (auto split: if_splits intro!: quietly quiet_upd_req d)
qed

lemma quiet_drain_loop:
  "drain_loop env ps waiting e = (waiting', e') \<Longrightarrow> quiet env a e \<Longrightarrow> quiet env a e'"
proof (induction ps arbitrary: waiting e)
  case (Cons p ps)
  let ?aband = "case e_reqs e (ps_req p) of None \<Rightarrow> True | Some r \<Rightarrow> abandoning r"
  let ?d = "if ?aband then kOk else dependency_state env (ps_after p) (e_world e)"
  let ?e1 = "if \<not> ?aband \<and> ?d \<noteq> kOk
      then upd_req (ps_req p) (note_error (no_error\<lparr>ei_status := ?d\<rparr>)) e else e"
  obtain fin p' e2 where post: "post_ops env (scheduler_quantum_bytes (env_cfg env)) p ?e1 = (fin, p', e2)"
    by (rule prod_cases3)
  have "quiet env a ?e1" using Cons.prems(2) by (auto intro!: quiet_upd_req req_moves)
  from quiet_post_ops [OF post this] have 2: "quiet env a e2" .
  from Cons.prems(1) consider "drain_loop env ps (waiting @ [p]) e = (waiting', e')"
    | w where "drain_loop env ps w e2 = (waiting', e')"
    using post by (auto simp: Let_def split: if_splits)
  then show ?case using Cons.IH Cons.prems(2) 2 by cases blast+
qed simp

lemma quiet_drain_pending [quietly]:
  assumes "quiet env a e"
  shows "quiet env a (drain_pending env e)"
proof (cases "e_pending e = []")
  case False
  let ?c = "if length (e_pending e) \<le> e_rr_cursor e then 0 else e_rr_cursor e"
  let ?turn = "drop ?c (e_pending e) @ take ?c (e_pending e)"
  let ?e1 = "e\<lparr>e_pending := [], e_rr_cursor := (if 1 < length (e_pending e) then 1 else 0)\<rparr>"
  obtain waiting e2 where run: "drain_loop env ?turn [] ?e1 = (waiting, e2)" by fastforce
  have "quiet env a ?e1" by (intro quietly assms)
  from quiet_drain_loop [OF run this] run False show ?thesis by (simp add: drain_pending_def Let_def quietly)
qed (simp add: drain_pending_def assms)

lemma quiet_post_parts [quietly]: "quiet env a e \<Longrightarrow> quiet env a (post_parts env ps e)"
proof (induction ps arbitrary: e)
  case (Cons p ps)
  obtain fin p' e1 where post: "post_ops env (scheduler_quantum_bytes (env_cfg env)) p e = (fin, p', e1)"
    by (rule prod_cases3)
  from quiet_post_ops [OF post Cons.prems] have "quiet env a (if fin then e1 else e1\<lparr>e_pending := e_pending e1 @ [p']\<rparr>)"
    by (simp add: quietly)
  from Cons.IH [OF this] post show ?case by simp
qed simp


section \<open>Notifications and control messages\<close>

lemma quiet_end_notification [quietly]:
  assumes "quiet env a e"
  shows "quiet env a (end_notification env err x e)"
proof -
  have "req_steps r (if ei_ok err \<or> rq_cancel_requested r then finish_cancelled r else fail err r)" for r
    using req_move(13,15) by simp
  then show ?thesis unfolding end_notification_def by (intro quietly quiet_upd_req assms)
qed

lemma quiet_end_notifications [quietly]:
  "quiet env a e \<Longrightarrow> quiet env a (end_notifications env q oc err e)"
  unfolding end_notifications_def Let_def by (intro quietly)

lemma quiet_take_notification: "take_notification k e = (x, e') \<Longrightarrow> quiet env a e \<Longrightarrow> quiet env a e'"
  by (auto simp: take_notification_def intro: quietly)

lemma quiet_notification_ended:
  assumes "quiet env a e" "\<And>r. req_steps r (f r)"
  shows "quiet env a (case take_notification k e of (None, e1) \<Rightarrow> e1 | (Some i, e1) \<Rightarrow> publish env i (upd_req i f e1))"
proof -
  obtain x e1 where t: "take_notification k e = (x, e1)" by fastforce
  from quiet_take_notification [OF t assms(1)] assms(2) t show ?thesis
    by (auto split: option.split intro!: quietly quiet_upd_req)
qed

lemma quiet_handlers [quietly]:
  assumes "quiet env a e"
  shows "quiet env a (handle_ready_handoff env m e)" "quiet env a (handle_region_invalidate m e)"
    "quiet env a (handle_notification_ack env m e)" "quiet env a (handle_notification_refused env m e)"
proof -
  show "quiet env a (handle_ready_handoff env m e)" "quiet env a (handle_region_invalidate m e)"
    using assms by (auto simp: handle_ready_handoff_def handle_region_invalidate_def Let_def
        split: option.split sum.split intro!: quietly)
  show "quiet env a (handle_notification_ack env m e)" "quiet env a (handle_notification_refused env m e)"
    using assms quiet_notification_ended [OF assms req_move_comp [OF req_move(4) req_move(14)]]
      quiet_notification_ended [OF assms req_move(13)]
    by (auto simp: handle_notification_ack_def handle_notification_refused_def split: option.split sum.split)
qed

lemma quiet_queued:
  assumes "quiet env a e" "length (e_notifications e) < unat (notify_queue_depth (env_cfg env))"
  shows "quiet env a (e\<lparr>e_notifications := e_notifications e @ [x]\<rparr>)"
proof -
  have "quiet env e (e\<lparr>e_notifications := e_notifications e @ [x]\<rparr>)"
    using assms(2) by (auto simp: quiet_def regview_def queues_ok_def rel_option_req_steps_refl)
  with assms(1) show ?thesis by (rule quiet_trans)
qed

lemma quiet_handle_notification [quietly]:
  assumes "quiet env a e"
  shows "quiet env a (handle_notification env j m e)"
proof (cases "\<exists>k. decode_u64 (take 8 (cm_payload m)) = Some (Inr k)")
  case True
  then obtain k where k: "decode_u64 (take 8 (cm_payload m)) = Some (Inr k)" by blast
  define q where "q \<longleftrightarrow> length (e_notifications e) < unat (notify_queue_depth (env_cfg env))"
  define e2 where "e2 = upd_stats (\<lambda>s. if q then s\<lparr>notifications_received := notifications_received s + 1\<rparr>
     else s\<lparr>notifications_dropped := notifications_dropped s + 1\<rparr>) (if q then e\<lparr>e_notifications := e_notifications e @
     [\<lparr>nt_peer = cm_peer m, nt_epoch = 0, nt_id = k, nt_related_request = 0, nt_payload = drop 8 (cm_payload m)\<rparr>]\<rparr> else e)"
  have 2: "quiet env a e2" unfolding e2_def
    by (rule quiet_plain(1)) (use assms in \<open>auto intro: quiet_queued simp: q_def\<close>)
  have "handle_notification env j m e = (if length (cm_payload m) < 8 then e else if cm_conn m = None then e2
     else if q then (let x = call (po_send_control (the_prov env j) (cm_conn m) (control_type_code kNotificationAck) (encode_u64 k)) e2
        in if fst x = kOk then snd x
           else upd_stats (\<lambda>st. st\<lparr>notification_acks_failed := notification_acks_failed st + 1\<rparr>) (snd x))
     else snd (call (po_send_control (the_prov env j) (cm_conn m) (control_type_code kNotificationRefused) (encode_u64 k)) e2))"
    unfolding handle_notification_def k e2_def q_def Let_def split_beta by simp
  with assms 2 show ?thesis by (simp add: Let_def quietly)
qed (use assms in \<open>auto simp: handle_notification_def split: option.split sum.split\<close>)

lemma quiet_handle_control [quietly]: "quiet env a e \<Longrightarrow> quiet env a (handle_control env j m e)"
  by (auto simp: handle_control_def Let_def split: control_type.split intro: quietly)

lemma quiet_poll_control_of [quietly]:
  assumes "quiet env a e"
  shows "quiet env a (poll_control_of env j e)"
proof -
  obtain s msgs e1 where c: "call (po_poll_control (the_prov env j) (unat (cq_batch (env_cfg env)))) e = ((s, msgs), e1)"
    by (metis prod.collapse)
  from quiet_call [OF assms c] c show ?thesis by (auto simp: poll_control_of_def intro!: quietly)
qed

lemma quiet_poll_arrivals_of [quietly]:
  assumes "quiet env a e"
  shows "quiet env a (poll_arrivals_of env j e)"
proof -
  obtain s as e1 where c: "call (po_poll_peer_arrivals (the_prov env j) (unat (cq_batch (env_cfg env)))) e = ((s, as), e1)"
    by (metis prod.collapse)
  from quiet_call [OF assms c] c show ?thesis by (auto simp: poll_arrivals_of_def intro!: quietly)
qed

section \<open>Completions and peers\<close>

lemma quiet_send_handoff [quietly]:
  assumes "quiet env a e"
  shows "quiet env a (send_handoff env r t e)"
  using assms by (auto simp: send_handoff_def Let_def split: prod.split intro!: quietly intro: quiet_call)

lemma quiet_end_completed [quietly]:
  assumes "quiet env a e"
  shows "quiet env a (end_completed env i r e)"
proof -
  have "req_steps r (let r1 = mark_stage ST_kTransferComplete r in
      if env_device env \<noteq> None \<and> rq_kind r = kRead then mark_stage ST_kTargetReady r1 else r1)" for r
    using req_move(4) [of r] req_move_comp [OF req_move(4) req_move(5), of r] by (simp add: Let_def)
  then show ?thesis
    using assms unfolding end_completed_def Let_def by (auto intro!: quietly quiet_upd_req req_moves)
qed

lemma quiet_handle_completion [quietly]:
  assumes "quiet env a e"
  shows "quiet env a (handle_completion env ev e)"
proof (cases "e_reqs e (ce_request ev)")
  case (Some r)
  let ?i = "ce_request ev" and ?f = "\<lambda>r. snd (on_subop_complete ev r)"
  have 1: "quiet env a (upd_req ?i (\<lambda>_. ?f r) e)"
    using upd_req_const [OF Some, of ?f] quiet_upd_req [OF assms req_move(10)] by simp
  obtain b e2 where c: "claim ?i (upd_req ?i (\<lambda>_. ?f r) e) = (b, e2)" by fastforce
  from quiet_claim [OF 1 c] 1 c assms Some show ?thesis
    by (auto simp: handle_completion_def split_beta Let_def intro: quietly)
qed (simp add: handle_completion_def assms)

lemma quiet_poll_all: "poll_all env js s evs e = (s', evs', e') \<Longrightarrow> quiet env a e \<Longrightarrow> quiet env a e'"
proof (induction js arbitrary: s evs e)
  case (Cons j js)
  let ?c = "call (po_poll (the_prov env j) (unat (cq_batch (env_cfg env)))) e"
  have "quiet env a (snd ?c)" using Cons.prems(2) by (intro quietly)
  from Cons.IH [OF _ this] Cons.prems(1) show ?case by (auto split: prod.splits)
qed simp

lemma quiet_disconnect_lanes [quietly]: "quiet env a e \<Longrightarrow> quiet env a (snd (disconnect_lanes env ls s e))"
proof (induction ls arbitrary: s e)
  case (Cons l ls)
  have "quiet env a (snd (call (po_disconnect (the_prov env (ln_provider l)) (ln_conn l)) e))" using Cons.prems by (intro quietly)
  from Cons.IH [OF this] show ?case by (simp add: split_beta)
qed simp

lemma quiet_end_stranded [quietly]: "quiet env a e \<Longrightarrow> quiet env a (end_stranded env p i e)"
  unfolding end_stranded_def by (intro quietly quiet_upd_req) (auto intro: req_move_comp [OF req_move(7) req_move(13)])

lemma quiet_reap_peer [quietly]: "quiet env a e \<Longrightarrow> quiet env a (reap_peer env p e)"
  unfolding reap_peer_def Let_def by (intro quietly)

lemma quiet_reap_departed_peers [quietly]: "quiet env a e \<Longrightarrow> quiet env a (reap_departed_peers env e)"
  unfolding reap_departed_peers_def by (intro quietly)

lemma quiet_remove_peer: "quiet env e (snd (remove_peer env peer e))"
  by (auto simp: remove_peer_def Let_def split: option.split intro!: quietly)

lemma quiet_progress [quietly]:
  assumes "quiet env a e"
  shows "quiet env a (snd (progress env e))"
proof -
  let ?js = "[0 ..< length (env_providers env)]"
  let ?e5 = "fold (poll_arrivals_of env) ?js (fold (poll_control_of env) ?js
     (end_notifications env 0 True no_error (reap_departed_peers env (drain_pending env e))))"
  obtain s evs e6 where p: "poll_all env ?js kOk [] ?e5 = (s, evs, e6)" by (rule prod_cases3)
  have "quiet env a ?e5" using assms by (intro quietly)
  from quiet_poll_all [OF p this] p show ?thesis by (auto simp: progress_def Let_def intro!: quietly)
qed

lemma quiet_explicit_progress [quietly]: "quiet env a e \<Longrightarrow> quiet env a (snd (explicit_progress env e))"
  by (simp add: explicit_progress_def quietly)

lemma quiet_drop:
  "quiet env a e \<Longrightarrow> quiet env a (e\<lparr>e_notifications := drop n (e_notifications e)\<rparr>)"
  "quiet env a e \<Longrightarrow> quiet env a (e\<lparr>e_completed := drop n (e_completed e)\<rparr>)"
  "quiet env a e \<Longrightarrow> quiet env a (e\<lparr>e_ready_events := drop n (e_ready_events e)\<rparr>)"
  by (auto simp: quiet_def regview_def queues_ok_def)

lemma quiet_polls:
  "quiet env e (snd (poll_notifications env n e))" "quiet env e (snd (poll_completions env n e))"
  "quiet env e (snd (poll_ready_events env n e))"
  by (auto simp: poll_notifications_def poll_completions_def poll_ready_events_def Let_def split_beta
      intro!: quiet_drop quietly)

lemma quiet_close_loop [quietly]: "quiet env a e \<Longrightarrow> quiet env a (snd (close_loop env n e))"
  by (induction n arbitrary: e) (simp_all add: quietly)

lemma quiet_close: "quiet env e (snd (close env n e))"
proof -
  have "quiet env e (snd (close_loop env n (e\<lparr>e_closed := True\<rparr>)))" by (intro quietly)
  then show ?thesis by (auto simp: close_def split_beta intro!: quietly)
qed

lemma quiet_cancel_request: "quiet env e (snd (cancel_request i e))"
  by (auto simp: cancel_request_def split: option.split intro!: quietly quiet_upd_req req_moves)

lemma quiet_record_event: "quiet env e (snd (record_event env e))"
  by (auto simp: record_event_def split: option.split intro!: quietly)

lemma quiet_sibling_lanes: "quiet env a e \<Longrightarrow> quiet env a (snd (sibling_lanes env pm c js lanes e))"
proof (induction js arbitrary: lanes e)
  case (Cons j js)
  have "quiet env a (snd (call (po_connect (the_prov env j) m) e))" for m using Cons.prems by (intro quietly)
  with Cons show ?case by (auto split: option.split prod.split sum.split) (metis snd_conv)+
qed simp

lemma quiet_add_peer: "quiet env e (snd (add_peer env md e))"
proof -
  have p: "quiet env e x \<Longrightarrow> quiet env e (x\<lparr>e_next_peer := k, e_peer_objs := po, e_peers := ps\<rparr>)" for x k po ps
    by (erule quiet_unseen) (simp add: unseen_def regview_def)
  show ?thesis
    unfolding add_peer_def by (auto simp: split_beta Let_def split: option.split sum.split prod.split 
        intro!: quietly p quiet_sibling_lanes)
qed

lemma quiet_import_region [quietly]: "quiet env a e \<Longrightarrow> quiet env a (snd (import_region env q d e))"
  by (auto simp: import_region_def Let_def split: option.split sum.split intro: quietly)

lemma quiet_import_region_batch: "quiet env a e \<Longrightarrow> quiet env a (snd (import_region_batch env q ds e))"
  by (induction ds arbitrary: e) (auto simp: split_beta quietly split: sum.split)


section \<open>What a quiet run keeps\<close>

definition reqs_ok :: "'w engine \<Rightarrow> bool" where
  "reqs_ok e \<longleftrightarrow> (\<forall>i r. e_reqs e i = Some r \<longrightarrow> request_inv r)"

lemma req_step_held: "req_step r r' \<Longrightarrow> rq_held_regions r' = rq_held_regions r"
  by (induction rule: req_step.induct) (auto simp: request_op_defs Let_def)

lemma req_steps_held: "req_steps r r' \<Longrightarrow> rq_held_regions r' = rq_held_regions r"
  by (induction rule: rtranclp_induct) (simp_all add: req_step_held)

lemma quiet_reqs_ok:
  assumes "quiet env e e'" "reqs_ok e"
  shows "reqs_ok e'"
  unfolding reqs_ok_def
proof (intro allI impI)
  fix i r'
  assume r': "e_reqs e' i = Some r'"
  have "rel_option req_steps (e_reqs e i) (e_reqs e' i)" using assms(1) by (simp add: quiet_def)
  then obtain r where "e_reqs e i = Some r" "req_steps r r'" using r' by (cases "e_reqs e i") auto
  with assms(2) req_steps_inv show "request_inv r'" by (auto simp: reqs_ok_def)
qed

lemma quiet_regs:
  assumes "quiet env e e'" "regs_inv n X e"
  shows "regs_inv n X e'"
proof (rule regs_inv_cong [OF _ _ assms(2)])
  show "regview e' = regview e" using assms(1) by (simp add: quiet_def)
  then have al: "e_alive e' = e_alive e" by (simp add: regview_def)
  assume h: "held_alive e"
  show "held_alive e'"
    unfolding held_alive_def
  proof
    fix q
    assume q: "q \<in> set (e_inflight e')"
    have "rel_option req_steps (e_reqs e q) (e_reqs e' q)" "q \<in> set (e_inflight e)"
      using assms(1) q by (auto simp: quiet_def)
    then show "case e_reqs e' q of None \<Rightarrow> True | Some r \<Rightarrow> set (rq_held_regions r) \<subseteq> set (e_alive e')"
      using h req_steps_held unfolding held_alive_def al by (cases "e_reqs e q"; cases "e_reqs e' q") fastforce+
  qed
qed

section \<open>Admission\<close>

lemma request_inv_fields:
  "rq_state r' = rq_state r \<Longrightarrow> rq_stages r' = rq_stages r \<Longrightarrow> rq_cancel_requested r' = rq_cancel_requested r \<Longrightarrow>
   request_inv r' = request_inv r"
  by (simp add: request_inv_def reached_def terminal_def)

lemma targets_loop_stages: "rq_stages (targets_loop q segs e r) = rq_stages r"
  by (induction segs arbitrary: r) (auto simp: add_remote_target_def Let_def split: option.split)

lemma admit_request_inv: "request_inv (admit_request env e p i kind tot held target bytes remote opts parts)"
proof -
  have "request_inv (admit_request env e p i kind tot held target bytes remote opts parts) =
      request_inv (new_request i kind (word_of_nat tot) (to_context opts))"
    by (rule request_inv_fields)
      (simp_all add: admit_request_def Let_def set_target_def set_parts_def targets_loop_fields targets_loop_stages)
  with request_inv_new show ?thesis by simp
qed

text \<open>The engine with a new request in flight, and everything \<open>submit_vector\<close> does after that.\<close>

definition enter :: "request \<Rightarrow> 'w engine \<Rightarrow> 'w engine" where
  "enter r e = e\<lparr>e_next_request := e_next_request e + 1, e_reqs := (e_reqs e)(e_next_request e \<mapsto> r),
     e_inflight := e_inflight e @ [e_next_request e]\<rparr>"

lemma submit_admitted_shape:
  obtains (plain) "quiet env e (snd (submit_admitted env p local remote opts kind e))"
  | (admits) r where "quiet env (enter r e) (snd (submit_admitted env p local remote opts kind e))" "request_inv r"
      "\<forall>g\<in>set (rq_held_regions r). \<exists>m. find_region g e = Some m \<and> \<not> mr_retired m" "\<not> terminal r"
proof (cases rule: submit_admitted_cases [of env p local remote opts kind e])
  case (refused s)
  with plain show thesis by (simp add: quietly)
next
  case (admits b)
  let ?i = "e_next_request e" and ?e1 = "e\<lparr>e_next_request := e_next_request e + 1\<rparr>"
  obtain per_lane held target tot where b: "b = (per_lane, held, target, tot)" by (cases b) auto
  let ?parts = "make_parts p ?i (to_after opts) per_lane"
  let ?r = "admit_request env ?e1 p ?i kind (length (concat per_lane)) held target tot remote opts ?parts"
  have "quiet env (enter ?r e) (count_accepted (?e1\<lparr>e_reqs := (e_reqs ?e1)(?i \<mapsto> ?r), e_inflight := e_inflight ?e1 @ [?i]\<rparr>))"
    unfolding count_accepted_def enter_def by (simp add: quietly)
  then have "quiet env (enter ?r e) (snd (submit_admitted env p local remote opts kind e))"
    unfolding admits(4) snd_conv b admitted_def by (auto simp: Let_def intro!: quietly quiet_upd_req req_moves)
  moreover have "find_region g ?e1 = find_region g e" for g by (simp add: find_region_def)
  then have "\<forall>g\<in>set (rq_held_regions ?r). \<exists>m. find_region g e = Some m \<and> \<not> mr_retired m"
    using build_subops_req(3) [OF admits(1) [unfolded b]] by (simp add: admit_request_fields)
  moreover have "\<not> terminal ?r" by (simp add: admit_request_fields)
  ultimately show thesis using admit_request_inv by (intro that(2)) simp_all
qed

text \<open>A submit either ends with its checks, which only count, or is its second part in the same state.\<close>

lemma submit_vector_splits:
  obtains (checked) "quiet env e (snd (submit_vector env peer local remote opts kind e))"
  | (passed) p where "Option.bind peer (e_peer_objs e) = Some p"
      "submit_vector env peer local remote opts kind e = submit_admitted env p local remote opts kind e"
  by (cases rule: submit_check_cases [of env peer local remote opts e]) (auto simp: submit_vector_def quietly)

lemma held_alive_iff:
  "held_alive e \<longleftrightarrow>
   (\<forall>q r. q \<in> set (e_inflight e) \<longrightarrow> e_reqs e q = Some r \<longrightarrow> set (rq_held_regions r) \<subseteq> set (e_alive e))"
  by (auto simp: held_alive_def split: option.splits)

lemma enter_regs:
  assumes inv: "regs_inv n {} e" and r: "\<forall>g\<in>set (rq_held_regions r). \<exists>m. find_region g e = Some m \<and> \<not> mr_retired m"
    and nz: "\<forall>q\<in>set (e_inflight e). q \<noteq> e_next_request e"
  shows "regs_inv n {} (enter r e)"
proof (rule regs_inv_cong [OF _ _ inv])
  show "regview (enter r e) = regview e" by (simp add: enter_def regview_def)
  assume h: "held_alive e"
  have "g \<in> set (e_regions e)" if "g \<in> set (rq_held_regions r)" for g
    using r that by (auto simp: find_region_def split: if_splits)
  then have "set (rq_held_regions r) \<subseteq> set (e_alive e)" using regs_invD(7) [OF inv] by blast
  with h nz show "held_alive (enter r e)" by (auto simp: held_alive_iff enter_def)
qed

lemma submit_admitted_keeps:
  assumes "regs_inv n {} e" "\<forall>q\<in>set (e_inflight e). q \<noteq> e_next_request e" "reqs_ok e" "queues_ok env e"
  shows "regs_inv n {} (snd (submit_admitted env p local remote opts kind e))"
    "reqs_ok (snd (submit_admitted env p local remote opts kind e))"
    "queues_ok env (snd (submit_admitted env p local remote opts kind e))"
proof -
  obtain b where b: "quiet env b (snd (submit_admitted env p local remote opts kind e))"
    "regs_inv n {} b" "reqs_ok b" "queues_ok env b"
  proof (cases rule: submit_admitted_shape [of env e p local remote opts kind])
    case plain
    with assms that show thesis by blast
  next
    case (admits r)
    have "reqs_ok (enter r e)" "queues_ok env (enter r e)"
      using assms(3,4) admits(2) by (simp_all add: reqs_ok_def queues_ok_def enter_def)
    with that [OF admits(1) enter_regs [OF assms(1) admits(3) assms(2)]] show thesis by blast
  qed
  show "regs_inv n {} (snd (submit_admitted env p local remote opts kind e))" using b(1,2) by (rule quiet_regs)
  show "reqs_ok (snd (submit_admitted env p local remote opts kind e))" using b(1,3) by (rule quiet_reqs_ok)
  show "queues_ok env (snd (submit_admitted env p local remote opts kind e))" using b(1,4) by (simp add: quiet_def)
qed

lemma notify_shape:
  "quiet env e (snd (snd (notify env peer payload e))) \<or>
   (\<exists>k x. quiet env (e\<lparr>e_next_notify := e_next_notify e + 1, e_next_request := e_next_request e + 1,
      e_reqs := (e_reqs e)(e_next_request e \<mapsto> (set_state RS_kWaitNotifyAck (new_request (e_next_request e) kWrite 0 0))\<lparr>rq_peer := k\<rparr>),
      e_notify_pending := e_notify_pending e @ [x]\<rparr>) (snd (snd (notify env peer payload e))))"
  (is "_ \<or> (\<exists>k x. quiet env (?new k x) _)")
proof (cases "Option.bind peer (e_peer_objs e)")
  case None
  then show ?thesis by (simp add: notify_def quietly)
next
  case (Some p)
  let ?j = "case first_provider p of None \<Rightarrow> 0 | Some j \<Rightarrow> j" and ?k = "e_next_notify e"
  let ?e1 = "?new (pr_id p) (?k, e_next_request e)"
  obtain s e2 where send: "call (po_send_control (the_prov env ?j) (first_conn p)
     (control_type_code kNotification) (encode_u64 ?k @ payload)) ?e1 = (s, e2)" by fastforce
  have 2: "quiet env ?e1 e2" by (rule quiet_call [OF quiet_refl send])
  obtain x e3 where take: "take_notification ?k e2 = (x, e3)" by fastforce
  have 3: "quiet env ?e1 e3" by (rule quiet_take_notification [OF take 2])
  have "quiet env e (snd (snd (notify env peer payload e))) \<or> quiet env ?e1 (snd (snd (notify env peer payload e)))"
    using Some send take 2 3
    by (auto simp: notify_def Let_def split: option.split intro!: quietly quiet_upd_req req_moves)
  then show ?thesis by blast
qed

lemma notify_keeps:
  assumes "regs_inv n {} e" "reqs_ok e" "queues_ok env e" "\<forall>q\<in>set (e_inflight e). q \<noteq> e_next_request e"
  shows "regs_inv n {} (snd (snd (notify env peer payload e)))" "reqs_ok (snd (snd (notify env peer payload e)))"
    "queues_ok env (snd (snd (notify env peer payload e)))"
proof -
  let ?e' = "snd (snd (notify env peer payload e))"
  let ?r = "\<lambda>k. (set_state RS_kWaitNotifyAck (new_request (e_next_request e) kWrite 0 0))\<lparr>rq_peer := k\<rparr>"
  let ?new = "\<lambda>k x. e\<lparr>e_next_notify := e_next_notify e + 1, e_next_request := e_next_request e + 1,
      e_reqs := (e_reqs e)(e_next_request e \<mapsto> ?r k), e_notify_pending := e_notify_pending e @ [x]\<rparr>"
  have "request_inv (?r k)" for k
  proof -
    have "request_inv (set_state RS_kWaitNotifyAck (new_request (e_next_request e) kWrite 0 0))"
      by (rule req_step_inv [OF st_set_state request_inv_new]) simp
    then show ?thesis by (simp add: request_inv_def reached_def terminal_def)
  qed
  then have r: "reqs_ok (?new k x)" for k x using assms(2) by (simp add: reqs_ok_def)
  have q: "queues_ok env (?new k x)" for k x using assms(3) by (simp add: queues_ok_def)
  have g: "regs_inv n {} (?new k x)" for k x
  proof (rule regs_inv_cong [OF _ _ assms(1)])
    assume "held_alive e"
    then show "held_alive (?new k x)" using assms(4) by (auto simp: held_alive_iff)
  qed (simp add: regview_def)
  obtain b where b: "quiet env b ?e'" "regs_inv n {} b" "reqs_ok b" "queues_ok env b"
    using notify_shape [of env e peer payload] assms(1-3) r q g by metis
  show "regs_inv n {} ?e'" "reqs_ok ?e'" by (rule quiet_regs [OF b(1,2)], rule quiet_reqs_ok [OF b(1,3)])
  show "queues_ok env ?e'" using b(1,4) by (simp add: quiet_def)
qed

end
