(* ===== verification/Hux_Reach.thy ===== *)
theory Hux_Reach
  imports Hux_Evolve
begin

text \<open>
  The engine as a state machine: every public method is a step, and between two of them the
  transports and the device move on their own. What holds in every state that can be reached
  is what an application can rely on.
\<close>

section \<open>The registry's methods and the rest of the engine\<close>

definition front :: "'w engine \<Rightarrow> _" where
  "front e = (e_reqs e, e_inflight e, e_completed e, e_ready_events e, e_notifications e)"

lemma front_simps [simp]:
  "front (snd (call h e)) = front e" "front (upd_stats f e) = front e" "front (e\<lparr>e_released := l\<rparr>) = front e"
  "front (e\<lparr>e_reg_cache := c\<rparr>) = front e" "front (e\<lparr>e_next_reg := k\<rparr>) = front e" "front (e\<lparr>e_alive := a\<rparr>) = front e"
  "front (e\<lparr>e_region_objs := ro\<rparr>) = front e" "front (e\<lparr>e_regions := rs\<rparr>) = front e"
  by (simp_all add: front_def call_def upd_stats_def split: prod.split)

lemma front_call: "call h e = (x, e') \<Longrightarrow> front e' = front e"
  using front_simps(1) [of h e] by simp

lemma front_release [simp]: "front (fold (release_registration env) rs e) = front e"
proof -
  have k: "front (deregister_keys env ks x) = front x" for ks and x :: "'a engine"
    unfolding deregister_keys_def by (induction ks arbitrary: x) auto
  show ?thesis by (induction rs arbitrary: e) (simp_all add: release_registration_eq k)
qed

lemma front_release_one [simp]: "front (release_registration env r e) = front e"
  using front_release [of env "[r]" e] by simp

lemma front_register_loop [simp]: "front (snd (register_loop env a len dev acc js st e)) = front e"
proof (induction js arbitrary: st e)
  case (Cons j js)
  obtain keys held fe where st: "st = (keys, held, fe)" by (rule prod_cases3)
  from Cons.IH show ?case by (auto simp: st split: prod.split sum.split dest: front_call)
qed simp

lemma front_new_registration [simp]: "front (snd (new_registration env a len dev acc e)) = front e"
proof -
  obtain keys held fe e1 where l: "register_loop env a len dev acc [0 ..< length (env_providers env)] ([], [], kOk) e =
     ((keys, held, fe), e1)" by (metis prod.collapse)
  from front_register_loop [of env a len dev acc "[0 ..< length (env_providers env)]" "([], [], kOk)" e] l
  have "front e1 = front e" by simp
  with l show ?thesis by (auto simp: new_registration_def Let_def cache_registration_def split: prod.split)
qed

lemma front_add_region [simp]: "front (snd (add_region env a len dev mem acc reg e)) = front e"
  by (simp add: add_region_def Let_def front_def)

lemma front_register_memory [simp]: "front (snd (register_memory env a len acc e)) = front e"
proof (cases rule: register_memory_cases [of env a len acc e])
  case (fresh x e1 f dev mem)
  from front_new_registration [of env a len dev acc "upd_stats f e"] fresh show ?thesis by (simp split: sum.split)
qed simp_all

lemma front_register_each [simp]: "front (snd (register_each env acc xs e)) = front e"
  by (induction xs arbitrary: e) (auto simp: split_beta)

lemma front_announce_invalid [simp]: "front (announce_invalid env m e) = front e"
proof (rule announce_invalid_cases [of env m e])
  have b: "front (snd (broadcast_loop env pl js st x)) = front x" for pl js st and x :: "'a engine"
  proof (induction js arbitrary: st x)
    case (Cons j js)
    obtain sent refused rest where st: "st = (sent, refused, rest)" by (rule prod_cases3)
    from Cons.IH show ?case by (auto simp: st split: prod.split dest: front_call)
  qed simp
  have n: "front (snd (notify_peers_loop env pl rest ps st x)) = front x" for pl rest ps st and x :: "'a engine"
  proof (induction ps arbitrary: st x)
    case (Cons p ps)
    obtain sent refused where st: "st = (sent, refused)" by fastforce
    from Cons.IH show ?case by (auto simp: st split: prod.split option.split dest: front_call)
  qed simp
  fix st e1 f st' e2
  assume *: "broadcast_loop env (encode_region_invalidate \<lparr>ri_region = mr_id m, ri_generation = mr_gen m,
       ri_has_origin = True, ri_origin = mr_origin m\<rparr>) [0 ..< length (env_providers env)] (0, 0, []) e = (st, e1)"
    "announce_invalid env m e = upd_stats f e2"
    "e2 = e1 \<or> (\<exists>pl st1 st'. notify_peers_loop env pl (snd (snd st)) (List.map_filter (e_peer_objs e1) (e_peers e1)) st1 e1 = (st', e2))"
  have "front e2 = front e1" using *(3) n by (metis snd_conv)
  moreover have "front e1 = front e" using b *(1) by (metis snd_conv)
  ultimately show ?thesis using *(2) by simp
qed

lemma front_registry [simp]:
  "front (snd (release_cached_registrations env e)) = front e" "front (snd (deregister_memory env g e)) = front e"
  "front (drop_region env i e) = front e" "front (snd (register_memory_batch env addrs lens acc e)) = front e"
  by (auto simp: release_cached_registrations_def deregister_memory_def drop_region_def register_memory_batch_def
      Let_def split_beta split: option.split)

lemma front_keeps:
  assumes "front e' = front e"
  shows "reqs_ok e' = reqs_ok e" "queues_ok env e' = queues_ok env e"
  using assms by (simp_all add: front_def reqs_ok_def queues_ok_def)

section \<open>Steps\<close>

text \<open>
  What happens to an engine: calls of its methods, and changes of the world around it. A submit may
  also be found past its checks: \<open>es_admit\<close> is the rest of one whose checks were passed in an earlier
  state, with other threads' calls in between.
\<close>

inductive engine_step ::
  "'w engine_env \<Rightarrow> ('w \<Rightarrow> bool) \<Rightarrow> ('w \<Rightarrow> (request_id \<times> u64) multiset) \<Rightarrow> 'w engine \<Rightarrow> 'w engine \<Rightarrow> bool"
  for env winv outs where
  es_submit: "submit_fits env peer local remote kind e \<Longrightarrow>
     engine_step env winv outs e (snd (submit_vector env peer local remote opts kind e))"
| es_admit: "submit_fits env (Some q) local remote kind e \<Longrightarrow> e_peer_objs e q = Some p \<Longrightarrow>
     engine_step env winv outs e (snd (submit_admitted env p local remote opts kind e))"
| es_notify: "e_next_request e + 1 \<noteq> 0 \<Longrightarrow> engine_step env winv outs e (snd (snd (notify env peer payload e)))"
| es_cancel: "engine_step env winv outs e (snd (cancel_request i e))"
| es_register: "e_next_region e + 1 \<noteq> 0 \<Longrightarrow> engine_step env winv outs e (snd (register_memory env a len acc e))"
| es_register_batch: "unat (e_next_region e) + length addrs < 2 ^ 64 \<Longrightarrow>
     engine_step env winv outs e (snd (register_memory_batch env addrs lens acc e))"
| es_deregister: "engine_step env winv outs e (snd (deregister_memory env g e))"
| es_release_cached: "engine_step env winv outs e (snd (release_cached_registrations env e))"
| es_drop_region: "engine_step env winv outs e (drop_region env g e)" for g
| es_add_peer: "e_next_peer e + 1 \<noteq> 0 \<Longrightarrow> engine_step env winv outs e (snd (add_peer env md e))"
| es_remove_peer: "engine_step env winv outs e (snd (remove_peer env peer e))"
| es_import: "engine_step env winv outs e (snd (import_region env q d e))"
| es_import_batch: "engine_step env winv outs e (snd (import_region_batch env q ds e))"
| es_progress: "engine_step env winv outs e (snd (progress env e))"
| es_poll_notifications: "engine_step env winv outs e (snd (poll_notifications env n e))"
| es_poll_completions: "engine_step env winv outs e (snd (poll_completions env n e))"
| es_poll_ready_events: "engine_step env winv outs e (snd (poll_ready_events env n e))"
| es_record_event: "engine_step env winv outs e (snd (record_event env e))"
| es_close: "engine_step env winv outs e (snd (close env n e))"
| es_world: "winv w \<Longrightarrow> outs w = outs (e_world e) \<Longrightarrow> engine_step env winv outs e (e\<lparr>e_world := w\<rparr>)"

inductive engine_reachable ::
  "'w engine_env \<Rightarrow> ('w \<Rightarrow> bool) \<Rightarrow> ('w \<Rightarrow> (request_id \<times> u64) multiset) \<Rightarrow> 'w engine \<Rightarrow> bool"
  for env winv outs where
  er_init: "make_engine env w = Inr e \<Longrightarrow> winv w \<Longrightarrow> outs w = {#} \<Longrightarrow> engine_reachable env winv outs e"
| er_step: "engine_reachable env winv outs e \<Longrightarrow> engine_step env winv outs e e' \<Longrightarrow> engine_reachable env winv outs e'"

definition sound_state ::
  "'w engine_env \<Rightarrow> ('w \<Rightarrow> bool) \<Rightarrow> ('w \<Rightarrow> (request_id \<times> u64) multiset) \<Rightarrow> 'w engine \<Rightarrow> bool" where
  "sound_state env winv outs e \<longleftrightarrow> engine_inv env winv outs {#} [] e \<and>
     regs_inv (length (env_providers env)) {} e \<and> reqs_ok e \<and> queues_ok env e"

lemma fresh_request:
  assumes "engine_inv env winv outs Q E e"
  shows "\<forall>q\<in>set (e_inflight e). q \<noteq> e_next_request e"
proof
  fix q
  assume q: "q \<in> set (e_inflight e)"
  obtain r where "e_reqs e q = Some r"
    using assms q by (force simp: engine_inv_def core_inv_def slot_ok_def split: option.splits)
  then show "q \<noteq> e_next_request e" using assms by (auto simp: engine_inv_def core_inv_def ids_ok_def)
qed

lemma sound_quiet:
  assumes "sound_state env winv outs e" "engine_inv env winv outs {#} [] e'" "quiet env e e'"
  shows "sound_state env winv outs e'"
proof -
  have "queues_ok env e'" using assms(1,3) by (simp add: quiet_def sound_state_def)
  with assms(1,2) quiet_regs [OF assms(3)] quiet_reqs_ok [OF assms(3)] show ?thesis by (simp add: sound_state_def)
qed

lemma sound_front:
  assumes "sound_state env winv outs e" "engine_inv env winv outs {#} [] e'"
    "regs_inv (length (env_providers env)) {} e'" "front e' = front e"
  shows "sound_state env winv outs e'"
  using assms front_keeps [OF assms(4)] by (simp add: sound_state_def)

context engine_transports
begin

lemma sound_init:
  assumes "make_engine env w = Inr e" "winv w" "outs w = {#}"
  shows "sound_state env winv outs e"
proof -
  have e: "e = new_engine w" using assms(1) by (auto simp: make_engine_def Let_def split: if_splits)
  show ?thesis
    using assms(2,3) unfolding e
    by (auto simp: sound_state_def new_engine_def engine_inv_def core_inv_def slot_ok_def wiring_ok_def ids_ok_def
        stats_ok_def ended_def zero_engine_stats_def regs_inv_def owned_def built_on_def held_alive_def reqs_ok_def queues_ok_def)
qed

lemma sound_step:
  assumes "engine_step env winv outs e e'" "sound_state env winv outs e"
  shows "sound_state env winv outs e'"
proof -
  have inv: "engine_inv env winv outs {#} [] e" and regs: "regs_inv (length (env_providers env)) {} e"
    and ok: "reqs_ok e" "queues_ok env e" using assms(2) by (simp_all add: sound_state_def)
  note fresh = fresh_request [OF inv]
  note q = sound_quiet [OF assms(2)] and f = sound_front [OF assms(2)]
  from assms(1) show ?thesis
  proof cases
    case (es_submit peer local remote kind opts)
    have "engine_inv env winv outs {#} [] e'" using submit_vector_inv [OF inv] es_submit by simp
    show ?thesis
    proof (cases rule: submit_vector_splits [of env e peer local remote opts kind])
      case checked
      then show ?thesis using q \<open>engine_inv env winv outs {#} [] e'\<close> es_submit(1) by simp
    next
      case (passed p)
      then show ?thesis
        using submit_admitted_keeps [OF regs fresh ok, of p] \<open>engine_inv env winv outs {#} [] e'\<close> es_submit(1)
        by (simp add: sound_state_def)
    qed
  next
    case (es_admit qi local remote kind p opts)
    then show ?thesis
      using submit_admitted_inv [OF inv, of "Some qi"] submit_admitted_keeps [OF regs fresh ok]
      by (simp add: sound_state_def)
  next
    case (es_notify peer payload)
    then show ?thesis using notify_inv [OF inv] notify_keeps [OF regs ok fresh] by (simp add: sound_state_def)
  next
    case (es_cancel i)
    then show ?thesis by (simp add: q cancel_request_inv [OF inv] quiet_cancel_request)
  next
    case (es_register a len acc)
    then show ?thesis by (simp add: f register_memory_inv [OF inv regs] register_memory_regs [OF regs])
  next
    case (es_register_batch addrs lens acc)
    have "engine_inv env winv outs {#} [] (snd (register_memory_batch env addrs lens acc e))"
      "regs_inv (length (env_providers env)) {} (snd (register_memory_batch env addrs lens acc e))"
      using inv regs es_register_batch register_each_inv [OF inv regs, of "zip addrs lens" acc]
        register_each_regs [OF regs, of "zip addrs lens" acc]
      by (auto simp: register_memory_batch_def split_beta)
    then show ?thesis unfolding es_register_batch by (intro f) simp_all
  next
    case (es_deregister g)
    then show ?thesis by (simp add: f deregister_memory_inv [OF inv] deregister_memory_regs [OF regs])
  next
    case es_release_cached
    then show ?thesis by (simp add: f release_cached_inv [OF inv regs] release_cached_regs_inv [OF regs])
  next
    case (es_drop_region g)
    then show ?thesis by (simp add: f drop_region_inv [OF inv regs] drop_region_regs [OF regs])
  next
    case (es_add_peer md)
    then show ?thesis by (simp add: q add_peer_inv [OF inv] quiet_add_peer)
  next
    case (es_remove_peer peer)
    then show ?thesis by (simp add: q remove_peer_inv [OF inv] quiet_remove_peer)
  next
    case (es_import q d)
    then show ?thesis by (simp add: sound_quiet [OF assms(2)] import_region_inv [OF inv] quietly)
  next
    case (es_import_batch q ds)
    then show ?thesis
      by (simp add: sound_quiet [OF assms(2)] import_region_batch_inv [OF inv] quiet_import_region_batch quiet_refl)
  next
    case es_progress
    then show ?thesis by (simp add: q progress_inv [OF inv] quietly)
  next
    case (es_record_event)
    then show ?thesis by (simp add: q record_event_inv [OF inv] quiet_record_event)
  next
    case (es_close n)
    then show ?thesis by (simp add: q close_inv [OF inv] quiet_close)
  next
    case (es_world w)
    then show ?thesis by (simp add: q world_inv [OF inv] quietly)
  qed (simp_all add: q polls_inv [OF inv] quiet_polls)
qed

theorem reachable_sound: "engine_reachable env winv outs e \<Longrightarrow> sound_state env winv outs e"
  by (induction rule: engine_reachable.induct) (blast intro: sound_init sound_step)+

end

end
