(* ===== verification/Hux_Demo.thy ===== *)
theory Hux_Demo
  imports Hux_Reach
begin

text \<open>
  An engine over in-process transports keeps the assumptions the guarantees are stated under, and
  a worked example: an engine that registers memory, adds a peer, imports a region of it, writes
  to it and completes the write. The states of the example are written out, and each is shown to
  be what the methods make of the one before.
\<close>

section \<open>An engine over in-process transports\<close>

definition local_env :: "nat \<Rightarrow> local_world engine_env \<Rightarrow> local_world engine_env" where
  "local_env n env = env\<lparr>env_device := None, env_providers := map local_ops [0 ..< Suc n]\<rparr>"

interpretation local_engine: engine_transports "local_env n env" "\<lambda>w. Suc n \<le> length (lw_provs w)"
    "local_outstanding (Suc n)"
  for n env
proof (rule engine_transports.intro)
  show "transport_provider p (\<lambda>w. Suc n \<le> length (lw_provs w)) (local_outstanding (Suc n))"
    if "p \<in> set (env_providers (local_env n env))" for p
    using that local_contract [of _ "Suc n"] by (auto simp: local_env_def simp del: upt_Suc)
qed (simp_all add: local_env_def)

text \<open>A first engine of a process, and the state after its memory has been registered and a peer added.\<close>

definition demo_env :: "local_world engine_env" where
  "demo_env = local_env 0 near_env"

abbreviation demo_inv :: "local_world \<Rightarrow> bool" where
  "demo_inv \<equiv> \<lambda>w. Suc 0 \<le> length (lw_provs w)"

definition demo_start :: "local_world engine" where
  "demo_start = new_engine sample_world"

lemma demo_transports: "engine_transports demo_env demo_inv (local_outstanding (Suc 0))"
  unfolding demo_env_def by (rule local_engine.engine_transports_axioms)

lemma demo_reachable: "engine_reachable demo_env demo_inv (local_outstanding (Suc 0)) demo_start"
proof (rule er_init)
  show "make_engine demo_env sample_world = Inr demo_start"
    by (simp add: make_engine_def demo_env_def local_env_def near_env_def sample_env_def demo_start_def validate_def
        default_config_def Let_def)
qed (simp_all add: sample_world_def new_local_prov_def local_outstanding_def prov_keys_def)


text \<open>The same engine with a region, a peer, an imported region, a write in flight, and the write done.\<close>

definition demo_region :: memory_region where
  "demo_region = \<lparr>mr_origin = env_identity demo_env, mr_id = 1, mr_gen = 1, mr_base = 0x1000, mr_length = 0x100,
     mr_dev = cfg_device (env_cfg demo_env), mr_mem = kHostPageable, mr_access = 15,
     mr_reg = \<lparr>rg_id = 0, rg_base = 0x1000, rg_length = 0x100, rg_device = cfg_device (env_cfg demo_env), rg_access = 15,
       rg_keys = [\<lparr>rk_provider = ''local'', rk_local_key = 2, rk_remote_key = 2\<rparr>], rg_local_key = 2, rg_remote_key = 2,
       rg_held = [(0, 2)]\<rparr>, mr_retired = False\<rparr>"

definition demo_registered :: "local_world engine" where
  "demo_registered = demo_start\<lparr>e_world := sample_world\<lparr>lw_next := 3,
       lw_entries := (lw_entries sample_world)(2 \<mapsto> (0x1000, 0x100)),
       lw_provs := [new_local_prov\<lparr>lp_local_keys := [2 \<mapsto> 0x1000]\<rparr>]\<rparr>,
     e_region_objs := [1 \<mapsto> demo_region], e_regions := [1], e_alive := [1], e_reg_cache := [mr_reg demo_region],
     e_next_reg := 1, e_next_region := 2, e_stats := zero_engine_stats\<lparr>registrations_created := 1\<rparr>\<rparr>"

definition demo_remote :: region_descriptor where
  "demo_remote = region_descriptor_of (demo_region\<lparr>mr_origin := near_identity\<rparr>)"

definition demo_peer :: peer where
  "demo_peer = \<lparr>pr_id = 1, pr_identity = near_identity, pr_lanes = [\<lparr>ln_provider = 0, ln_conn = 0, ln_weight = 1\<rparr>],
     pr_caps = \<lparr>pcap_path = PK_kSameProcess, pcap_place = PP_kSameProcess, pcap_provider = ''local'', pcap_qp_count = 1,
       pcap_lane_count = 1, pcap_remote_device_is_gpu = False, pcap_remote_max_registration_bytes = 0\<rparr>,
     pr_epoch = 0, pr_connected = True\<rparr>"

definition demo_added :: "local_world engine" where
  "demo_added = demo_registered\<lparr>e_world := (e_world demo_registered)\<lparr>lw_next_conn := 1\<rparr>,
     e_peer_objs := [1 \<mapsto> demo_peer], e_peers := [1], e_next_peer := 2\<rparr>"

lemma demo_env_simps [simp]:
  "env_providers demo_env = [local_ops 0]" "env_device demo_env = None" "env_identity demo_env = env_identity near_env"
  "env_cfg demo_env = default_config\<lparr>chunk_bytes := 48, scheduler_quantum_bytes := 64\<rparr>"
  by (simp_all add: demo_env_def local_env_def near_env_def sample_env_def)

lemma demo_registered_step: "snd (register_memory demo_env 0x1000 0x100 15 demo_start) = demo_registered"
  by (simp add: register_memory_def probe_device_def over_device_cap_def find_registration_def demo_start_def new_engine_def
      new_registration_def call_def local_ops_def local_register_region_def registry_publish_def sample_world_def
      upd_prov_def cache_registration_def evict.simps Let_def default_config_def add_region_def demo_registered_def
      demo_region_def local_caps_def upd_stats_def zero_engine_stats_def new_local_prov_def)

lemma demo_added_step: "snd (add_peer demo_env near_meta demo_registered) = demo_added"
  by (simp add: add_peer_def near_parse suits_def call_def local_ops_def local_connect_def local_caps_def Let_def
      demo_registered_def demo_start_def new_engine_def sample_world_def caps_for_def path_of_def make_lane_def
      demo_added_def demo_peer_def)

definition demo_ready :: "local_world engine" where
  "demo_ready = demo_added\<lparr>e_remotes := [((1, 1), new_remote_region demo_remote)]\<rparr>"

lemma demo_ready_import: "snd (import_region demo_env 1 (encode_descriptor demo_remote) demo_added) = demo_ready"
proof -
  have d: "decode_descriptor (encode_descriptor demo_remote) = accept demo_remote"
    by (rule decode_encode_descriptor) (simp add: descriptor_ok_def region_descriptor_of_def demo_remote_def demo_region_def
        demo_env_def local_env_def near_env_def sample_env_def default_config_def device_kind_named_def
        host_device_def keys_fit_def)
  have "e_peer_objs demo_added 1 = Some demo_peer" "e_remotes demo_added = []" "pr_identity demo_peer = near_identity"
    by (simp_all add: demo_added_def demo_peer_def demo_registered_def demo_start_def new_engine_def)
  moreover have "rd_origin demo_remote = near_identity" "rd_region demo_remote = 1"
    "lane_usable demo_env demo_remote (hd (pr_lanes demo_peer))"
    "with_primary_key demo_env (pr_lanes demo_peer) demo_remote = demo_remote"
    by (simp_all add: demo_remote_def region_descriptor_of_def demo_region_def lane_usable_def key_of_def demo_peer_def
        with_primary_key_def local_ops_def local_caps_def)
  moreover have "hd (pr_lanes demo_peer) \<in> set (pr_lanes demo_peer)" by (simp add: demo_peer_def)
  ultimately show ?thesis using d by (auto simp: import_region_def Let_def demo_ready_def)
qed

definition demo_view :: region_view where
  "demo_view = \<lparr>rv_region = 1, rv_span = \<lparr>sp_offset = 16, sp_length = 8\<rparr>\<rparr>"

definition demo_options :: transfer_options where
  "demo_options = \<lparr>to_after = [], to_notify_payload = [], to_notify = False, to_ready_handoff = False, to_context = 0\<rparr>"

lemmas demo_defs = demo_ready_def demo_added_def demo_peer_def demo_registered_def demo_start_def new_engine_def
  demo_view_def demo_options_def demo_remote_def demo_region_def region_descriptor_of_def

section \<open>The write\<close>

definition demo_op :: subop where
  "demo_op = \<lparr>so_signal_peer = False, so_peer_token = 0, so_kind = kWrite, so_request = 1, so_sub_id = 0,
     so_local_addr = 0x1010, so_local_key = 2, so_remote_addr = 0x1010, so_remote_key = 2, so_length = 8\<rparr>"

lemma demo_build: "build_subops demo_env (demo_ready\<lparr>e_next_request := 2\<rparr>) 1 [demo_view] [demo_view] kWrite 1 (pr_lanes demo_peer) =
   Inr ([[demo_op]], [1], 0x1010, 8)"
proof -
  have "chunk_limit demo_env (pr_lanes demo_peer) = 48"
    by (simp add: chunk_limit_def demo_peer_def local_ops_def local_caps_def)
  moreover have "chunks 48 8 0 = [(0, 8)]" by (simp add: chunks.simps)
  ultimately show ?thesis
    by (simp add: build_subops_def build_segment_def demo_defs
        new_engine_def find_region_def find_remote_def 
        new_remote_region_def region_descriptor_of_def has_flag_def access_consts span_within_def
        make_subop_def local_key_for_def remote_key_for_def local_ops_def local_caps_def
        empty_build_def Let_def demo_op_def)
qed

lemma demo_resolve: "resolve_locked 2 0x1010 8 (e_world demo_ready) = Some 0x1010" 
  by (simp add: resolve_locked_def demo_defs word_less_nat_alt)

definition demo_part :: pending_submit where
  "demo_part = \<lparr>ps_req = 1, ps_ops = [demo_op], ps_conn = 0, ps_peer = 1, ps_provider = 0, ps_after = []\<rparr>"

definition demo_request :: request where
  "demo_request = admit_request demo_env (demo_ready\<lparr>e_next_request := 2\<rparr>) demo_peer 1 kWrite 1 [1] 0x1010 8 [demo_view] demo_options [demo_part]"

definition demo_world :: local_world where
  "demo_world = upd_prov 0 (local_posted demo_op) ((e_world demo_ready)\<lparr>lw_mem := memcpy 0x1010 0x1010 8 (lw_mem (e_world demo_ready))\<rparr>)"

lemma demo_submitted: "local_submit 0 (Some 0) [demo_op] (e_world demo_ready) = (\<lparr>sr_accepted = 1, sr_status = kOk, sr_errno = 0\<rparr>, demo_world)"
  using demo_resolve by (simp add: local_submit_def registry_copy_def demo_op_def demo_world_def)

lemma demo_ready_fields: "\<not> e_closed demo_ready" "e_peer_objs demo_ready 1 = Some demo_peer" "pr_id demo_peer = 1" "pr_connected demo_peer"
  "e_inflight demo_ready = []" "e_next_request demo_ready = 1" "e_region_objs demo_ready 1 = Some demo_region" "e_reqs demo_ready = Map.empty" "e_pending demo_ready = []"
  "\<not> mr_retired demo_region" "to_after demo_options = []" "\<not> to_notify demo_options"
  "make_parts demo_peer 1 [] [[demo_op]] = [demo_part]"
  by (simp_all add: demo_defs make_parts_def demo_part_def)

lemma demo_request_fields: "\<not> terminal demo_request" "\<not> abandoning demo_request" "rq_accepted demo_request = 0" "rq_parts_left demo_request = 1"
  "rq_total demo_request = 1" "rq_completed demo_request = 0" "\<not> rq_sealed demo_request" "\<not> rq_cancel_requested demo_request" "ei_ok (rq_error demo_request)"
proof -
  show "\<not> terminal demo_request" "\<not> abandoning demo_request" "rq_accepted demo_request = 0" "rq_parts_left demo_request = 1"
  "rq_total demo_request = 1" "rq_completed demo_request = 0" "\<not> rq_sealed demo_request"
   unfolding demo_request_def by (simp_all add: admit_request_fields)
  then show  "\<not> rq_cancel_requested demo_request" "ei_ok (rq_error demo_request)" by (simp_all add: abandoning_def)
qed

definition demo_entered :: "local_world engine" where
  "demo_entered = count_accepted (demo_ready\<lparr>e_next_request := 2, e_reqs := [1 \<mapsto> demo_request], e_inflight := [1]\<rparr>)"

lemma demo_submit: "submit_vector demo_env (Some 1) [demo_view] [demo_view] demo_options kWrite demo_ready = (Inr 1, post_parts demo_env [demo_part] demo_entered)"
proof -
  have d: "dependency_state demo_env [] w = kOk" for w by (simp add: dependency_state_def)
  have m: "unat (max_inflight_requests (env_cfg demo_env)) \<le> 0 \<longleftrightarrow> False" by (simp add: default_config_def)
  show ?thesis
   unfolding submit_vector_def submit_check_def submit_admitted_def using m
   by (simp add: demo_ready_fields demo_build d demo_request_def demo_entered_def Let_def del: demo_env_simps)
qed

definition demo_sent :: request where
  "demo_sent = demo_request\<lparr>rq_state := RS_kInflight, rq_accepted := 1, rq_parts_left := 0\<rparr>"

lemma demo_posted: "post_parts demo_env [demo_part] demo_entered = demo_entered\<lparr>e_reqs := [1 \<mapsto> demo_sent], e_world := demo_world\<rparr>"
proof -
  have e: "e_reqs demo_entered = [1 \<mapsto> demo_request]" "e_world demo_entered = e_world demo_ready"
    by (simp_all add: demo_entered_def count_accepted_def)
  have q: "take (quantum 64 (ps_ops demo_part) 0 0) (ps_ops demo_part) = [demo_op]" by (simp add: demo_part_def)
  have sb: "po_submit (the_prov demo_env (ps_provider demo_part)) (Some (ps_conn demo_part))
     (take (quantum 64 (ps_ops demo_part) 0 0) (ps_ops demo_part)) (e_world demo_entered) =
     (\<lparr>sr_accepted = 1, sr_status = kOk, sr_errno = 0\<rparr>, demo_world)"
    unfolding q e using demo_submitted by (simp add: demo_part_def local_ops_def)
  have st: "accept_subops 1 demo_request = demo_request\<lparr>rq_state := RS_kInflight, rq_accepted := 1\<rparr>"
    using demo_request_fields by (simp add: accept_subops_def add_accepted_subops_def set_state_def)
  let ?e = "demo_entered\<lparr>e_reqs := [1 \<mapsto> demo_request\<lparr>rq_state := RS_kInflight, rq_accepted := 1\<rparr>], e_world := demo_world\<rparr>"
  have "fst (post_ops demo_env 64 demo_part demo_entered)"
    "snd (snd (post_ops demo_env 64 demo_part demo_entered)) = part_done demo_env 1 ?e"
    using post_ops_eq [OF _ _ demo_request_fields(2) sb refl] e q st by (simp_all add: demo_part_def upd_req_def)
  moreover have "part_done demo_env 1 ?e = demo_entered\<lparr>e_reqs := [1 \<mapsto> demo_sent], e_world := demo_world\<rparr>"
    using demo_request_fields by (simp add: part_done_def part_finished_def demo_sent_def abandoning_def terminal_def is_terminal_def upd_req_def)
  moreover have "scheduler_quantum_bytes (env_cfg demo_env) = 64" by simp
  ultimately show ?thesis by (simp add: split_beta)
qed

definition demo_flight :: "local_world engine" where
  "demo_flight = demo_entered\<lparr>e_reqs := [1 \<mapsto> demo_sent], e_world := demo_world\<rparr>"

lemma demo_targets: "rq_remote_targets demo_sent = []"
  by (simp add: demo_sent_def demo_request_def admit_request_def Let_def demo_options_def set_target_def new_request_def set_parts_def)

lemma demo_flight_fields: "e_pending demo_flight = []" "e_notify_pending demo_flight = []" "e_peers demo_flight = [1]" "e_peer_objs demo_flight = [1 \<mapsto> demo_peer]"
   "e_inflight demo_flight = [1]" "e_reqs demo_flight = [1 \<mapsto> demo_sent]" "e_world demo_flight = demo_world"
  by (simp_all add: demo_flight_def demo_entered_def count_accepted_def demo_ready_def demo_added_def demo_registered_def demo_start_def new_engine_def upd_stats_def)

lemma demo_provs: "lw_provs demo_world = [local_posted demo_op (new_local_prov\<lparr>lp_local_keys := [2 \<mapsto> 0x1000]\<rparr>)]"
  by (simp add: demo_world_def upd_prov_def demo_ready_def demo_added_def demo_registered_def)

lemma demo_poll_control: "local_poll_control 0 n demo_world = ((kOk, []), demo_world)"
proof -
  let ?p = "local_posted demo_op (new_local_prov\<lparr>lp_local_keys := [2 \<mapsto> 0x1000]\<rparr>)"
  have "lp_control ?p = []" by (simp add: local_posted_def new_local_prov_def)
  then have "?p\<lparr>lp_control := drop n (lp_control ?p)\<rparr> = ?p" by simp
  then have "demo_world\<lparr>lw_provs := [?p\<lparr>lp_control := drop n (lp_control ?p)\<rparr>]\<rparr> = demo_world" using demo_provs by (metis local_world.surjective local_world.update_convs(4))
  with demo_provs show ?thesis by (simp add: local_poll_control_def upd_prov_def local_posted_def new_local_prov_def)
qed

lemma demo_poll: "\<exists>w. local_poll 0 16 demo_world = ((kOk, [local_event demo_op]), w)"
  by (simp add: local_poll_def demo_provs Let_def local_posted_def new_local_prov_def)

text \<open>One turn of progress, in the state as it is and in the one \<open>close\<close> makes of it.\<close>

lemma demo_progress:
  fixes c
  defines "e \<equiv> demo_flight\<lparr>e_closed := c\<rparr>"
  shows "\<exists>w. snd (progress demo_env e) = handle_completion demo_env (local_event demo_op) (e\<lparr>e_world := w\<rparr>)"
proof -
  note f = demo_flight_fields
  have a: "drain_pending demo_env e = e" by (simp add: drain_pending_def e_def f)
  have "gone_peers demo_env e = []"
   by (simp add: gone_peers_def e_def f map_filter_simps any_lane_gone_def demo_peer_def local_ops_def)
  then have b: "reap_departed_peers demo_env e = e" by (simp add: reap_departed_peers_def)
  have c: "end_notifications demo_env 0 True no_error e = e" by (simp add: end_notifications_def e_def f Let_def)
  have w: "e_world e = demo_world" by (simp add: e_def f)
  then have id: "e\<lparr>e_world := demo_world\<rparr> = e" by simp
  have pc: "poll_control_of demo_env 0 e = e"
    using demo_poll_control id w by (simp add: poll_control_of_def call_def local_ops_def)
  have pa: "poll_arrivals_of demo_env 0 e = e" using id w by (simp add: poll_arrivals_of_def call_def local_ops_def)
  obtain w' where w': "local_poll 0 16 demo_world = ((kOk, [local_event demo_op]), w')" using demo_poll by blast
  have "poll_all demo_env [0] kOk [] e = (kOk, [local_event demo_op], e\<lparr>e_world := w'\<rparr>)"
    using w w' by (simp add: call_def local_ops_def default_config_def)
  then show ?thesis by (simp add: progress_def Let_def a b c pc pa del: poll_all.simps) blast
qed

lemma demo_completed:
  fixes c w
  defines "e \<equiv> handle_completion demo_env (local_event demo_op) (demo_flight\<lparr>e_closed := c, e_world := w\<rparr>)"
  shows "\<exists>r. e_reqs e 1 = Some r \<and> rq_state r = RS_kSucceeded" "e_inflight e = []" "e_notify_pending e = []"
    "e_peer_objs e = [1 \<mapsto> demo_peer]"
proof -
  have ev: "ce_request (local_event demo_op) = 1" "ce_status (local_event demo_op) = kOk"
    by (simp_all add: local_event_def demo_op_def)
  have "on_subop_complete (local_event demo_op) demo_sent = (True, demo_sent\<lparr>rq_completed := 1\<rparr>)"
    using demo_request_fields by (simp add: on_subop_complete_def demo_sent_def local_event_def terminal_def is_terminal_def Let_def)
  with ev have e: "e = end_completed demo_env 1 (demo_sent\<lparr>rq_completed := 1\<rparr>) (snd (claim 1
      (upd_req 1 (\<lambda>_. demo_sent\<lparr>rq_completed := 1\<rparr>) (demo_flight\<lparr>e_closed := c, e_world := w\<rparr>))))"
    by (simp add: e_def handle_completion_def demo_flight_fields claim_def Let_def)
  show "\<exists>r. e_reqs e 1 = Some r \<and> rq_state r = RS_kSucceeded"
    unfolding e using demo_request_fields demo_targets
    by (simp add: demo_flight_fields claim_def end_completed_def Let_def count_succeeded_def mark_stage_def finish_success_def)
      (simp add: demo_sent_def terminal_def is_terminal_def)
  show "e_inflight e = []" "e_notify_pending e = []" "e_peer_objs e = [1 \<mapsto> demo_peer]"
    unfolding e using demo_targets
    by (simp_all add: demo_flight_fields claim_def end_completed_def Let_def count_succeeded_def count_failed_def
        count_cancelled_def)
qed

lemma demo_ended: "\<exists>r. e_reqs (snd (progress demo_env demo_flight)) 1 = Some r \<and> rq_state r = RS_kSucceeded"
  using demo_progress [of "e_closed demo_flight"] demo_completed(1) [of _ "e_closed demo_flight"] by auto

section \<open>Reaching these states\<close>

abbreviation demo_reach :: "local_world engine \<Rightarrow> bool" where
  "demo_reach \<equiv> engine_reachable demo_env demo_inv (local_outstanding (Suc 0))"

lemma demo_reach_ready: "demo_reach demo_ready"
proof -
  have "e_next_region demo_start + 1 \<noteq> 0" by (simp add: demo_start_def new_engine_def)
  from er_step [OF demo_reachable es_register [OF this, of _ _ _ "0x1000" "0x100" 15]]
  have r: "demo_reach demo_registered" by (simp add: demo_registered_step)
  have "e_next_peer demo_registered + 1 \<noteq> 0" by (simp add: demo_registered_def demo_start_def new_engine_def)
  from er_step [OF r es_add_peer [OF this, of _ _ _ near_meta]] have "demo_reach demo_added" by (simp add: demo_added_step)
  from er_step [OF this es_import [of _ _ _ _ 1 "encode_descriptor demo_remote"]] show ?thesis by (simp add: demo_ready_import)
qed


lemma demo_flight_step:
  "snd (submit_vector demo_env (Some 1) [demo_view] [demo_view] demo_options kWrite demo_ready) = demo_flight"
  using demo_submit demo_posted by (simp add: demo_flight_def del: post_parts.simps)

lemma demo_reach_flight: "demo_reach demo_flight"
proof -
  have "submit_fits demo_env (Some 1) [demo_view] [demo_view] kWrite demo_ready"
    using demo_build by (simp add: submit_fits_def demo_ready_fields)
  from er_step [OF demo_reach_ready es_submit [OF this, of _ _ demo_options]] show ?thesis by (simp add: demo_flight_step)
qed

definition demo_done :: "local_world engine" where
  "demo_done = snd (progress demo_env demo_flight)"

lemma demo_reach_done: "demo_reach demo_done"
  unfolding demo_done_def by (rule er_step [OF demo_reach_flight es_progress])

end
