(* ===== verification/Hux_Guarantees.thy ===== *)
theory Hux_Guarantees
  imports Hux_Demo
begin

text \<open>
  What an application can rely on in every state the engine can reach, over any transports that
  keep the contract of \<open>Hux_Provider\<close>; the in-process transport is shown to.
\<close>

section \<open>What is left of a request\<close>

lemma due_zero: "due M i = 0 \<longleftrightarrow> (\<forall>k\<in>#M. fst k \<noteq> i)"
  by (auto simp: due_def filter_mset_eq_conv)

lemma parts_of_empty: "parts_of W i = {#} \<longleftrightarrow> (\<forall>p\<in>#W. ps_req p \<noteq> i)"
  by (auto simp: parts_of_def filter_mset_eq_conv)

lemma reachable_slot:
  assumes "engine_transports env winv outs" "engine_reachable env winv outs e"
  shows "slot_ok (outs (e_world e)) (mset (e_pending e)) e i"
  using engine_transports.reachable_sound [OF assms]
  by (simp add: sound_state_def engine_inv_def core_inv_def)

lemma reachable_regs:
  assumes "engine_transports env winv outs" "engine_reachable env winv outs e"
  shows "regs_inv (length (env_providers env)) {} e"
  using engine_transports.reachable_sound [OF assms] by (simp add: sound_state_def)

lemma live_ok_left:
  assumes "live_ok r P k"
  shows "P \<noteq> {#} \<or> k \<noteq> 0"
  using assms by (auto simp: live_ok_def split: if_splits)

text \<open>
  (C2) No transfer outlives its request. In every state the engine can reach, once a request has
  ended, it is not in flight and no transport has a sub-operation of it left, so that its memory
  can be reused; the one exception is a request that failed because its peer is gone, which is
  reported as such.
\<close>

theorem ended_request_is_quiet:
  assumes "engine_transports env winv outs" "engine_reachable env winv outs e"
    and "e_reqs e i = Some r" "terminal r"
    and "rq_state r = RS_kFailed \<Longrightarrow> \<exists>p. e_peer_objs e (rq_peer r) = Some p \<and> pr_connected p"
  shows "i \<notin> set (e_inflight e) \<and> (\<forall>k\<in>#outs (e_world e). fst k \<noteq> i)"
  using reachable_slot [OF assms(1,2), of i] assms(3-5)
  by (auto simp: slot_ok_def live_ok_def stranded_def due_zero [symmetric] split: if_splits)

theorem ended_request_is_quiet_witness:
  "e_reqs demo_done 1 \<noteq> None \<and> 1 \<notin> set (e_inflight demo_done) \<and>
   1 \<notin># image_mset fst (local_outstanding (Suc 0) (e_world demo_done))"
proof -
  obtain r where r: "e_reqs demo_done 1 = Some r" "rq_state r = RS_kSucceeded"
    using demo_ended by (auto simp: demo_done_def)
  have "terminal r" by (simp add: terminal_def is_terminal_def r)
  from ended_request_is_quiet [OF demo_transports demo_reach_done r(1) this] r show ?thesis by auto
qed

text \<open>
  (C3) No request is forgotten. In every state the engine can reach, a request in flight has not
  ended, and something is left that will end it: a part still to be posted, or a sub-operation a
  transport has accepted and not reported.
\<close>

theorem inflight_request_is_served:
  assumes "engine_transports env winv outs" "engine_reachable env winv outs e" "i \<in> set (e_inflight e)"
  shows "\<exists>r. e_reqs e i = Some r \<and> \<not> terminal r \<and>
    ((\<exists>p\<in>set (e_pending e). ps_req p = i) \<or> (\<exists>k\<in>#outs (e_world e). fst k = i))"
proof -
  obtain r where r: "e_reqs e i = Some r"
    and l: "live_ok r (parts_of (mset (e_pending e)) i) (due (outs (e_world e)) i)"
    using reachable_slot [OF assms(1,2), of i] assms(3) by (auto simp: slot_ok_def split: option.splits)
  from live_ok_left [OF l] have "(\<exists>p\<in>set (e_pending e). ps_req p = i) \<or> (\<exists>k\<in>#outs (e_world e). fst k = i)"
    by (auto simp: parts_of_empty due_zero)
  with r l show ?thesis by (auto simp: live_ok_def)
qed

theorem inflight_request_is_served_witness:
  "e_pending demo_flight = [] \<and> (\<exists>k\<in>#local_outstanding (Suc 0) (e_world demo_flight). fst k = 1)"
  using inflight_request_is_served [OF demo_transports demo_reach_flight, of 1] by (simp add: demo_flight_fields)

text \<open>
  (C13) The counters add up. In every state the engine can reach, the requests accepted are those
  that succeeded, failed or were cancelled, each counted once, and those in flight, and none is in
  flight twice.
\<close>

theorem requests_accounted:
  assumes "engine_transports env winv outs" "engine_reachable env winv outs e"
  shows "requests_accepted (e_stats e) = requests_succeeded (e_stats e) + requests_failed (e_stats e) +
     requests_cancelled (e_stats e) + word_of_nat (length (e_inflight e)) \<and> distinct (e_inflight e)"
  using engine_transports.reachable_sound [OF assms]
  by (simp add: sound_state_def engine_inv_def core_inv_def stats_ok_def ended_def ids_ok_def)

theorem requests_accounted_witness:
  "requests_accepted (e_stats demo_flight) = requests_succeeded (e_stats demo_flight) +
     requests_failed (e_stats demo_flight) + requests_cancelled (e_stats demo_flight) + 1"
  using requests_accounted [OF demo_transports demo_reach_flight] by (simp add: demo_flight_fields)

text \<open>
  (C35) What the engine keeps for an application that does not poll is bounded: in every state it
  can reach, its completion, arrival and notification queues are within the configured depths. The
  requests in flight are not among them: their limit is looked at before a request is built and not
  when it is entered, so submissions of several threads can pass it together.
\<close>

theorem queues_bounded:
  assumes "engine_transports env winv outs" "engine_reachable env winv outs e"
  shows "length (e_completed e) \<le> unat (completion_queue_depth (env_cfg env)) \<and>
     length (e_ready_events e) \<le> unat (ready_queue_depth (env_cfg env)) \<and>
     length (e_notifications e) \<le> unat (notify_queue_depth (env_cfg env))"
  using engine_transports.reachable_sound [OF assms] by (simp add: sound_state_def queues_ok_def)

theorem queues_bounded_witness:
  "length (e_completed demo_done) \<le> unat (completion_queue_depth (env_cfg demo_env))"
  using queues_bounded [OF demo_transports demo_reach_done] by simp

section \<open>Memory under a transfer\<close>

text \<open>
  (C4) The memory of a transfer stays registered while it runs. In every state the engine can
  reach, each local region a request in flight uses is there, and its registration has not been
  released, whatever was deregistered or evicted in the meantime.
\<close>

theorem transfer_memory_registered:
  assumes "engine_transports env winv outs" "engine_reachable env winv outs e"
    and "i \<in> set (e_inflight e)" "e_reqs e i = Some r" "g \<in> set (rq_held_regions r)"
  shows "\<exists>m. e_region_objs e g = Some m \<and> rg_id (mr_reg m) \<notin> set (e_released e)"
proof -
  note v = regs_invD [OF reachable_regs [OF assms(1,2)]]
  from v(9) assms(3-5) have g: "g \<in> set (e_alive e)" by (auto simp: held_alive_iff)
  with v(8) obtain m where m: "e_region_objs e g = Some m" by blast
  with g have "built_on e (rg_id (mr_reg m))" by (auto simp: built_on_def intro!: bexI [of _ g])
  with m v(5) show ?thesis by (auto simp: owned_def)
qed

theorem transfer_memory_registered_witness:
  "\<exists>m. e_region_objs demo_flight 1 = Some m \<and> rg_id (mr_reg m) \<notin> set (e_released demo_flight)"
proof -
  have "1 \<in> set (rq_held_regions demo_sent)"
    by (simp add: demo_sent_def demo_request_def admit_request_def Let_def demo_options_def set_target_def
        new_request_def set_parts_def)
  from transfer_memory_registered [OF demo_transports demo_reach_flight _ _ this, of 1] show ?thesis
    by (simp add: demo_flight_fields)
qed

text \<open>
  (C12) A registration is released exactly when it is needed no more, and once: in every state the
  engine can reach, the registrations released are those that were made and that neither the cache
  nor a region object someone holds refers to, and no registration has been released twice.
\<close>

theorem registration_released_exactly:
  assumes "engine_transports env winv outs" "engine_reachable env winv outs e"
  shows "distinct (e_released e) \<and>
    (\<forall>x. x \<in> set (e_released e) \<longleftrightarrow> x < e_next_reg e \<and> x \<notin> rg_id ` set (e_reg_cache e) \<and>
       \<not> (\<exists>i\<in>set (e_alive e). \<exists>m. e_region_objs e i = Some m \<and> rg_id (mr_reg m) = x))"
proof -
  note v = regs_invD [OF reachable_regs [OF assms]]
  have "built_on e x \<longleftrightarrow> (\<exists>i\<in>set (e_alive e). \<exists>m. e_region_objs e i = Some m \<and> rg_id (mr_reg m) = x)" for x
    by (auto simp: built_on_def split: option.splits)
  with v(4,5) show ?thesis by (auto simp: owned_def)
qed

theorem registration_released_exactly_witness:
  "distinct (e_released demo_flight) \<and> 0 \<notin> set (e_released demo_flight)"
  using registration_released_exactly [OF demo_transports demo_reach_flight]
  by (auto simp: demo_flight_def demo_entered_def count_accepted_def demo_defs upd_stats_def)

end
