(* ===== verification/Hux_Ledger.thy ===== *)
theory Hux_Ledger
  imports Hux_Guarantees
begin

text \<open>
  What the engine promises about requests and regions over time, as an abstract machine that
  knows of no transport, queue or registration: a ledger in which a request is opened once and
  ended once. The engine refines it step by step. The same view of a step shows that a region
  that was deregistered is never used again.
\<close>

section \<open>The ledger\<close>

datatype life = Running | Over request_state error_info

type_synonym ledger = "request_id \<rightharpoonup> life"

inductive ledger_step :: "ledger \<Rightarrow> ledger \<Rightarrow> bool" where
  opens: "l i = None \<Longrightarrow> ledger_step l (l(i \<mapsto> Running))"
| ends: "l i = Some Running \<Longrightarrow> is_terminal s \<Longrightarrow> ledger_step l (l(i \<mapsto> Over s err))"

definition life_of :: "request \<Rightarrow> life" where
  "life_of r = (if terminal r then Over (rq_state r) (rq_error r) else Running)"

definition ledger_of :: "'w engine \<Rightarrow> ledger" where
  "ledger_of e = map_option life_of \<circ> e_reqs e"

text \<open>Several entries that moved on are several steps.\<close>

definition lives_on :: "life option \<Rightarrow> life option \<Rightarrow> bool" where
  "lives_on a b \<longleftrightarrow> a = b \<or> a = Some Running \<and> (\<exists>s err. b = Some (Over s err) \<and> is_terminal s)"

lemma ledger_steps_lives:
  assumes "\<forall>i. lives_on (l i) (l' i)"
  shows "ledger_step\<^sup>*\<^sup>* l l'"
proof -
  have "ledger_step\<^sup>*\<^sup>* l (\<lambda>i. if i \<in> S then l' i else l i)" if "finite S" for S
    using that
  proof induction
    case (insert x S)
    let ?m = "\<lambda>i. if i \<in> S then l' i else l i"
    have m: "?m x = l x" using insert.hyps by simp
    have eq: "(\<lambda>i. if i \<in> insert x S then l' i else l i) = ?m(x := l' x)" by auto
    have "l' x = ?m x \<or> ledger_step ?m (?m(x := l' x))"
      using assms m ends [of ?m x] by (auto simp: lives_on_def dest!: spec [of _ x])
    then have "ledger_step\<^sup>*\<^sup>* ?m (?m(x := l' x))"
    proof
      assume "l' x = ?m x"
      then have "?m(x := l' x) = ?m" using insert.hyps(2) by (auto simp: fun_eq_iff)
      then show ?thesis by simp
    qed (rule r_into_rtranclp)
    with insert.IH show ?case unfolding eq by (rule rtranclp_trans)
  qed simp
  from this [of UNIV] show ?thesis by simp
qed

lemma quiet_lives:
  assumes "quiet env e e'"
  shows "ledger_step\<^sup>*\<^sup>* (ledger_of e) (ledger_of e')"
proof (rule ledger_steps_lives, rule allI)
  fix i
  have "rel_option req_steps (e_reqs e i) (e_reqs e' i)" using assms by (simp add: quiet_def)
  then show "lives_on (ledger_of e i) (ledger_of e' i)"
    by cases (auto simp: lives_on_def ledger_of_def life_of_def terminal_def dest: req_steps_terminal)
qed

section \<open>How the registry grows\<close>

text \<open>No method brings a region back: what it adds has an id that was not handed out before.\<close>

definition grows :: "'w engine \<Rightarrow> 'w engine \<Rightarrow> bool" where
  "grows e e' \<longleftrightarrow> e_next_region e \<le> e_next_region e' \<and>
     (\<forall>g\<in>set (e_regions e'). g \<in> set (e_regions e) \<or> e_next_region e \<le> g)"

lemma grows_trans: "grows a b \<Longrightarrow> grows b c \<Longrightarrow> grows a c"
  unfolding grows_def by (meson order_trans)

lemma regview_grows: "regview e' = regview e \<Longrightarrow> grows e e'"
  by (simp add: grows_def regview_def)

lemma new_registration_grows:
  assumes "new_registration env a len dev acc e = (x, e')"
  shows "e_regions e' = e_regions e"
proof -
  obtain keys held fe e1 where l: "register_loop env a len dev acc [0 ..< length (env_providers env)] ([], [], kOk) e =
     ((keys, held, fe), e1)" by (metis prod.collapse)
  have "e_regions (fold (release_registration env) rs y) = e_regions y" for rs y
    using release_all_fields(1) [of env rs y] by (simp add: regview_def)
  moreover from register_loop_fields [OF l] have "e_regions e1 = e_regions e" by (simp add: regview_def)
  ultimately show ?thesis
    using assms l by (auto simp: new_registration_def Let_def cache_registration_def split: if_splits prod.splits)
qed

lemma register_memory_grows:
  assumes "e_next_region e + 1 \<noteq> 0"
  shows "grows e (snd (register_memory env a len acc e))"
proof -
  have next_le: "e_next_region e \<le> e_next_region e + 1" using word_less_suc [OF assms, of "e_next_region e"] by simp
  show ?thesis
  proof (cases rule: register_memory_cases [of env a len acc e])
    case none
    then show ?thesis by (simp add: grows_def)
  next
    case (hit reg f dev mem)
    then show ?thesis using next_le by (auto simp: grows_def add_region_def Let_def upd_stats_def)
  next
    case (fresh x e1 f dev mem)
    with new_registration_next [OF fresh(1)] new_registration_grows [OF fresh(1)] next_le show ?thesis
      by (cases x) (auto simp: grows_def add_region_def Let_def upd_stats_def)
  qed
qed

lemma register_each_grows:
  "unat (e_next_region e) + length xs < 2 ^ 64 \<Longrightarrow> grows e (snd (register_each env acc xs e))"
proof (induction xs arbitrary: e)
  case Nil
  then show ?case by (simp add: grows_def)
next
  case (Cons x xs)
  obtain a len where x: "x = (a, len)" by fastforce
  let ?e = "snd (register_memory env a len acc e)"
  have u: "unat (e_next_region e + 1) = Suc (unat (e_next_region e))" using Cons.prems by (simp add: unat_word_ariths)
  then have nz: "e_next_region e + 1 \<noteq> 0" by (metis nat.distinct(1) unat_0)
  have "unat (e_next_region ?e) + length xs < 2 ^ 64"
    using register_memory_next [of env a len acc e] Cons.prems u by auto
  from grows_trans [OF register_memory_grows [OF nz] Cons.IH [OF this]] x show ?case by (simp add: split_beta)
qed

lemma registry_grows:
  "grows e (snd (deregister_memory env region e))" "grows e (snd (release_cached_registrations env e))"
  "grows e (drop_region env g e)"
proof -
  have f: "e_regions (fold (release_registration env) rs y) = e_regions y"
    "e_next_region (fold (release_registration env) rs y) = e_next_region y" for rs y
    using release_all_fields(1) [of env rs y] by (simp_all add: regview_def)
  have r: "e_regions (release_registration env x y) = e_regions y"
    "e_next_region (release_registration env x y) = e_next_region y" for x y
    using f [of "[x]" y] by simp_all
  have a: "e_regions (announce_invalid env m y) = e_regions y"
    "e_next_region (announce_invalid env m y) = e_next_region y" for m y
    using announce_invalid_fields [of env m y] by (simp_all add: regview_def)
  show "grows e (snd (deregister_memory env region e))" "grows e (snd (release_cached_registrations env e))"
    "grows e (drop_region env g e)"
    by (auto simp: grows_def deregister_memory_def release_cached_registrations_def drop_region_def Let_def f r a
        split: option.split)
qed

section \<open>A step of the engine\<close>

text \<open>
  Every method either moves what is there, or opens one request under a fresh id and then moves,
  or works on the registry alone.
\<close>

lemma step_shape:
  assumes "engine_step env winv outs e e'"
  obtains (moves) "quiet env e e'"
  | (admits) r where "quiet env (enter r e) e'" "\<not> terminal r"
      "\<forall>g\<in>set (rq_held_regions r). \<exists>m. find_region g e = Some m \<and> \<not> mr_retired m"
  | (announces) b r where "quiet env b e'" "regview b = regview e" "e_inflight b = e_inflight e"
      "e_reqs b = (e_reqs e)(e_next_request e \<mapsto> r)" "\<not> terminal r"
  | (registry) "front e' = front e" "grows e e'"
proof -
  show thesis
    using assms
  proof cases
    case (es_submit peer local remote kind opts)
    show thesis
    proof (cases rule: submit_vector_splits [of env e peer local remote opts kind])
      case checked
      then show thesis using es_submit by (simp add: moves)
    next
      case (passed p)
      show thesis
      proof (cases rule: submit_admitted_shape [of env e p local remote opts kind])
        case plain
        then show thesis using es_submit passed(2) by (simp add: moves)
      next
        case (admits r)
        with es_submit passed(2) that(2) [of r] show thesis by simp
      qed
    qed
  next
    case (es_admit q local remote kind p opts)
    show thesis
    proof (cases rule: submit_admitted_shape [of env e p local remote opts kind])
      case plain
      then show thesis using es_admit by (simp add: moves)
    next
      case (admits r)
      with es_admit that(2) [of r] show thesis by simp
    qed
  next
    case (es_notify peer payload)
    let ?r = "\<lambda>k. (set_state RS_kWaitNotifyAck (new_request (e_next_request e) kWrite 0 0))\<lparr>rq_peer := k\<rparr>"
    have r: "\<not> terminal (?r k)" for k by (simp add: terminal_def set_state_def new_request_def is_terminal_def)
    from notify_shape [of env e peer payload] show thesis
    proof (elim disjE exE)
      assume "quiet env e (snd (snd (notify env peer payload e)))"
      then show thesis using es_notify by (simp add: moves)
    next
      fix k x
      assume q: "quiet env (e\<lparr>e_next_notify := e_next_notify e + 1, e_next_request := e_next_request e + 1,
        e_reqs := (e_reqs e)(e_next_request e \<mapsto> ?r k), e_notify_pending := e_notify_pending e @ [x]\<rparr>)
        (snd (snd (notify env peer payload e)))" (is "quiet env ?b _")
      show thesis by (rule announces [of ?b "?r k"]) (use q es_notify r in \<open>simp_all add: regview_def\<close>)
    qed
  next
    case (es_register a len acc)
    then show thesis by (simp add: registry register_memory_grows)
  next
    case (es_register_batch addrs lens acc)
    have "grows e e'"
      using es_register_batch register_each_grows [of e "zip addrs lens" env acc]
      by (auto simp: register_memory_batch_def split_beta grows_def)
    with es_register_batch show thesis by (simp add: registry)
  next
    case (es_import q d)
    then show thesis by (simp add: moves quietly)
  next
    case (es_import_batch q ds)
    then show thesis by (simp add: moves quiet_import_region_batch quiet_refl)
  next
    case es_progress
    then show thesis by (simp add: moves quietly)
  next
    case (es_world w)
    then show thesis by (simp add: moves quietly)
  qed (simp_all add: registry registry_grows moves quiet_cancel_request quiet_add_peer quiet_remove_peer quiet_polls quiet_record_event quiet_close)
qed

lemma ledger_open:
  assumes "sound_state env winv outs e" "\<not> terminal r" "e_reqs b = (e_reqs e)(e_next_request e \<mapsto> r)"
  shows "ledger_step (ledger_of e) (ledger_of b)"
proof -
  have "e_reqs e (e_next_request e) = None"
    using assms(1) by (cases "e_reqs e (e_next_request e)")
      (auto simp: sound_state_def engine_inv_def core_inv_def ids_ok_def)
  then have "ledger_of e (e_next_request e) = None" by (simp add: ledger_of_def)
  from opens [of "ledger_of e", OF this] show ?thesis
    using assms(2,3) by (simp add: ledger_of_def life_of_def fun_upd_comp o_def fun_upd_def if_distrib cong: if_cong)
qed

text \<open>
  (C1) The engine refines the ledger. Whatever method runs in a state it can reach, what happens to
  the requests is a sequence of openings under ids never used before and of endings of requests
  that were running: no request is lost, ends twice, or changes its outcome after it ended.
\<close>

theorem engine_refines_ledger:
  assumes "engine_transports env winv outs" "engine_reachable env winv outs e" "engine_step env winv outs e e'"
  shows "ledger_step\<^sup>*\<^sup>* (ledger_of e) (ledger_of e')"
  using assms(3)
proof (cases rule: step_shape)
  case moves
  then show ?thesis by (rule quiet_lives)
next
  case (admits r)
  have "ledger_step (ledger_of e) (ledger_of (enter r e))"
    by (rule ledger_open [OF engine_transports.reachable_sound [OF assms(1,2)] admits(2)]) (simp add: enter_def)
  with quiet_lives [OF admits(1)] show ?thesis by (metis converse_rtranclp_into_rtranclp)
next
  case (announces b r)
  have "ledger_step (ledger_of e) (ledger_of b)"
    by (rule ledger_open [OF engine_transports.reachable_sound [OF assms(1,2)] announces(5,4)])
  with quiet_lives [OF announces(1)] show ?thesis by (metis converse_rtranclp_into_rtranclp)
next
  case registry
  then show ?thesis by (simp add: ledger_of_def front_def)
qed

theorem engine_refines_ledger_witness:
  "ledger_of demo_flight 1 = Some Running \<and> ledger_step\<^sup>*\<^sup>* (ledger_of demo_flight) (ledger_of demo_done)"
proof -
  have "engine_step demo_env demo_inv (local_outstanding (Suc 0)) demo_flight demo_done"
    unfolding demo_done_def by (rule es_progress)
  from engine_refines_ledger [OF demo_transports demo_reach_flight this] show ?thesis
    using demo_request_fields
    by (simp add: ledger_of_def demo_flight_fields life_of_def demo_sent_def terminal_def is_terminal_def)
qed

section \<open>A region that is gone stays gone\<close>

definition retired_for_good :: "region_id \<Rightarrow> 'w engine \<Rightarrow> bool" where
  "retired_for_good g e \<longleftrightarrow> g < e_next_region e \<and> g \<notin> set (e_regions e) \<and> \<not> region_busy e g"

lemma busy_objs: "region_busy (e\<lparr>e_region_objs := f\<rparr>) g = region_busy e g"
  by (simp add: region_busy_def)

lemma busy_quiet:
  assumes "quiet env e e'" "\<not> region_busy e g"
  shows "\<not> region_busy e' g"
proof
  assume "region_busy e' g"
  then obtain q r' where q: "q \<in> set (e_inflight e')" "e_reqs e' q = Some r'" "g \<in> set (rq_held_regions r')"
    by (auto simp: region_busy_def split: option.splits)
  have "rel_option req_steps (e_reqs e q) (e_reqs e' q)" "q \<in> set (e_inflight e)"
    using assms(1) q(1) by (auto simp: quiet_def)
  with q(2,3) obtain r where "e_reqs e q = Some r" "g \<in> set (rq_held_regions r)" "q \<in> set (e_inflight e)"
    by (cases "e_reqs e q") (auto dest: req_steps_held)
  with assms(2) show False by (auto simp: region_busy_def)
qed

lemma retired_quiet:
  assumes "quiet env b e'" "retired_for_good g b"
  shows "retired_for_good g e'"
  using assms busy_quiet [OF assms(1)] by (simp add: retired_for_good_def quiet_def regview_def)

lemma retired_step:
  assumes "sound_state env winv outs e" "engine_step env winv outs e e'" "retired_for_good g e"
  shows "retired_for_good g e'"
  using assms(2)
proof (cases rule: step_shape)
  case moves
  then show ?thesis using assms(3) by (rule retired_quiet)
next
  case (admits r)
  have f: "\<forall>q\<in>set (e_inflight e). q \<noteq> e_next_request e"
    using assms(1) fresh_request unfolding sound_state_def by blast
  have "g \<notin> set (rq_held_regions r)" using admits(3) assms(3) by (auto simp: retired_for_good_def find_region_def)
  then have "retired_for_good g (enter r e)"
    using assms(3) f by (auto simp: retired_for_good_def enter_def region_busy_def)
  with admits(1) show ?thesis by (rule retired_quiet)
next
  case (announces b r)
  have f: "\<forall>q\<in>set (e_inflight e). q \<noteq> e_next_request e"
    using assms(1) fresh_request unfolding sound_state_def by blast
  have "retired_for_good g b"
    using assms(3) f announces(2-4) by (auto simp: retired_for_good_def region_busy_def regview_def)
  with announces(1) show ?thesis by (rule retired_quiet)
next
  case registry
  have "region_busy e' g = region_busy e g" using registry(1) by (simp add: region_busy_def front_def)
  with registry(2) assms(3) show ?thesis by (auto simp: retired_for_good_def grows_def)
qed

text \<open>
  (C5) Once the engine has said that a region is deregistered, no transfer uses it, then or at any
  later time, whatever the application does next; while one still does, it says so instead.
\<close>

theorem deregistered_region_unused:
  assumes "engine_transports env winv outs" "engine_reachable env winv outs e"
    and "deregister_memory env (Some g) e = (kOk, e')" "(engine_step env winv outs)\<^sup>*\<^sup>* e' e''"
  shows "\<not> region_busy e'' g"
proof -
  have "engine_step env winv outs e e'" using es_deregister [of env winv outs e "Some g"] assms(3) by simp
  from engine_transports.sound_step [OF assms(1) this engine_transports.reachable_sound [OF assms(1,2)]]
  have s: "sound_state env winv outs e'" .
  obtain m where m: "e_region_objs e g = Some m"
    "e' = announce_invalid env m (e\<lparr>e_region_objs := (e_region_objs e)(g \<mapsto> retire m), e_regions := removeAll g (e_regions e)\<rparr>)"
    "\<not> region_busy e g"
    using assms(3) by (auto simp: deregister_memory_def Let_def busy_objs split: option.splits if_splits)
  have "g < e_next_region e" using regs_invD(2) [OF reachable_regs [OF assms(1,2)]] m(1) by blast
  with m(3) have "retired_for_good g e'"
    using announce_invalid_fields [of env m "e\<lparr>e_region_objs := (e_region_objs e)(g \<mapsto> retire m),
      e_regions := removeAll g (e_regions e)\<rparr>"]
    by (simp add: m(2) retired_for_good_def regview_def region_busy_def)
  from assms(4) have "sound_state env winv outs e'' \<and> retired_for_good g e''"
    by induction (use s \<open>retired_for_good g e'\<close> engine_transports.sound_step [OF assms(1)] retired_step in blast)+
  then show ?thesis by (simp add: retired_for_good_def)
qed

theorem deregistered_region_unused_witness:
  "fst (deregister_memory demo_env (Some 1) demo_ready) = kOk \<and>
   \<not> region_busy (snd (progress demo_env (snd (deregister_memory demo_env (Some 1) demo_ready)))) 1"
proof -
  obtain s e' where d: "deregister_memory demo_env (Some 1) demo_ready = (s, e')" by fastforce
  moreover have "s = kOk" using d by (simp add: deregister_memory_def demo_ready_fields region_busy_def Let_def)
  moreover have "(engine_step demo_env demo_inv (local_outstanding (Suc 0)))\<^sup>*\<^sup>* e' (snd (progress demo_env e'))"
    by (rule r_into_rtranclp) (rule es_progress)
  ultimately show ?thesis
    using deregistered_region_unused [OF demo_transports demo_reach_ready, of 1 e'] by simp
qed

end
