(* ===== verification/Hux_Closing.thy ===== *)
theory Hux_Closing
  imports Hux_Guarantees
begin

text \<open>
  More of what the engine promises: \<open>close\<close> leaves nothing behind, a transfer takes no more than its
  turn of a transport, and the cache of registrations gives up the oldest it can.
\<close>

section \<open>Closing\<close>

lemma close_loop_drained: "close_loop env n e = (True, e') \<Longrightarrow> e_inflight e' = []"
  by (induction n arbitrary: e) (auto split: if_splits)

text \<open>
  (C16) When \<open>close\<close> reports success, nothing is in flight any more. What a transport may still have
  of this engine belongs to requests that were failed because their peer went away, so if no peer
  did, no transport has a single sub-operation left.
\<close>

theorem close_leaves_nothing:
  assumes "engine_transports env winv outs" "engine_reachable env winv outs e" "close env turns e = (kOk, e')"
  shows "e_inflight e' = [] \<and>
    (\<forall>k. k \<in># outs (e_world e') \<longrightarrow> (\<exists>r p. e_reqs e' (fst k) = Some r \<and> rq_state r = RS_kFailed \<and>
       e_peer_objs e' (rq_peer r) = Some p \<and> \<not> pr_connected p)) \<and>
    ((\<forall>i p. e_peer_objs e' i = Some p \<longrightarrow> pr_connected p) \<longrightarrow> outs (e_world e') = {#})"
proof -
  have "engine_reachable env winv outs e'"
    using er_step [OF assms(2) es_close [of env winv outs e turns]] assms(3) by simp
  note slot = reachable_slot [OF assms(1) this]
  obtain e1 where e1: "close_loop env turns (e\<lparr>e_closed := True\<rparr>) = (True, e1)" "e' = end_notifications env 0 False no_error e1"
    using assms(3) by (auto simp: close_def split: prod.splits if_splits)
  moreover have "quiet env e1 (end_notifications env 0 False no_error e1)" by (simp add: quietly)
  ultimately have l: "e_inflight e' = []" using close_loop_drained [OF e1(1)] by (simp add: quiet_def)
  have st: "\<exists>r. e_reqs e' (fst k) = Some r \<and> stranded (e_peer_objs e') r" if "k \<in># outs (e_world e')" for k
  proof -
    have "due (outs (e_world e')) (fst k) \<noteq> 0" using that by (auto simp: due_zero)
    with slot [of "fst k"] l show ?thesis by (auto simp: slot_ok_def split: option.splits)
  qed
  then have "\<forall>k. k \<in># outs (e_world e') \<longrightarrow> (\<exists>r p. e_reqs e' (fst k) = Some r \<and> rq_state r = RS_kFailed \<and>
       e_peer_objs e' (rq_peer r) = Some p \<and> \<not> pr_connected p)"
    unfolding stranded_def by blast
  then show ?thesis using l multiset_nonemptyE [of "outs (e_world e')"] by blast
qed

text \<open>One turn is enough for the request of the example: \<open>close\<close> waits for it.\<close>

lemma demo_closes:
  "\<exists>e'. close demo_env 1 demo_flight = (kOk, e') \<and> e_peer_objs e' = [1 \<mapsto> demo_peer]"
proof -
  obtain w where p: "snd (progress demo_env (demo_flight\<lparr>e_closed := True\<rparr>)) =
      handle_completion demo_env (local_event demo_op) (demo_flight\<lparr>e_closed := True, e_world := w\<rparr>)" (is "_ = ?e")
    using demo_progress [of True] by blast
  note d = demo_completed [of w True]
  have "end_notifications demo_env 0 False no_error ?e = ?e" using d(3) by (simp add: end_notifications_def Let_def)
  with p d show ?thesis by (simp add: close_def demo_flight_fields)
qed

theorem close_leaves_nothing_witness:
  "e_inflight demo_flight = [1] \<and> (\<exists>e'. close demo_env 1 demo_flight = (kOk, e') \<and> e_inflight e' = [] \<and>
     local_outstanding (Suc 0) (e_world e') = {#})"
proof -
  obtain e' where c: "close demo_env 1 demo_flight = (kOk, e')" and p: "e_peer_objs e' = [1 \<mapsto> demo_peer]"
    using demo_closes by blast
  have "\<forall>i p. e_peer_objs e' i = Some p \<longrightarrow> pr_connected p" by (simp add: p demo_peer_def)
  with close_leaves_nothing [OF demo_transports demo_reach_flight c] c show ?thesis
    by (simp add: demo_flight_fields)
qed

section \<open>A turn\<close>

definition op_bytes :: "subop list \<Rightarrow> nat" where
  "op_bytes ops = sum_list (map (\<lambda>op. unat (so_length op)) ops)"

lemma quantum_turn:
  "unat b + op_bytes ops < 2 ^ 64 \<Longrightarrow> \<exists>k\<le>length ops. quantum m ops t b = t + k \<and>
     (0 < k \<longrightarrow> 2 \<le> t + k \<longrightarrow> unat b + op_bytes (take k ops) \<le> unat m) \<and> (t = 0 \<longrightarrow> ops \<noteq> [] \<longrightarrow> 0 < k) \<and>
     (k < length ops \<longrightarrow> unat m < unat b + op_bytes (take (Suc k) ops))"
proof (induction m ops t b rule: quantum.induct)
  case (1 m t b)
  then show ?case by simp
next
  case (2 m op ops t b)
  have u: "unat (b + so_length op) = unat b + unat (so_length op)"
    using 2(2) by (simp add: op_bytes_def unat_word_ariths)
  show ?case
  proof (cases "0 < t \<and> b + so_length op > m")
    case True
    then have "unat m < unat b + unat (so_length op)" using u by (simp add: word_less_nat_alt)
    with True show ?thesis by (intro exI [of _ 0]) (simp add: op_bytes_def)
  next
    case False
    have "unat (b + so_length op) + op_bytes ops < 2 ^ 64" using 2(2) u by (simp add: op_bytes_def)
    from 2(1) [OF False this] obtain k where k: "k \<le> length ops" "quantum m ops (Suc t) (b + so_length op) = Suc t + k"
      "0 < k \<longrightarrow> unat (b + so_length op) + op_bytes (take k ops) \<le> unat m"
      "k < length ops \<longrightarrow> unat m < unat (b + so_length op) + op_bytes (take (Suc k) ops)" by auto
    have "unat b + op_bytes (take (Suc k) (op # ops)) \<le> unat m" if "2 \<le> t + Suc k"
    proof (cases "0 < k")
      case True
      with k(3) u show ?thesis by (simp add: op_bytes_def)
    next
      case z: False
      with that False u show ?thesis by (simp add: op_bytes_def word_less_nat_alt)
    qed
    with k u False show ?thesis by (intro exI [of _ "Suc k"]) (auto simp: op_bytes_def)
  qed
qed

text \<open>
  One part of a transfer never takes more than its turn: it posts at least one sub-operation,
  so that it gets on, more than one only if together they are within the quantum, and it stops
  only where the next one would exceed it.
\<close>

theorem quantum_fair:
  assumes "ops \<noteq> []" "op_bytes ops < 2 ^ 64"
  shows "1 \<le> quantum m ops 0 0 \<and> quantum m ops 0 0 \<le> length ops \<and>
    (quantum m ops 0 0 = 1 \<or> op_bytes (take (quantum m ops 0 0) ops) \<le> unat m) \<and>
    (quantum m ops 0 0 = length ops \<or> unat m < op_bytes (take (Suc (quantum m ops 0 0)) ops))"
proof -
  obtain k where k: "k \<le> length ops" "quantum m ops 0 0 = k" "0 < k \<longrightarrow> 2 \<le> k \<longrightarrow> op_bytes (take k ops) \<le> unat m"
    "0 < k" "k < length ops \<longrightarrow> unat m < op_bytes (take (Suc k) ops)"
    using quantum_turn [of 0 ops m 0] assms by auto
  then show ?thesis by (cases "k = 1") auto
qed

theorem quantum_fair_witness: "quantum 20 [demo_op, demo_op, demo_op] 0 0 = 2 \<and> op_bytes [demo_op, demo_op] \<le> 20"
proof -
  have q: "quantum 20 [demo_op, demo_op, demo_op] 0 0 = 2" by (simp add: demo_op_def)
  have "op_bytes [demo_op, demo_op, demo_op] < 2 ^ 64" by (simp add: op_bytes_def demo_op_def)
  from quantum_fair [OF _ this, of 20, unfolded q] q show ?thesis by (simp del: quantum.simps)
qed

section \<open>The registration cache\<close>

lemma evict_parts:
  "evict used bound cache = (rest, dropped) \<Longrightarrow>
   dropped = take (length cache - bound) (filter (\<lambda>r. \<not> used r) cache) \<and> filter used rest = filter used cache"
proof (induction used bound cache arbitrary: rest dropped rule: evict.induct)
  case (1 used bound cache)
  show ?case
  proof (cases "length cache \<le> bound \<or> List.extract (\<lambda>r. \<not> used r) cache = None")
    case True
    then have "rest = cache" "dropped = []"
      using "1.prems" evict.simps [of used bound cache] by (auto split: if_splits option.splits)
    moreover from True have "take (length cache - bound) (filter (\<lambda>r. \<not> used r) cache) = []"
      by (auto simp: extract_None_iff filter_empty_conv)
    ultimately show ?thesis by simp
  next
    case False
    then obtain pre x post where x: "List.extract (\<lambda>r. \<not> used r) cache = Some (pre, x, post)" by (auto split: prod.splits)
    obtain k d where r: "evict used bound (pre @ post) = (k, d)" by fastforce
    have d: "rest = k" "dropped = x # d"
      using "1.prems" evict.simps [of used bound cache] False x r by simp_all
    have c: "cache = pre @ x # post" "\<not> used x" "\<forall>y\<in>set pre. used y"
      using extract_SomeE [OF x] by simp_all
    have n: "\<not> length cache \<le> bound" using False by simp
    then have "length cache - bound = Suc (length (pre @ post) - bound)" using c(1) by simp
    moreover have "filter (\<lambda>r. \<not> used r) pre = []" using c(3) by (simp add: filter_empty_conv)
    ultimately show ?thesis using "1.IH" [OF n x refl refl r] c(2) unfolding d c(1) by simp
  qed
qed

text \<open>
  (C36) Evicting from the cache comes to an end, and takes out exactly the oldest entries that nothing
  uses, as many as are too many: what is in use stays, in its order, and afterwards the cache is
  within its bound or holds only what is in use.
\<close>

theorem evict_oldest_unused:
  "snd (evict used bound cache) = take (length cache - bound) (filter (\<lambda>r. \<not> used r) cache) \<and>
   filter used (fst (evict used bound cache)) = filter used cache \<and>
   mset cache = mset (fst (evict used bound cache)) + mset (snd (evict used bound cache)) \<and>
   (length (fst (evict used bound cache)) \<le> bound \<or> list_all used (fst (evict used bound cache)))"
proof -
  obtain rest dropped where e: "evict used bound cache = (rest, dropped)" by fastforce
  from evict_parts [OF this] evict_split [OF this] show ?thesis unfolding e fst_conv snd_conv list_all_iff by blast
qed

end
