(* ===== verification/Hux_Ipc.thy ===== *)
theory Hux_Ipc
  imports Hux_Provider Hux_Outbox Hux_Config
begin

text \<open>
  transport/ipc/*: transfers between two processes of one host, over a mapping of the peer's
  memory. What is not this program (the kernel's sockets and clock, the device driver behind
  \<open>DeviceBackend\<close>) is a record of functions over a state \<open>'x\<close> of its own. A socket answers a call
  that sends or receives with a list of outcomes, one per system call, as in \<open>Hux_Outbox\<close>; a
  wait is how many turns the clock allows it. Each method is one step of the state: the methods
  hold \<open>mu_\<close>, and between the turns of a wait they let it go only for \<open>pump\<close>.
  \<open>iw_overrun\<close> is not in the program: it is set when a read would leave the receive buffer, and the
  model stops there.
\<close>

section \<open>Data\<close>

record ipc_handle =
  ih_bytes :: bytes
  ih_offset :: u64
  ih_allocation_bytes :: u64

record exported =
  ex_addr :: addr
  ex_length :: u64
  ex_handle :: ipc_handle

record imported =
  im_peer_addr :: u64
  im_length :: u64
  im_handle :: ipc_handle
  im_mapped :: addr

record ipc_prov =
  ip_peer_identity :: identity
  ip_listen_fd :: int
  ip_sock :: int
  ip_socket_name :: string
  ip_inbox :: bytes
  ip_peer_gone :: bool
  ip_stats :: provider_stats
  ip_completions :: "completion_event list"
  ip_control :: "control_message list"
  ip_exported :: "(u64 \<times> exported) list"
  ip_imported :: "(u64 \<times> imported) list"
  ip_withdraw_acks :: "u64 \<rightharpoonup> bool"
  ip_next_key :: u64
  ip_conn :: "conn_id option"
  ip_outbox :: outbox
  ip_mappings_not_released :: u64

record 'x ipc_os =
  os_identity :: identity
  os_bind :: "string \<Rightarrow> 'x \<Rightarrow> int \<times> 'x"
  os_dial :: "string \<Rightarrow> 'x \<Rightarrow> int \<times> 'x"
  os_close :: "int \<Rightarrow> 'x \<Rightarrow> 'x"
  os_sends :: "int \<Rightarrow> 'x \<Rightarrow> send_outcome list \<times> 'x"
  os_recvs :: "int \<Rightarrow> 'x \<Rightarrow> recv_outcome list \<times> 'x"
  os_turns :: "'x \<Rightarrow> nat \<times> 'x"
  dev_export_ipc :: "addr \<Rightarrow> u64 \<Rightarrow> 'x \<Rightarrow> (status \<times> ipc_handle) \<times> 'x"
  dev_import_ipc :: "ipc_handle \<Rightarrow> 'x \<Rightarrow> (status \<times> addr) \<times> 'x"
  dev_close_ipc :: "addr \<Rightarrow> 'x \<Rightarrow> status \<times> 'x"
  dev_copy_nowait :: "addr \<Rightarrow> addr \<Rightarrow> u64 \<Rightarrow> 'x \<Rightarrow> status \<times> 'x"
  dev_settle :: "'x \<Rightarrow> status \<times> 'x"

record 'x ipc_world =
  iw_os :: 'x
  iw_prov :: ipc_prov
  iw_next_conn :: conn_id
  iw_overrun :: bool

definition upd_ip :: "(ipc_prov \<Rightarrow> ipc_prov) \<Rightarrow> 'x ipc_world \<Rightarrow> 'x ipc_world" where
  "upd_ip f w = w\<lparr>iw_prov := f (iw_prov w)\<rparr>"

text \<open>A call to the kernel or the driver.\<close>

definition sys :: "('x \<Rightarrow> 'a \<times> 'x) \<Rightarrow> 'x ipc_world \<Rightarrow> 'a \<times> 'x ipc_world" where
  "sys f w = (case f (iw_os w) of (a, x) \<Rightarrow> (a, w\<lparr>iw_os := x\<rparr>))"

text \<open>\<open>std::map\<close>: entries in the order of their keys.\<close>

fun omap_put :: "'k::linorder \<Rightarrow> 'v \<Rightarrow> ('k \<times> 'v) list \<Rightarrow> ('k \<times> 'v) list" where
  "omap_put k v [] = [(k, v)]"
| "omap_put k v ((k', v') # xs) =
    (if k < k' then (k, v) # (k', v') # xs
     else if k = k' then (k, v) # xs
     else (k', v') # omap_put k v xs)"

definition omap_erase :: "'k \<Rightarrow> ('k \<times> 'v) list \<Rightarrow> ('k \<times> 'v) list" where
  "omap_erase k xs = filter (\<lambda>x. fst x \<noteq> k) xs"

section \<open>Frames and blocking exchanges\<close>

definition kFrameControl :: u16 where "kFrameControl = 0"
definition kFramePublish :: u16 where "kFramePublish = 1"
definition kFrameWithdraw :: u16 where "kFrameWithdraw = 2"
definition kFrameWithdrawAck :: u16 where "kFrameWithdrawAck = 3"

definition kIpcWireMajor :: u16 where "kIpcWireMajor = 1"
definition kIpcWireMinor :: u16 where "kIpcWireMinor = 0"

fun send_all :: "send_outcome list \<Rightarrow> nat \<Rightarrow> bool" where
  "send_all os n =
    (if n = 0 then True
     else case os of
       [] \<Rightarrow> False
     | Sent k # os' \<Rightarrow> if 0 < taken k n then send_all os' (n - taken k n) else False
     | Interrupted # os' \<Rightarrow> send_all os' n
     | Again # os' \<Rightarrow> False
     | SendError # os' \<Rightarrow> False)"

declare send_all.simps [simp del]

text \<open>\<open>recv_all\<close>: the bytes, or why there are not enough: \<open>kTimeout\<close> is errno EAGAIN.\<close>

fun recv_all :: "recv_outcome list \<Rightarrow> nat \<Rightarrow> bytes \<Rightarrow> status + bytes" where
  "recv_all os n got =
    (if n = 0 then Inr got
     else case os of
       [] \<Rightarrow> Inl kTimeout
     | Got bs # os' \<Rightarrow>
        if take n bs \<noteq> [] then recv_all os' (n - length (take n bs)) (got @ take n bs) else Inl kPeerDisconnected
     | RecvInterrupted # os' \<Rightarrow> recv_all os' n got
     | RecvAgain # os' \<Rightarrow> Inl kTimeout
     | RecvError # os' \<Rightarrow> Inl kPeerDisconnected)"

declare recv_all.simps [simp del]

section \<open>Sending\<close>

fun close_mappings :: "'x ipc_os \<Rightarrow> (u64 \<times> imported) list \<Rightarrow> 'x ipc_world \<Rightarrow> 'x ipc_world" where
  "close_mappings os [] w = w"
| "close_mappings os ((k, im) # xs) w =
    (if im_mapped im \<noteq> 0
     then case sys (dev_close_ipc os (im_mapped im)) w of (s, w1) \<Rightarrow>
       close_mappings os xs (if s \<noteq> kOk
         then upd_ip (\<lambda>p. p\<lparr>ip_mappings_not_released := ip_mappings_not_released p + 1\<rparr>) w1 else w1)
     else close_mappings os xs w)"

text \<open>What \<open>disconnect\<close> and a peer that went have in common: the mappings, then the socket.\<close>

definition drop_peer :: "'x ipc_os \<Rightarrow> 'x ipc_world \<Rightarrow> 'x ipc_world" where
  "drop_peer os w =
    (let w1 = upd_ip (\<lambda>p. p\<lparr>ip_imported := []\<rparr>) (close_mappings os (ip_imported (iw_prov w)) w);
         fd = ip_sock (iw_prov w1)
     in if fd \<ge> 0
        then upd_ip (\<lambda>p. p\<lparr>ip_sock := -1\<rparr>)
          ((upd_ip (\<lambda>p. p\<lparr>ip_outbox := reset (-1) kDefaultLimit\<rparr>) w1)\<lparr>iw_os := os_close os fd (iw_os w1)\<rparr>)
        else w1)"

definition peer_is_gone_locked :: "'x ipc_os \<Rightarrow> 'x ipc_world \<Rightarrow> 'x ipc_world" where
  "peer_is_gone_locked os w =
    (if ip_peer_gone (iw_prov w) then w
     else drop_peer os (upd_ip (\<lambda>p. p\<lparr>ip_peer_gone := True\<rparr>) w))"

definition frame :: "u16 \<Rightarrow> bytes \<Rightarrow> bytes" where
  "frame type body = put_u32 (word_of_nat (length body)) @ put_u16 type @ body"

definition send_frame :: "'x ipc_os \<Rightarrow> int \<Rightarrow> u16 \<Rightarrow> bytes \<Rightarrow> 'x ipc_world \<Rightarrow> status \<times> 'x ipc_world" where
  "send_frame os fd type body w =
    (if fd < 0 then (kPeerDisconnected, w)
     else case sys (os_sends os fd) w of (outs, w1) \<Rightarrow>
       if fd = ip_sock (iw_prov w1)
       then (case post outs (frame type body) (ip_outbox (iw_prov w1)) of (s, ob) \<Rightarrow>
               (s, upd_ip (\<lambda>p. p\<lparr>ip_outbox := ob\<rparr>) w1))
       else (if send_all outs (length (frame type body)) then kOk else kPeerDisconnected, w1))"

definition publish_body :: "u64 \<Rightarrow> exported \<Rightarrow> bytes" where
  "publish_body key e = put_u64 key @ put_u64 (ex_addr e) @ put_u64 (ex_length e) @
     put_u64 (ih_offset (ex_handle e)) @ put_u64 (ih_allocation_bytes (ex_handle e)) @
     put_u16 (word_of_nat (length (ih_bytes (ex_handle e)))) @ ih_bytes (ex_handle e)"

fun publish_each :: "'x ipc_os \<Rightarrow> int \<Rightarrow> (u64 \<times> exported) list \<Rightarrow> 'x ipc_world \<Rightarrow> 'x ipc_world" where
  "publish_each os fd [] w = w"
| "publish_each os fd ((key, e) # xs) w =
    (case send_frame os fd kFramePublish (publish_body key e) w of (s, w1) \<Rightarrow>
     if s \<noteq> kOk then peer_is_gone_locked os w1 else publish_each os fd xs w1)"

definition publish_all :: "'x ipc_os \<Rightarrow> int \<Rightarrow> 'x ipc_world \<Rightarrow> 'x ipc_world" where
  "publish_all os fd w = publish_each os fd (ip_exported (iw_prov w)) w"

section \<open>Receiving\<close>

text \<open>The reads of one \<open>pump\<close>: what is in the buffer afterwards, and whether the connection ended.\<close>

fun recv_loop :: "recv_outcome list \<Rightarrow> bytes \<Rightarrow> bool \<times> bytes" where
  "recv_loop [] inbox = (False, inbox)"
| "recv_loop (Got bs # os) inbox = (if bs = [] then (True, inbox) else recv_loop os (inbox @ take 4096 bs))"
| "recv_loop (RecvInterrupted # os) inbox = recv_loop os inbox"
| "recv_loop (RecvAgain # os) inbox = (False, inbox)"
| "recv_loop (RecvError # os) inbox = (True, inbox)"

definition take_control :: "u32 \<Rightarrow> 'x ipc_world \<Rightarrow> 'x ipc_world option" where
  "take_control len w =
    (let inbox = ip_inbox (iw_prov w) in do {
       t \<leftarrow> get_u16 inbox 6;
       payload \<leftarrow> rd_range inbox 8 (unat len - 2);
       Some (upd_ip (\<lambda>p. p\<lparr>ip_control := ip_control p @ [\<lparr>cm_peer = id_process (ip_peer_identity p),
         cm_type = t, cm_payload = payload, cm_conn = ip_conn p\<rparr>]\<rparr>) w) })"

definition take_publish :: "u32 \<Rightarrow> 'x ipc_world \<Rightarrow> 'x ipc_world option" where
  "take_publish len w =
    (let inbox = ip_inbox (iw_prov w) in do {
       key \<leftarrow> get_u64 inbox 6;
       peer_addr \<leftarrow> get_u64 inbox 14;
       n \<leftarrow> get_u64 inbox 22;
       offset \<leftarrow> get_u64 inbox 30;
       bytes \<leftarrow> get_u64 inbox 38;
       hn \<leftarrow> get_u16 inbox 46;
       if 42 + unat hn \<le> unat len then do {
         handle \<leftarrow> rd_range inbox 48 (unat hn);
         Some (upd_ip (\<lambda>p. p\<lparr>ip_imported := omap_put key
           \<lparr>im_peer_addr = peer_addr, im_length = n,
            im_handle = \<lparr>ih_bytes = handle, ih_offset = offset, ih_allocation_bytes = bytes\<rparr>,
            im_mapped = 0\<rparr> (ip_imported p)\<rparr>) w) }
       else Some w })"

definition take_withdraw :: "'x ipc_os \<Rightarrow> int \<Rightarrow> 'x ipc_world \<Rightarrow> 'x ipc_world option" where
  "take_withdraw os fd w = do {
     key \<leftarrow> get_u64 (ip_inbox (iw_prov w)) 6;
     let w1 = (case map_of (ip_imported (iw_prov w)) key of
         None \<Rightarrow> w
       | Some im \<Rightarrow> upd_ip (\<lambda>p. p\<lparr>ip_imported := omap_erase key (ip_imported p)\<rparr>)
           (if im_mapped im \<noteq> 0 then snd (sys (dev_close_ipc os (im_mapped im)) w) else w));
     Some (snd (send_frame os fd kFrameWithdrawAck (put_u64 key) w1)) }"

definition take_withdraw_ack :: "'x ipc_world \<Rightarrow> 'x ipc_world option" where
  "take_withdraw_ack w = do {
     key \<leftarrow> get_u64 (ip_inbox (iw_prov w)) 6;
     Some (if ip_withdraw_acks (iw_prov w) key = None then w
           else upd_ip (\<lambda>p. p\<lparr>ip_withdraw_acks := (ip_withdraw_acks p)(key \<mapsto> True)\<rparr>) w) }"

text \<open>One frame at the front of the buffer; \<open>None\<close> if a read leaves the buffer.\<close>

definition take_frame :: "'x ipc_os \<Rightarrow> int \<Rightarrow> u32 \<Rightarrow> u16 \<Rightarrow> 'x ipc_world \<Rightarrow> 'x ipc_world option" where
  "take_frame os fd len type w =
    (if type = kFrameControl \<and> 2 \<le> len then take_control len w
     else if type = kFramePublish \<and> 42 \<le> len then take_publish len w
     else if type = kFrameWithdraw \<and> 8 \<le> len then take_withdraw os fd w
     else if type = kFrameWithdrawAck \<and> 8 \<le> len then take_withdraw_ack w
     else Some w)"

text \<open>
  The loop over the frames that are there. The length check is in 32 bits, as written; erasing
  more than there is counts as leaving the buffer.
\<close>

definition overrun :: "'x ipc_world \<Rightarrow> 'x ipc_world" where
  "overrun w = w\<lparr>iw_overrun := True\<rparr>"

function parse_frames :: "'x ipc_os \<Rightarrow> int \<Rightarrow> 'x ipc_world \<Rightarrow> 'x ipc_world" where
  "parse_frames os fd w =
    (let inbox = ip_inbox (iw_prov w) in
     if length inbox < 6 then w
     else case (get_u32 inbox 0, get_u16 inbox 4) of
       (Some len, Some type) \<Rightarrow>
         if length inbox < unat (6 + len) then w
         else (case take_frame os fd len type w of
             None \<Rightarrow> overrun w
           | Some w1 \<Rightarrow>
              if length inbox < 6 + unat len then overrun w1
              else parse_frames os fd (upd_ip (\<lambda>p. p\<lparr>ip_inbox := drop (6 + unat len) inbox\<rparr>) w1))
     | _ \<Rightarrow> overrun w)"
  by pat_completeness auto

termination parse_frames
  by (relation "measure (\<lambda>(os, fd, w). length (ip_inbox (iw_prov w)))") (auto simp: upd_ip_def)

declare parse_frames.simps [simp del]

definition pump :: "'x ipc_os \<Rightarrow> int \<Rightarrow> 'x ipc_world \<Rightarrow> status \<times> 'x ipc_world" where
  "pump os fd w =
    (if fd < 0 then (kPeerDisconnected, w)
     else case sys (os_sends os fd) w of (outs, w1) \<Rightarrow>
       case flush outs (ip_outbox (iw_prov w1)) of (s, ob) \<Rightarrow>
       let w2 = upd_ip (\<lambda>p. p\<lparr>ip_outbox := ob\<rparr>) w1 in
       if s = kPeerDisconnected then (kPeerDisconnected, peer_is_gone_locked os w2)
       else if fd \<noteq> ip_sock (iw_prov w2) then (kPeerDisconnected, w2)
       else case sys (os_recvs os fd) w2 of (ins, w3) \<Rightarrow>
         case recv_loop ins (ip_inbox (iw_prov w3)) of (eof, inbox) \<Rightarrow>
         let w4 = parse_frames os fd (upd_ip (\<lambda>p. p\<lparr>ip_inbox := inbox\<rparr>) w3) in
         if eof then (kPeerDisconnected, peer_is_gone_locked os w4) else (kOk, w4))"

section \<open>Connecting\<close>

definition hello :: "'x ipc_os \<Rightarrow> bytes" where
  "hello os = put_u16 kIpcWireMajor @ put_u16 kIpcWireMinor @ encode_identity (os_identity os)"

definition check_hello :: "'x ipc_os \<Rightarrow> bytes \<Rightarrow> identity result" where
  "check_hello os theirs =
    (case get_u16 theirs 0 of
       Some major \<Rightarrow>
         if major \<noteq> kIpcWireMajor then Inl kUnsupported
         else (case decode_identity theirs 4 of
             Some (Inr peer) \<Rightarrow>
               if locality_of (os_identity os) peer = LC_kRemote then Inl kUnsupported else Inr peer
           | _ \<Rightarrow> Inl kInvalidArgument)
     | None \<Rightarrow> Inl kInvalidArgument)"

definition handshake :: "'x ipc_os \<Rightarrow> int \<Rightarrow> 'x ipc_world \<Rightarrow> status \<times> 'x ipc_world" where
  "handshake os fd w =
    (case sys (os_sends os fd) w of (outs, w1) \<Rightarrow>
     if \<not> send_all outs (length (hello os)) then (kPeerDisconnected, w1)
     else case sys (os_recvs os fd) w1 of (ins, w2) \<Rightarrow>
       (case recv_all ins (4 + kIdentityBytes) [] of
          Inl s \<Rightarrow> (s, w2)
        | Inr theirs \<Rightarrow>
          (case check_hello os theirs of
             Inl s \<Rightarrow> (s, w2)
           | Inr peer \<Rightarrow> (kOk, upd_ip (\<lambda>p. p\<lparr>ip_peer_identity := peer\<rparr>) w2))))"

text \<open>What \<open>connect\<close> and \<open>accept\<close> do with a socket.\<close>

definition establish :: "'x ipc_os \<Rightarrow> int \<Rightarrow> 'x ipc_world \<Rightarrow> conn_id result \<times> 'x ipc_world" where
  "establish os fd w =
    (case handshake os fd w of (s, w1) \<Rightarrow>
     if s \<noteq> kOk then (Inl s, w1\<lparr>iw_os := os_close os fd (iw_os w1)\<rparr>)
     else
       let c = iw_next_conn w1;
           w2 = upd_ip (\<lambda>p. p\<lparr>ip_sock := fd, ip_outbox := reset fd kDefaultLimit, ip_conn := Some c\<rparr>)
                  (w1\<lparr>iw_next_conn := Suc c\<rparr>)
       in (Inr c, publish_all os fd w2))"

definition ipc_connect :: "'x ipc_os \<Rightarrow> bytes \<Rightarrow> 'x ipc_world \<Rightarrow> conn_id result \<times> 'x ipc_world" where
  "ipc_connect os md w =
    (case get_u16 md 0 of
       None \<Rightarrow> (Inl kInvalidArgument, w)
     | Some n \<Rightarrow>
        if length md \<noteq> 2 + unat n then (Inl kInvalidArgument, w)
        else case sys (os_dial os (bytes_string (drop 2 md))) w of (fd, w1) \<Rightarrow>
          if fd < 0 then (Inl kPeerDisconnected, w1) else establish os fd w1)"

fun ipc_accept :: "'x ipc_os \<Rightarrow> int \<Rightarrow> accept_turn list \<Rightarrow> 'x ipc_world \<Rightarrow> (conn_id result \<times> 'x ipc_world) option" where
  "ipc_accept os timeout_ms [] w = None"
| "ipc_accept os timeout_ms (Came fd # ts) w =
    (if fd < 0 then ipc_accept os timeout_ms ts w else Some (establish os fd w))"
| "ipc_accept os timeout_ms (Nothing late # ts) w =
    (if timeout_ms \<ge> 0 \<and> late then Some (Inl kTimeout, w) else ipc_accept os timeout_ms ts w)"

definition ipc_disconnect :: "'x ipc_os \<Rightarrow> conn_id \<Rightarrow> 'x ipc_world \<Rightarrow> status \<times> 'x ipc_world" where
  "ipc_disconnect os c w = (kOk, upd_ip (\<lambda>p. p\<lparr>ip_conn := None\<rparr>) (drop_peer os w))"

definition ipc_local_metadata :: "'x ipc_world \<Rightarrow> bytes result" where
  "ipc_local_metadata w = (let name = ip_socket_name (iw_prov w) in
     Inr (put_u16 (word_of_nat (length name)) @ string_bytes name))"

section \<open>Regions\<close>

definition ipc_register_region ::
  "'x ipc_os \<Rightarrow> addr \<Rightarrow> u64 \<Rightarrow> device_id \<Rightarrow> access_flags \<Rightarrow> 'x ipc_world \<Rightarrow> (u64 \<times> u64) result \<times> 'x ipc_world" where
  "ipc_register_region os a len dev acc w =
    (if a = 0 \<or> len = 0 then (Inl kInvalidArgument, w)
     else case sys (dev_export_ipc os a len) w of ((es, handle), w1) \<Rightarrow>
        if es \<noteq> kOk then (Inl es, w1)
        else
        let key = ip_next_key (iw_prov w1);
            e = \<lparr>ex_addr = a, ex_length = len, ex_handle = handle\<rparr>;
            w2 = upd_ip (\<lambda>p. p\<lparr>ip_next_key := key + 1, ip_exported := omap_put key e (ip_exported p)\<rparr>) w1
        in if ip_sock (iw_prov w2) \<ge> 0
           then (case send_frame os (ip_sock (iw_prov w2)) kFramePublish (publish_body key e) w2 of (s, w3) \<Rightarrow>
                   (Inr (key, key), if s \<noteq> kOk then peer_is_gone_locked os w3 else w3))
           else (Inr (key, key), w2))"

fun await_ack :: "'x ipc_os \<Rightarrow> u64 \<Rightarrow> nat \<Rightarrow> 'x ipc_world \<Rightarrow> status \<times> 'x ipc_world" where
  "await_ack os key 0 w = (kTimeout, upd_ip (\<lambda>p. p\<lparr>ip_withdraw_acks := (ip_withdraw_acks p)(key := None)\<rparr>) w)"
| "await_ack os key (Suc n) w =
    (let w1 = snd (pump os (ip_sock (iw_prov w)) w) in
     if ip_withdraw_acks (iw_prov w1) key \<noteq> Some False
     then (kOk, upd_ip (\<lambda>p. p\<lparr>ip_withdraw_acks := (ip_withdraw_acks p)(key := None)\<rparr>) w1)
     else await_ack os key n w1)"

definition ipc_deregister_region :: "'x ipc_os \<Rightarrow> u64 \<Rightarrow> 'x ipc_world \<Rightarrow> status \<times> 'x ipc_world" where
  "ipc_deregister_region os key w =
    (if map_of (ip_exported (iw_prov w)) key = None then (kNotFound, w)
     else
       let w1 = upd_ip (\<lambda>p. p\<lparr>ip_exported := omap_erase key (ip_exported p)\<rparr>) w in
       if ip_sock (iw_prov w1) < 0 then (kOk, w1)
       else
         let w2 = upd_ip (\<lambda>p. p\<lparr>ip_withdraw_acks := (ip_withdraw_acks p)(key \<mapsto> False)\<rparr>) w1 in
         case send_frame os (ip_sock (iw_prov w2)) kFrameWithdraw (put_u64 key) w2 of (s, w3) \<Rightarrow>
           if s \<noteq> kOk
           then (kOk, upd_ip (\<lambda>p. p\<lparr>ip_withdraw_acks := (ip_withdraw_acks p)(key := None)\<rparr>) w3)
           else case sys (os_turns os) w3 of (n, w4) \<Rightarrow> await_ack os key n w4)"

section \<open>Transfers\<close>

definition ensure_mapped :: "'x ipc_os \<Rightarrow> u64 \<Rightarrow> 'x ipc_world \<Rightarrow> imported result \<times> 'x ipc_world" where
  "ensure_mapped os key w =
    (case map_of (ip_imported (iw_prov w)) key of
       None \<Rightarrow> (Inl kNotFound, w)
     | Some im \<Rightarrow>
        if im_mapped im \<noteq> 0 then (Inr im, w)
        else case sys (dev_import_ipc os (im_handle im)) w of ((s, mapped), w1) \<Rightarrow>
          if s \<noteq> kOk then (Inl s, w1)
          else (let im1 = im\<lparr>im_mapped := mapped\<rparr> in
             (Inr im1, upd_ip (\<lambda>p. p\<lparr>ip_imported := omap_put key im1 (ip_imported p)\<rparr>) w1)))"

text \<open>The wait for what the peer has not published yet: at least one \<open>pump\<close>.\<close>

definition have_all :: "subop list \<Rightarrow> 'x ipc_world \<Rightarrow> bool" where
  "have_all ops w = list_all (\<lambda>op. map_of (ip_imported (iw_prov w)) (so_remote_key op) \<noteq> None) ops"

definition ipc_peer_alive :: "'x ipc_world \<Rightarrow> bool" where
  "ipc_peer_alive w \<longleftrightarrow> \<not> ip_peer_gone (iw_prov w) \<and> ip_sock (iw_prov w) \<ge> 0"

fun await_published :: "'x ipc_os \<Rightarrow> int \<Rightarrow> subop list \<Rightarrow> nat \<Rightarrow> 'x ipc_world \<Rightarrow> 'x ipc_world" where
  "await_published os fd ops n w =
    (let w1 = snd (pump os fd w) in
     if \<not> ipc_peer_alive w1 \<or> have_all ops w1 then w1
     else case n of 0 \<Rightarrow> w1 | Suc m \<Rightarrow> await_published os fd ops m w1)"

declare await_published.simps [simp del]

text \<open>The address a sub-operation means in the mapping, or the refusal.\<close>

definition remote_address :: "subop \<Rightarrow> imported \<Rightarrow> addr result" where
  "remote_address op im =
    (if so_remote_addr op < im_peer_addr im then Inl kInvalidArgument
     else
       let offset = so_remote_addr op - im_peer_addr im in
       if offset > im_length im \<or> so_length op > im_length im - offset then Inl kInvalidArgument
       else if im_mapped im + offset = so_local_addr op then Inl kInternal
       else Inr (im_mapped im + offset))"

definition copy_event :: "subop \<Rightarrow> status \<Rightarrow> completion_event" where
  "copy_event op cs = \<lparr>ce_request = so_request op, ce_sub_id = so_sub_id op,
     ce_bytes = (if cs = kOk then so_length op else 0), ce_status = cs, ce_errno = 0,
     ce_may_have_modified_target = (cs \<noteq> kOk \<and> so_kind op = kWrite)\<rparr>"

definition count_copy :: "subop \<Rightarrow> status \<Rightarrow> ipc_prov \<Rightarrow> ipc_prov" where
  "count_copy op cs p = p\<lparr>ip_stats := (ip_stats p)\<lparr>subops_posted := subops_posted (ip_stats p) + 1,
     payload_bytes := payload_bytes (ip_stats p) + so_length op,
     payload_bytes_copied := (if cs = kOk then payload_bytes_copied (ip_stats p) + so_length op
       else payload_bytes_copied (ip_stats p))\<rparr>\<rparr>"

fun copy_ops :: "'x ipc_os \<Rightarrow> subop list \<Rightarrow> completion_event list \<Rightarrow> 'x ipc_world \<Rightarrow>
   status \<times> completion_event list \<times> 'x ipc_world" where
  "copy_ops os [] landed w = (kOk, landed, w)"
| "copy_ops os (op # ops) landed w =
    (case ensure_mapped os (so_remote_key op) w of
       (Inl s, w1) \<Rightarrow> (s, landed, w1)
     | (Inr im, w1) \<Rightarrow>
        (case remote_address op im of
           Inl s \<Rightarrow> (s, landed, w1)
         | Inr remote \<Rightarrow>
            (case sys (if so_kind op = kRead then dev_copy_nowait os (so_local_addr op) remote (so_length op)
                       else dev_copy_nowait os remote (so_local_addr op) (so_length op)) w1 of (cs, w2) \<Rightarrow>
             copy_ops os ops (landed @ [copy_event op cs]) (upd_ip (count_copy op cs) w2))))"

definition unsettled :: "status \<Rightarrow> completion_event \<Rightarrow> completion_event" where
  "unsettled ss ev = (if ce_status ev \<noteq> kOk then ev
     else ev\<lparr>ce_status := ss, ce_bytes := 0, ce_may_have_modified_target := True\<rparr>)"

definition ipc_submit :: "'x ipc_os \<Rightarrow> conn_id option \<Rightarrow> subop list \<Rightarrow> 'x ipc_world \<Rightarrow> submit_result \<times> 'x ipc_world" where
  "ipc_submit os conn ops w =
    (if conn = None then (\<lparr>sr_accepted = 0, sr_status = kInvalidArgument, sr_errno = 0\<rparr>, w)
     else case sys (os_turns os) w of (n, w1) \<Rightarrow>
       let w2 = await_published os (ip_sock (iw_prov w1)) ops n w1 in
       if \<not> ipc_peer_alive w2 then (\<lparr>sr_accepted = 0, sr_status = kPeerDisconnected, sr_errno = 0\<rparr>, w2)
       else case copy_ops os ops [] w2 of (s, landed, w3) \<Rightarrow>
         if landed = [] then (\<lparr>sr_accepted = 0, sr_status = s, sr_errno = 0\<rparr>, w3)
         else case sys (dev_settle os) w3 of (ss, w4) \<Rightarrow>
           let evs = (if ss \<noteq> kOk then map (unsettled ss) landed else landed)
           in (\<lparr>sr_accepted = length landed, sr_status = (if ss \<noteq> kOk then ss else s), sr_errno = 0\<rparr>,
               upd_ip (\<lambda>p. p\<lparr>ip_completions := ip_completions p @ evs\<rparr>) w4))"

definition count_polled :: "completion_event \<Rightarrow> provider_stats \<Rightarrow> provider_stats" where
  "count_polled ev s = (if ce_status ev = kOk then s\<lparr>subops_completed := subops_completed s + 1\<rparr>
     else s\<lparr>subops_failed := subops_failed s + 1\<rparr>)"

definition ipc_poll :: "nat \<Rightarrow> 'x ipc_world \<Rightarrow> (status \<times> completion_event list) \<times> 'x ipc_world" where
  "ipc_poll n w =
    (let evs = take n (ip_completions (iw_prov w)) in
     ((kOk, evs), upd_ip (\<lambda>p. p\<lparr>ip_completions := drop n (ip_completions p),
        ip_stats := fold count_polled evs (ip_stats p)\<rparr>) w))"

section \<open>Control\<close>

definition ipc_send_control ::
  "'x ipc_os \<Rightarrow> conn_id option \<Rightarrow> u16 \<Rightarrow> bytes \<Rightarrow> 'x ipc_world \<Rightarrow> status \<times> 'x ipc_world" where
  "ipc_send_control os conn type payload w =
    (if conn = None then (kInvalidArgument, w)
     else if ip_peer_gone (iw_prov w) then (kPeerDisconnected, w)
     else case send_frame os (ip_sock (iw_prov w)) kFrameControl (put_u16 type @ payload) w of (s, w1) \<Rightarrow>
       (s, if s = kPeerDisconnected then peer_is_gone_locked os w1 else w1))"

definition ipc_broadcast_control ::
  "'x ipc_os \<Rightarrow> u16 \<Rightarrow> bytes \<Rightarrow> 'x ipc_world \<Rightarrow> (status \<times> nat \<times> nat) \<times> 'x ipc_world" where
  "ipc_broadcast_control os type payload w =
    (if ipc_peer_alive w
     then case send_frame os (ip_sock (iw_prov w)) kFrameControl (put_u16 type @ payload) w of (s, w1) \<Rightarrow>
       ((kOk, if s = kOk then 1 else 0, if s = kOk then 0 else 1),
        if s = kPeerDisconnected then peer_is_gone_locked os w1 else w1)
     else ((kOk, 0, 0), w))"

definition ipc_poll_control :: "'x ipc_os \<Rightarrow> nat \<Rightarrow> 'x ipc_world \<Rightarrow> (status \<times> control_message list) \<times> 'x ipc_world" where
  "ipc_poll_control os n w =
    (let w1 = snd (pump os (ip_sock (iw_prov w)) w) in
     ((kOk, take n (ip_control (iw_prov w1))), upd_ip (\<lambda>p. p\<lparr>ip_control := drop n (ip_control p)\<rparr>) w1))"

section \<open>The provider\<close>

definition new_ipc_prov :: "string \<Rightarrow> int \<Rightarrow> ipc_prov" where
  "new_ipc_prov name fd = \<lparr>ip_peer_identity = zero_identity, ip_listen_fd = fd, ip_sock = -1,
     ip_socket_name = name, ip_inbox = [], ip_peer_gone = False, ip_stats = zero_stats,
     ip_completions = [], ip_control = [], ip_exported = [], ip_imported = [],
     ip_withdraw_acks = Map.empty, ip_next_key = 1, ip_conn = None,
     ip_outbox = reset (-1) kDefaultLimit, ip_mappings_not_released = 0\<rparr>"

text \<open>\<open>seq\<close> is the process-wide counter of generated names; a device backend is required.\<close>

definition ipc_create :: "'x ipc_os option \<Rightarrow> string \<Rightarrow> u64 \<Rightarrow> 'x \<Rightarrow> 'x ipc_world result \<times> u64 \<times> 'x" where
  "ipc_create dev name seq x =
    (case dev of
       None \<Rightarrow> (Inl kInvalidArgument, seq, x)
     | Some os \<Rightarrow>
        let (n, seq1) = (if name = ''''
              then (''hux-ipc-'' @ show_nat (unat (id_process (os_identity os))) @ ''-'' @ show_nat (unat seq), seq + 1)
              else (name, seq))
        in case os_bind os n x of (fd, x1) \<Rightarrow>
          (if fd < 0 then Inl kInternal
           else Inr \<lparr>iw_os = x1, iw_prov = new_ipc_prov n fd, iw_next_conn = 0, iw_overrun = False\<rparr>, seq1, x1))"

text \<open>The destructor: the mappings first, then the sockets.\<close>

definition ipc_destroy :: "'x ipc_os \<Rightarrow> 'x ipc_world \<Rightarrow> 'x" where
  "ipc_destroy os w =
    (let p = iw_prov w;
         x1 = fold (\<lambda>(k, im) x. if im_mapped im \<noteq> 0 then snd (dev_close_ipc os (im_mapped im) x) else x)
                (ip_imported p) (iw_os w);
         x2 = (if ip_sock p \<ge> 0 then os_close os (ip_sock p) x1 else x1)
     in if ip_listen_fd p \<ge> 0 then os_close os (ip_listen_fd p) x2 else x2)"

definition ipc_caps :: provider_caps where
  "ipc_caps = \<lparr>pc_name = ''ipc'', supports_read = True, supports_write = True,
     supports_vector = False, supports_multi_qp = False, needs_explicit_flush = False,
     supports_peer_signal = False, relative_capacity = 1, max_segment_bytes = 0, max_sge = 1\<rparr>"

definition ipc_describe :: "'x ipc_world \<Rightarrow> string" where
  "ipc_describe w =
    (let p = iw_prov w in
     CHR ''{'' # commas
       [jstr ''provider'' ''ipc'', jstr ''socket'' (ip_socket_name p),
        jnum ''connected'' (if ip_sock p \<ge> 0 \<and> \<not> ip_peer_gone p then 1 else 0),
        jnum ''peer_gone'' (if ip_peer_gone p then 1 else 0),
        jnum ''peer_process'' (unat (id_process (ip_peer_identity p))),
        jnum ''exported_regions'' (length (ip_exported p)),
        jnum ''imported_regions'' (length (ip_imported p)),
        jnum ''mappings_held'' (length (filter (\<lambda>x. im_mapped (snd x) \<noteq> 0) (ip_imported p))),
        jnum ''mappings_not_released'' (unat (ip_mappings_not_released p)),
        CHR 0x22 # ''exported'' @ CHR 0x22 # '':['' @ commas (map (\<lambda>(k, e).
          CHR ''{'' # commas [jnum ''key'' (unat k), jnum ''addr'' (unat (ex_addr e)),
            jnum ''length'' (unat (ex_length e))] @ ''}'') (ip_exported p)) @ '']'',
        CHR 0x22 # ''imported'' @ CHR 0x22 # '':['' @ commas (map (\<lambda>(k, m).
          CHR ''{'' # commas [jnum ''key'' (unat k), jnum ''peer_addr'' (unat (im_peer_addr m)),
            jnum ''mapped'' (unat (im_mapped m)), jnum ''length'' (unat (im_length m))] @ ''}'')
          (ip_imported p)) @ '']''] @ ''}'')"

definition ipc_ops :: "'x ipc_os \<Rightarrow> 'x ipc_world provider_ops" where
  "ipc_ops os = \<lparr>
     po_caps = ipc_caps,
     po_stats = (\<lambda>w. ip_stats (iw_prov w)),
     po_describe = ipc_describe,
     po_register_region = ipc_register_region os,
     po_deregister_region = ipc_deregister_region os,
     po_connect = ipc_connect os,
     po_disconnect = ipc_disconnect os,
     po_local_metadata = ipc_local_metadata,
     po_submit = ipc_submit os,
     po_poll = ipc_poll,
     po_send_control = ipc_send_control os,
     po_broadcast_control = ipc_broadcast_control os,
     po_poll_control = ipc_poll_control os,
     po_poll_peer_arrivals = (\<lambda>n w. ((kOk, []), w)),
     po_flush = (\<lambda>c w. (kOk, w)),
     po_drain = (\<lambda>c t w. (kOk, w)),
     po_qp_count = (\<lambda>c w. 1),
     po_submit_capacity = (\<lambda>c w. 1024),
     po_alive = (\<lambda>c w. ipc_peer_alive w)\<rparr>"

section \<open>What the parts leave alone\<close>

named_theorems ipc_keeps \<open>operations that leave the completions alone\<close>

lemma sys_keeps [ipc_keeps]: "iw_prov (snd (sys f w)) = iw_prov w"
  by (simp add: sys_def split: prod.split)

lemma sys_prov: "sys f w = (a, w') \<Longrightarrow> iw_prov w' = iw_prov w"
  using sys_keeps [of f w] by simp

lemma upd_ip_simps [simp]:
  "iw_prov (upd_ip f w) = f (iw_prov w)" "iw_os (upd_ip f w) = iw_os w" "iw_overrun (upd_ip f w) = iw_overrun w"
  by (simp_all add: upd_ip_def)

abbreviation comps :: "'x ipc_world \<Rightarrow> completion_event list" where
  "comps w \<equiv> ip_completions (iw_prov w)"

lemma comps_close_mappings [ipc_keeps]: "comps (close_mappings os xs w) = comps w"
  by (induction os xs w rule: close_mappings.induct) (auto simp: sys_prov split: prod.split)

lemma comps_drop_peer [ipc_keeps]: "comps (drop_peer os w) = comps w"
  by (simp add: drop_peer_def Let_def ipc_keeps)

lemma comps_peer_gone [ipc_keeps]: "comps (peer_is_gone_locked os w) = comps w"
  by (simp add: peer_is_gone_locked_def ipc_keeps)

lemma comps_send_frame [ipc_keeps]: "comps (snd (send_frame os fd t body w)) = comps w"
  by (auto simp: send_frame_def sys_prov split: prod.split)

lemma comps_send_frame_eq: "send_frame os fd t body w = (s, w') \<Longrightarrow> comps w' = comps w"
  using comps_send_frame [of os fd t body w] by simp

lemma comps_publish_all [ipc_keeps]: "comps (publish_all os fd w) = comps w"
proof -
  have "comps (publish_each os fd xs w) = comps w" for xs
    by (induction os fd xs w rule: publish_each.induct) (auto simp: ipc_keeps comps_send_frame_eq split: prod.split)
  then show ?thesis by (simp add: publish_all_def)
qed

lemma comps_take_frame: "take_frame os fd len t w = Some w' \<Longrightarrow> comps w' = comps w"
  by (auto simp: take_frame_def take_control_def take_publish_def take_withdraw_def take_withdraw_ack_def Let_def
      ipc_keeps split: if_splits option.splits bind_splits)

lemma comps_parse_frames [ipc_keeps]: "comps (parse_frames os fd w) = comps w"
proof (induction os fd w rule: parse_frames.induct)
  case (1 os fd w)
  show ?case
    by (subst parse_frames.simps) (auto simp: Let_def overrun_def comps_take_frame 1 split: option.split)
qed

lemma comps_pump [ipc_keeps]: "comps (snd (pump os fd w)) = comps w"
  by (auto simp: pump_def Let_def ipc_keeps sys_prov split: prod.split)

lemma comps_establish [ipc_keeps]: "comps (snd (establish os fd w)) = comps w"
proof -
  have "comps (snd (handshake os fd w)) = comps w"
    by (auto simp: handshake_def sys_prov split: prod.split sum.split)
  then show ?thesis by (auto simp: establish_def Let_def ipc_keeps split: prod.split)
qed

lemma comps_await_ack [ipc_keeps]: "comps (snd (await_ack os key n w)) = comps w"
  by (induction n arbitrary: w) (simp_all add: Let_def ipc_keeps)

lemma comps_await_published [ipc_keeps]: "comps (await_published os fd ops n w) = comps w"
  by (induction n arbitrary: w) (simp_all add: await_published.simps Let_def ipc_keeps)

section \<open>The contract of a transport\<close>

lemma omap_put_map_of [simp]: "map_of (omap_put k v xs) = (map_of xs)(k \<mapsto> v)"
  by (induction k v xs rule: omap_put.induct) (auto simp: fun_eq_iff)

lemma ensure_mapped_cases:
  assumes "ensure_mapped os key w = (r, w')"
  obtains (fails) s where "r = Inl s" "s \<noteq> kOk" "iw_prov w' = iw_prov w"
  | (maps) im a l where "r = Inr (im\<lparr>im_mapped := a\<rparr>)" "map_of (ip_imported (iw_prov w)) key = Some im"
      "iw_prov w' = (iw_prov w)\<lparr>ip_imported := l\<rparr>"
      "map_of l = (map_of (ip_imported (iw_prov w)))(key \<mapsto> im\<lparr>im_mapped := a\<rparr>)"
proof (cases "map_of (ip_imported (iw_prov w)) key")
  case None
  with assms fails [of kNotFound] show thesis by (simp add: ensure_mapped_def)
next
  case (Some im)
  show thesis
  proof (cases "im_mapped im \<noteq> 0")
    case True
    with assms Some have "r = Inr im" "w' = w" by (simp_all add: ensure_mapped_def)
    with Some maps [of "im_mapped im" im "ip_imported (iw_prov w)"] show thesis by (simp add: map_upd_triv)
  next
    case False
    obtain s a w1 where y: "sys (dev_import_ipc os (im_handle im)) w = ((s, a), w1)" by (metis prod.collapse)
    show thesis
    proof (cases "s = kOk")
      case True
      with assms Some False y maps [of a im "omap_put key (im\<lparr>im_mapped := a\<rparr>) (ip_imported (iw_prov w))"] sys_prov [OF y] show thesis
        by (auto simp: ensure_mapped_def Let_def omap_put_map_of)
    qed (use assms Some False y fails [of s] sys_prov [OF y] in \<open>auto simp: ensure_mapped_def\<close>)
  qed
qed

text \<open>Whether a sub-operation names bytes of a region, by its key and the peer's addresses.\<close>

definition in_region :: "subop \<Rightarrow> imported \<Rightarrow> bool" where
  "in_region op im \<longleftrightarrow> im_peer_addr im \<le> so_remote_addr op \<and>
     unat (so_remote_addr op) + unat (so_length op) \<le> unat (im_peer_addr im) + unat (im_length im)"

lemma remote_address_in_region:
  assumes "remote_address op im = Inr a"
  shows "in_region op im" "a = im_mapped im + (so_remote_addr op - im_peer_addr im)" "a \<noteq> so_local_addr op"
    "unat (so_remote_addr op - im_peer_addr im) + unat (so_length op) \<le> unat (im_length im)"
proof -
  have le: "im_peer_addr im \<le> so_remote_addr op"
    and off: "so_remote_addr op - im_peer_addr im \<le> im_length im"
      "so_length op \<le> im_length im - (so_remote_addr op - im_peer_addr im)"
    and "a = im_mapped im + (so_remote_addr op - im_peer_addr im)" "a \<noteq> so_local_addr op"
    using assms by (auto simp: remote_address_def Let_def split: if_splits)
  then show "a = im_mapped im + (so_remote_addr op - im_peer_addr im)" "a \<noteq> so_local_addr op" by simp_all
  from off show l: "unat (so_remote_addr op - im_peer_addr im) + unat (so_length op) \<le> unat (im_length im)"
    using unat_sub_le [OF off(1)] by (simp add: word_le_nat_alt)
  with le show "in_region op im" by (simp add: in_region_def word_le_nat_alt)
qed

definition published :: "subop \<Rightarrow> 'x ipc_world \<Rightarrow> bool" where
  "published op w \<longleftrightarrow> (\<exists>im. map_of (ip_imported (iw_prov w)) (so_remote_key op) = Some im \<and> in_region op im)"

lemma in_region_mapped [simp]: "in_region op (im\<lparr>im_mapped := a\<rparr>) = in_region op im"
  by (simp add: in_region_def)

lemma published_ensure_mapped:
  assumes "ensure_mapped os key w = (r, w')"
  shows "published op w' = published op w"
  using assms by (cases rule: ensure_mapped_cases) (auto simp: published_def)

lemma ensure_mapped_keeps:
  assumes "ensure_mapped os key w = (r, w')"
  shows "comps w' = comps w" "ipc_peer_alive w' = ipc_peer_alive w"
  using assms by (cases rule: ensure_mapped_cases; simp add: ipc_peer_alive_def)+

lemma copy_ops_spec:
  "copy_ops os ops landed w = (s, landed', w') \<Longrightarrow>
   comps w' = comps w \<and> ipc_peer_alive w' = ipc_peer_alive w \<and> (\<forall>op. published op w' = published op w) \<and>
   (\<exists>k evs. k \<le> length ops \<and> (k < length ops \<longrightarrow> s \<noteq> kOk) \<and> landed' = landed @ evs \<and>
     map ce_key evs = map so_key (take k ops) \<and> list_all (\<lambda>op. published op w) (take k ops))"
proof (induction ops arbitrary: landed w)
  case (Cons op ops)
  obtain r w1 where e: "ensure_mapped os (so_remote_key op) w = (r, w1)" by fastforce
  note k = ensure_mapped_keeps [OF e] and pub = published_ensure_mapped [OF e]
  show ?case
  proof (cases r)
    case (Inl s1)
    with e have "s1 \<noteq> kOk" by (cases rule: ensure_mapped_cases) auto
    with Cons.prems e Inl k pub show ?thesis by auto
  next
    case (Inr im)
    show ?thesis
    proof (cases "remote_address op im")
      case (Inl s1)
      then have "s1 \<noteq> kOk" by (auto simp: remote_address_def Let_def split: if_splits)
      with Cons.prems e Inr Inl k pub show ?thesis by auto
    next
      case r: (Inr a)
      let ?f = "if so_kind op = kRead then dev_copy_nowait os (so_local_addr op) a (so_length op)
                       else dev_copy_nowait os a (so_local_addr op) (so_length op)"
      obtain cs w2 where y: "sys ?f w1 = (cs, w2)" by fastforce
      let ?w = "upd_ip (count_copy op cs) w2"
      have "copy_ops os ops (landed @ [copy_event op cs]) ?w = (s, landed', w')" using Cons.prems e Inr r y by simp
      note ih = Cons.IH [OF this]
      have w: "comps ?w = comps w" "ipc_peer_alive ?w = ipc_peer_alive w" "published q ?w = published q w" for q
        using k pub [of q] sys_prov [OF y] by (simp_all add: count_copy_def ipc_peer_alive_def published_def)
      from e Inr remote_address_in_region(1) [OF r] have p: "published op w"
        by (cases rule: ensure_mapped_cases) (auto simp: published_def)
      from ih obtain n evs where n: "n \<le> length ops" "n < length ops \<longrightarrow> s \<noteq> kOk" "landed' = landed @ copy_event op cs # evs"
        "map ce_key evs = map so_key (take n ops)" "list_all (\<lambda>op. published op w) (take n ops)" using w by auto
      have "ce_key (copy_event op cs) = so_key op" by (simp add: ce_key_def so_key_def copy_event_def)
      then have "\<exists>k evs. k \<le> length (op # ops) \<and> (k < length (op # ops) \<longrightarrow> s \<noteq> kOk) \<and> landed' = landed @ evs \<and>
        map ce_key evs = map so_key (take k (op # ops)) \<and> list_all (\<lambda>op. published op w) (take k (op # ops))"
        using n p by (intro exI [of _ "Suc n"] exI [of _ "copy_event op cs # evs"]) simp
      with ih w show ?thesis by simp
    qed
  qed
qed simp

definition ipc_outstanding :: "'x ipc_world \<Rightarrow> (request_id \<times> u64) multiset" where
  "ipc_outstanding w = mset (map ce_key (comps w))"

lemma ce_key_unsettled [simp]: "ce_key (unsettled ss ev) = ce_key ev"
  by (simp add: unsettled_def ce_key_def)

lemma ipc_submit_spec:
  assumes "ipc_submit os c ops w = (r, w')"
  shows "sr_accepted r \<le> length ops \<and> (sr_accepted r < length ops \<longrightarrow> sr_status r \<noteq> kOk) \<and>
    ipc_outstanding w' = ipc_outstanding w + mset (map so_key (take (sr_accepted r) ops)) \<and>
    (0 < sr_accepted r \<longrightarrow> ipc_peer_alive w') \<and> list_all (\<lambda>op. published op w') (take (sr_accepted r) ops)"
proof (cases "c = None")
  case True
  with assms show ?thesis by (auto simp: ipc_submit_def)
next
  case False
  obtain n w1 where t: "sys (os_turns os) w = (n, w1)" by fastforce
  let ?w2 = "await_published os (ip_sock (iw_prov w1)) ops n w1"
  have c2: "comps ?w2 = comps w" using sys_prov [OF t] by (simp add: ipc_keeps)
  show ?thesis
  proof (cases "ipc_peer_alive ?w2")
    case False
    with assms \<open>c \<noteq> None\<close> t c2 show ?thesis by (auto simp: ipc_submit_def Let_def ipc_outstanding_def)
  next
    case True
    obtain s landed w3 where cp: "copy_ops os ops [] ?w2 = (s, landed, w3)" by (metis prod.collapse)
    from copy_ops_spec [OF cp] True obtain k where k: "k \<le> length ops" "k < length ops \<longrightarrow> s \<noteq> kOk"
      "map ce_key landed = map so_key (take k ops)" "list_all (\<lambda>op. published op w3) (take k ops)"
      "comps w3 = comps w" "ipc_peer_alive w3" using c2 by auto
    then have l: "length landed = k" by (metis length_map length_take min.absorb2)
    show ?thesis
    proof (cases "landed = []")
      case True
      with assms \<open>c \<noteq> None\<close> t \<open>ipc_peer_alive ?w2\<close> cp k l show ?thesis
        by (auto simp: ipc_submit_def Let_def ipc_outstanding_def)
    next
      case ne: False
      obtain ss w4 where y: "sys (dev_settle os) w3 = (ss, w4)" by fastforce
      let ?evs = "if ss \<noteq> kOk then map (unsettled ss) landed else landed"
      have r: "r = \<lparr>sr_accepted = k, sr_status = (if ss \<noteq> kOk then ss else s), sr_errno = 0\<rparr>"
        "w' = upd_ip (\<lambda>p. p\<lparr>ip_completions := ip_completions p @ ?evs\<rparr>) w4"
        using assms \<open>c \<noteq> None\<close> t True cp ne y l by (simp_all add: ipc_submit_def Let_def)
      have "map ce_key ?evs = map so_key (take k ops)" using k(3) by (simp add: o_def)
      with k sys_prov [OF y] show ?thesis
        by (simp add: r ipc_outstanding_def ipc_peer_alive_def published_def flip: mset_map)
    qed
  qed
qed

lemma ipc_region_keeps [ipc_keeps]:
  "comps (snd (ipc_register_region os a len dev acc w)) = comps w" "comps (snd (ipc_deregister_region os key w)) = comps w"
  by (auto simp: ipc_register_region_def ipc_deregister_region_def Let_def ipc_keeps sys_prov comps_send_frame_eq
      split: prod.split)

lemma ipc_control_keeps [ipc_keeps]:
  "comps (snd (ipc_send_control os c t pl w)) = comps w" "comps (snd (ipc_broadcast_control os t pl w)) = comps w"
  "comps (snd (ipc_poll_control os n w)) = comps w" "comps (snd (ipc_disconnect os cn w)) = comps w"
  by (auto simp: ipc_send_control_def ipc_broadcast_control_def ipc_poll_control_def ipc_disconnect_def Let_def ipc_keeps
      comps_send_frame_eq split: prod.split)

lemma ipc_connect_keeps [ipc_keeps]: "comps (snd (ipc_connect os md w)) = comps w"
  by (auto simp: ipc_connect_def ipc_keeps sys_prov split: option.split prod.split)

lemma same_outstanding: "comps (snd (f w)) = comps w \<Longrightarrow> f w = (x, w') \<Longrightarrow> ipc_outstanding w' = ipc_outstanding w"
  by (simp add: ipc_outstanding_def)

text \<open>Whatever the kernel and the driver do, the transport keeps its contract.\<close>

interpretation ipc: transport_provider "ipc_ops os" "\<lambda>w. True" ipc_outstanding for os
proof
  fix w n s evs w'
  assume "po_poll (ipc_ops os) n w = ((s, evs), w')"
  then have "evs = take n (comps w)" "comps w' = drop n (comps w)" by (auto simp: ipc_ops_def ipc_poll_def Let_def)
  then show "True \<and> ipc_outstanding w = mset (map ce_key evs) + ipc_outstanding w'"
    unfolding ipc_outstanding_def by (metis append_take_drop_id map_append mset_append)
next
  fix w c xs r w'
  assume "po_submit (ipc_ops os) c xs w = (r, w')"
  then have "ipc_submit os c xs w = (r, w')" by (simp add: ipc_ops_def)
  from ipc_submit_spec [OF this]
  show "True \<and> sr_accepted r \<le> length xs \<and> ipc_outstanding w' = ipc_outstanding w + mset (map so_key (take (sr_accepted r) xs))"
    and "sr_accepted r < length xs \<Longrightarrow> sr_status r \<noteq> kOk" by simp_all
qed (simp_all add: ipc_ops_def same_outstanding [OF ipc_region_keeps(1)] same_outstanding [OF ipc_region_keeps(2)]
    same_outstanding [OF ipc_connect_keeps] same_outstanding [OF ipc_control_keeps(1)]
    same_outstanding [OF ipc_control_keeps(2)] same_outstanding [OF ipc_control_keeps(3)]
    same_outstanding [OF ipc_control_keeps(4)])

end
