(* ===== verification/Hux_IpcWire.thy ===== *)
theory Hux_IpcWire
  imports Hux_Ipc
begin

text \<open>
  The stream between two IPC providers: how the reader cuts it into frames, and what a transfer
  over a mapping may touch.
\<close>

section \<open>Reading at the front of a longer buffer\<close>

lemma get_le_front: "i + n \<le> length xs \<Longrightarrow> get_le n (xs @ ys) i = get_le n xs i"
  by (induction n arbitrary: i) (auto simp: nth_append)

lemma get_front:
  "i + 2 \<le> length xs \<Longrightarrow> get_u16 (xs @ ys) i = get_u16 xs i"
  "i + 4 \<le> length xs \<Longrightarrow> get_u32 (xs @ ys) i = get_u32 xs i"
  "i + 8 \<le> length xs \<Longrightarrow> get_u64 (xs @ ys) i = get_u64 xs i"
  "i + n \<le> length xs \<Longrightarrow> rd_range (xs @ ys) i n = rd_range xs i n"
  by (auto simp: get_u16_def get_u32_def get_u64_def get_le_front rd_range_def nth_append)

text \<open>More bytes behind what is in the buffer.\<close>

definition more_bytes :: "bytes \<Rightarrow> 'x ipc_world \<Rightarrow> 'x ipc_world" where
  "more_bytes b w = upd_ip (\<lambda>p. p\<lparr>ip_inbox := ip_inbox p @ b\<rparr>) w"

lemma sys_more: "sys f (more_bytes b w) = apsnd (more_bytes b) (sys f w)"
  by (simp add: sys_def more_bytes_def upd_ip_def split: prod.split)

lemma upd_more [simp]:
  "upd_ip (\<lambda>p. p\<lparr>ip_outbox := ob\<rparr>) (more_bytes b w) = more_bytes b (upd_ip (\<lambda>p. p\<lparr>ip_outbox := ob\<rparr>) w)"
  "upd_ip (\<lambda>p. p\<lparr>ip_control := ip_control p @ f (ip_peer_identity p) (ip_conn p)\<rparr>) (more_bytes b w) =
   more_bytes b (upd_ip (\<lambda>p. p\<lparr>ip_control := ip_control p @ f (ip_peer_identity p) (ip_conn p)\<rparr>) w)"
  "upd_ip (\<lambda>p. p\<lparr>ip_imported := g (ip_imported p)\<rparr>) (more_bytes b w) =
   more_bytes b (upd_ip (\<lambda>p. p\<lparr>ip_imported := g (ip_imported p)\<rparr>) w)"
  "upd_ip (\<lambda>p. p\<lparr>ip_withdraw_acks := h (ip_withdraw_acks p)\<rparr>) (more_bytes b w) =
   more_bytes b (upd_ip (\<lambda>p. p\<lparr>ip_withdraw_acks := h (ip_withdraw_acks p)\<rparr>) w)"
  by (simp_all add: more_bytes_def upd_ip_def)

lemma more_prov [simp]:
  "iw_prov (more_bytes b w) = (iw_prov w)\<lparr>ip_inbox := ip_inbox (iw_prov w) @ b\<rparr>"
  "iw_overrun (more_bytes b w) = iw_overrun w"
  by (simp_all add: more_bytes_def)

lemma send_frame_more: "send_frame os fd t body (more_bytes b w) = apsnd (more_bytes b) (send_frame os fd t body w)"
proof -
  obtain outs w1 where y: "sys (os_sends os fd) w = (outs, w1)" by fastforce
  obtain s ob where "post outs (frame t body) (ip_outbox (iw_prov w1)) = (s, ob)" by fastforce
  with y show ?thesis by (simp add: send_frame_def sys_more)
qed

lemma take_control_more:
  assumes "6 + unat len \<le> length (ip_inbox (iw_prov w))" "2 \<le> unat len"
  shows "take_control len (more_bytes b w) = map_option (more_bytes b) (take_control len w)"
proof -
  let ?i = "ip_inbox (iw_prov w)"
  have "get_u16 (?i @ b) 6 = get_u16 ?i 6" "rd_range (?i @ b) 8 (unat len - 2) = rd_range ?i 8 (unat len - 2)"
    using assms by (simp_all add: get_front)
  then show ?thesis
    by (cases "get_u16 ?i 6"; cases "rd_range ?i 8 (unat len - 2)") (simp_all add: take_control_def Let_def more_bytes_def upd_ip_def)
qed

lemma take_publish_more:
  assumes "6 + unat len \<le> length (ip_inbox (iw_prov w))" "42 \<le> unat len"
  shows "take_publish len (more_bytes b w) = map_option (more_bytes b) (take_publish len w)"
proof -
  let ?i = "ip_inbox (iw_prov w)"
  have r: "get_u64 (?i @ b) 6 = get_u64 ?i 6" "get_u64 (?i @ b) 14 = get_u64 ?i 14" "get_u64 (?i @ b) 22 = get_u64 ?i 22"
    "get_u64 (?i @ b) 30 = get_u64 ?i 30" "get_u64 (?i @ b) 38 = get_u64 ?i 38" "get_u16 (?i @ b) 46 = get_u16 ?i 46"
    using assms by (simp_all add: get_front)
  have h: "rd_range (?i @ b) 48 n = rd_range ?i 48 n" if "42 + n \<le> unat len" for n
    using assms that by (intro get_front(4)) simp
  obtain key a n off bytes hn where g: "get_u64 ?i 6 = Some key" "get_u64 ?i 14 = Some a" "get_u64 ?i 22 = Some n"
    "get_u64 ?i 30 = Some off" "get_u64 ?i 38 = Some bytes" "get_u16 ?i 46 = Some hn"
    using assms get_u64_in [of 6 ?i] get_u64_in [of 14 ?i] get_u64_in [of 22 ?i] get_u64_in [of 30 ?i] get_u64_in [of 38 ?i]
      get_u16_in [of 46 ?i] by auto
  show ?thesis
  proof (cases "42 + unat hn \<le> unat len")
    case True
    with r g h [OF True] show ?thesis by (cases "rd_range ?i 48 (unat hn)") (simp_all add: take_publish_def Let_def)
  next
    case False
    with r g show ?thesis by (simp add: take_publish_def Let_def)
  qed
qed

lemma take_withdraw_more:
  assumes "14 \<le> length (ip_inbox (iw_prov w))"
  shows "take_withdraw os fd (more_bytes b w) = map_option (more_bytes b) (take_withdraw os fd w)"
    "take_withdraw_ack (more_bytes b w) = map_option (more_bytes b) (take_withdraw_ack w)"
proof -
  let ?i = "ip_inbox (iw_prov w)"
  have r: "get_u64 (?i @ b) 6 = get_u64 ?i 6" using assms by (intro get_front(3)) simp
  obtain key where k: "get_u64 ?i 6 = Some key" using get_u64_in [of 6 ?i] assms by auto
  show "take_withdraw os fd (more_bytes b w) = map_option (more_bytes b) (take_withdraw os fd w)"
    using r k by (cases "map_of (ip_imported (iw_prov w)) key") (simp_all add: take_withdraw_def Let_def sys_more send_frame_more)
  show "take_withdraw_ack (more_bytes b w) = map_option (more_bytes b) (take_withdraw_ack w)"
    using r k by (simp add: take_withdraw_ack_def more_bytes_def upd_ip_def)
qed

lemma take_frame_more:
  assumes "6 + unat len \<le> length (ip_inbox (iw_prov w))"
  shows "take_frame os fd len t (more_bytes b w) = map_option (more_bytes b) (take_frame os fd len t w)"
  using assms take_control_more [OF assms, of b] take_publish_more [OF assms, of b] take_withdraw_more(1) [of w os fd b]
    take_withdraw_more(2) [of w b]
  by (auto simp: take_frame_def word_le_nat_alt)

section \<open>Cutting the stream\<close>

text \<open>One turn of the loop when a whole frame is there.\<close>

lemma parse_whole:
  assumes "6 \<le> length (ip_inbox (iw_prov w))" "get_u32 (ip_inbox (iw_prov w)) 0 = Some len"
    "get_u16 (ip_inbox (iw_prov w)) 4 = Some t" "6 + unat len \<le> length (ip_inbox (iw_prov w))"
    "take_frame os fd len t w = Some w1"
  shows "parse_frames os fd w = parse_frames os fd (upd_ip (\<lambda>p. p\<lparr>ip_inbox := drop (6 + unat len) (ip_inbox (iw_prov w))\<rparr>) w1)"
proof -
  have "unat (6 + len) \<le> 6 + unat len" by (simp add: unat_word_ariths)
  with assms show ?thesis by (subst parse_frames.simps) (simp add: Let_def)
qed

lemma parse_waits:
  assumes "length (ip_inbox (iw_prov w)) < 6 \<or>
    (\<exists>len t. get_u32 (ip_inbox (iw_prov w)) 0 = Some len \<and> get_u16 (ip_inbox (iw_prov w)) 4 = Some t \<and>
      length (ip_inbox (iw_prov w)) < unat (6 + len))"
  shows "parse_frames os fd w = w"
  using assms by (subst parse_frames.simps) (auto simp: Let_def)

lemma parse_cases:
  obtains (waits) "parse_frames os fd w = w" "length (ip_inbox (iw_prov w)) < 6"
  | (partial) len where "parse_frames os fd w = w" "6 \<le> length (ip_inbox (iw_prov w))"
      "get_u32 (ip_inbox (iw_prov w)) 0 = Some len" "length (ip_inbox (iw_prov w)) < unat (6 + len)"
  | (leaves) len t where "iw_overrun (parse_frames os fd w)" "6 \<le> length (ip_inbox (iw_prov w))"
      "get_u32 (ip_inbox (iw_prov w)) 0 = Some len" "\<not> length (ip_inbox (iw_prov w)) < unat (6 + len)"
      "take_frame os fd len t w = None \<or> length (ip_inbox (iw_prov w)) < 6 + unat len"
  | (whole) len t w1 where "6 \<le> length (ip_inbox (iw_prov w))" "get_u32 (ip_inbox (iw_prov w)) 0 = Some len"
      "get_u16 (ip_inbox (iw_prov w)) 4 = Some t" "6 + unat len \<le> length (ip_inbox (iw_prov w))"
      "take_frame os fd len t w = Some w1" "\<not> length (ip_inbox (iw_prov w)) < unat (6 + len)"
proof (cases "length (ip_inbox (iw_prov w)) < 6")
  case True
  then show thesis using waits parse_waits by blast
next
  case False
  then obtain len t where h: "get_u32 (ip_inbox (iw_prov w)) 0 = Some len" "get_u16 (ip_inbox (iw_prov w)) 4 = Some t"
    using get_u32_in [of 0 "ip_inbox (iw_prov w)"] get_u16_in [of 4 "ip_inbox (iw_prov w)"] by auto
  show thesis
  proof (cases "length (ip_inbox (iw_prov w)) < unat (6 + len)")
    case True
    with h False parse_waits [of w] show thesis by (intro partial) auto
  next
    case n: False
    show thesis
    proof (cases "take_frame os fd len t w")
      case None
      with h False n have "iw_overrun (parse_frames os fd w)"
        by (subst parse_frames.simps) (simp add: Let_def overrun_def)
      with h False n None show thesis by (intro leaves) auto
    next
      case (Some w1)
      show thesis
      proof (cases "length (ip_inbox (iw_prov w)) < 6 + unat len")
        case True
        with h False n Some have "iw_overrun (parse_frames os fd w)"
          by (subst parse_frames.simps) (simp add: Let_def overrun_def)
        with h False n True show thesis by (intro leaves) auto
      qed (use h False n Some in \<open>intro whole, auto\<close>)
    qed
  qed
qed

lemma parse_more:
  "\<not> iw_overrun (parse_frames os fd w) \<Longrightarrow>
   parse_frames os fd (more_bytes b (parse_frames os fd w)) = parse_frames os fd (more_bytes b w)"
proof (induction "length (ip_inbox (iw_prov w))" arbitrary: w rule: less_induct)
  case less
  show ?case
  proof (cases rule: parse_cases [of os fd w])
    case (whole len t w1)
    let ?d = "drop (6 + unat len) (ip_inbox (iw_prov w))"
    let ?w = "upd_ip (\<lambda>p. p\<lparr>ip_inbox := ?d\<rparr>) w1"
    have p: "parse_frames os fd w = parse_frames os fd ?w" using whole(1-5) by (rule parse_whole)
    have "parse_frames os fd (more_bytes b w) =
      parse_frames os fd (upd_ip (\<lambda>p. p\<lparr>ip_inbox := ?d @ b\<rparr>) (more_bytes b w1))"
      using whole take_frame_more [OF whole(4), of os fd t b] get_front(1) [of 4 "ip_inbox (iw_prov w)" b]
        get_front(2) [of 0 "ip_inbox (iw_prov w)" b] parse_whole [of "more_bytes b w" len t os fd "more_bytes b w1"] by simp
    also have "upd_ip (\<lambda>p. p\<lparr>ip_inbox := ?d @ b\<rparr>) (more_bytes b w1) = more_bytes b ?w"
      by (simp add: more_bytes_def upd_ip_def)
    finally show ?thesis using less.hyps [of ?w] less.prems whole(1) p by simp
  qed (use less.prems in simp_all)
qed

section \<open>Lengths that do not fit\<close>

text \<open>
  Where the 32-bit sum of the length check wraps: some frame before the first incomplete one has
  a length of \<open>0xFFFFFFFA\<close> or more.
\<close>

function bad_length :: "bytes \<Rightarrow> bool" where
  "bad_length bs = (if length bs < 6 then False
     else case get_u32 bs 0 of
       None \<Rightarrow> False
     | Some len \<Rightarrow> 0xFFFFFFFA \<le> len \<or> 6 + unat len \<le> length bs \<and> bad_length (drop (6 + unat len) bs))"
  by pat_completeness auto

termination bad_length
  by (relation "measure length") auto

declare bad_length.simps [simp del]

lemma six_plus:
  fixes len :: u32
  shows "unat (6 + len) = (if 0xFFFFFFFA \<le> len then unat len - 0xFFFFFFFA else 6 + unat len)"
proof -
  have "unat len < 2 ^ 32" using unat_less [of len] by simp
  then show ?thesis by (auto simp: unat_word_ariths word_le_nat_alt mod_if)
qed

lemma take_frame_in:
  assumes "6 + unat len \<le> length (ip_inbox (iw_prov w))"
  obtains w1 where "take_frame os fd len t w = Some w1" "iw_overrun w1 = iw_overrun w"
proof -
  let ?i = "ip_inbox (iw_prov w)"
  have sf: "iw_overrun (snd (send_frame os fd t body x)) = iw_overrun x" for t body x
    by (auto simp: send_frame_def sys_def split: prod.split)
  have "\<exists>w1. take_control len w = Some w1 \<and> iw_overrun w1 = iw_overrun w" if "2 \<le> unat len"
    using assms that get_u16_in [of 6 ?i] by (auto simp: take_control_def Let_def)
  moreover have "\<exists>w1. take_publish len w = Some w1 \<and> iw_overrun w1 = iw_overrun w" if l: "42 \<le> unat len"
  proof -
    obtain key a n off bytes hn where g: "get_u64 ?i 6 = Some key" "get_u64 ?i 14 = Some a" "get_u64 ?i 22 = Some n"
      "get_u64 ?i 30 = Some off" "get_u64 ?i 38 = Some bytes" "get_u16 ?i 46 = Some hn"
      using assms l get_u64_in [of 6 ?i] get_u64_in [of 14 ?i] get_u64_in [of 22 ?i] get_u64_in [of 30 ?i]
        get_u64_in [of 38 ?i] get_u16_in [of 46 ?i] by auto
    with assms show ?thesis by (cases "42 + unat hn \<le> unat len") (simp_all add: take_publish_def Let_def)
  qed
  moreover have "\<exists>w1. take_withdraw os fd w = Some w1 \<and> iw_overrun w1 = iw_overrun w"
    "\<exists>w1. take_withdraw_ack w = Some w1 \<and> iw_overrun w1 = iw_overrun w" if "8 \<le> unat len"
    using assms that get_u64_in [of 6 ?i] sys_def
    by (auto simp: take_withdraw_def take_withdraw_ack_def Let_def sf sys_def split: option.split prod.split)
  moreover have "2 \<le> len \<longleftrightarrow> 2 \<le> unat len" "8 \<le> len \<longleftrightarrow> 8 \<le> unat len" "42 \<le> len \<longleftrightarrow> 42 \<le> unat len"
    by (simp_all add: word_le_nat_alt)
  ultimately have "\<exists>w1. take_frame os fd len t w = Some w1 \<and> iw_overrun w1 = iw_overrun w"
    by (simp add: take_frame_def)
  then show thesis using that by blast
qed

lemma overrun_iff:
  "length (ip_inbox (iw_prov w)) < 0xFFFFFFFA \<Longrightarrow>
   iw_overrun (parse_frames os fd w) \<longleftrightarrow> iw_overrun w \<or> bad_length (ip_inbox (iw_prov w))"
proof (induction "length (ip_inbox (iw_prov w))" arbitrary: w rule: less_induct)
  case less
  let ?i = "ip_inbox (iw_prov w)"
  show ?case
  proof (cases rule: parse_cases [of os fd w])
    case waits
    then show ?thesis by (simp add: bad_length.simps)
  next
    case (partial len)
    then have "\<not> 0xFFFFFFFA \<le> len" using six_plus [of len] unat_less [of len] by (auto split: if_splits)
    with partial show ?thesis by (simp add: bad_length.simps [of ?i] six_plus)
  next
    case (leaves len t)
    have "0xFFFFFFFA \<le> len"
    proof (rule ccontr)
      assume "\<not> 0xFFFFFFFA \<le> len"
      with leaves(4) have "6 + unat len \<le> length ?i" by (simp add: six_plus)
      with leaves(5) take_frame_in [of len w os fd t] show False by auto
    qed
    with leaves show ?thesis by (simp add: bad_length.simps [of ?i])
  next
    case (whole len t w1)
    have s: "\<not> 0xFFFFFFFA \<le> len" using whole(4) less.prems by (simp add: word_le_nat_alt)
    let ?w = "upd_ip (\<lambda>p. p\<lparr>ip_inbox := drop (6 + unat len) ?i\<rparr>) w1"
    have o: "iw_overrun w1 = iw_overrun w" using whole(5) take_frame_in [OF whole(4), of os fd t] by auto
    have "parse_frames os fd w = parse_frames os fd ?w" using whole(1-5) by (rule parse_whole)
    with less.hyps [of ?w] less.prems whole(1,2,4) s o show ?thesis by (simp add: bad_length.simps [of ?i])
  qed
qed

section \<open>Control messages\<close>

definition control_frame :: "u16 \<times> bytes \<Rightarrow> bytes" where
  "control_frame m = frame kFrameControl (put_u16 (fst m) @ snd m)"

definition control_of :: "ipc_prov \<Rightarrow> u16 \<times> bytes \<Rightarrow> control_message" where
  "control_of p m = \<lparr>cm_peer = id_process (ip_peer_identity p), cm_type = fst m, cm_payload = snd m, cm_conn = ip_conn p\<rparr>"

abbreviation with_inbox :: "bytes \<Rightarrow> 'x ipc_world \<Rightarrow> 'x ipc_world" where
  "with_inbox bs w \<equiv> upd_ip (\<lambda>p. p\<lparr>ip_inbox := bs\<rparr>) w"

abbreviation with_control :: "control_message list \<Rightarrow> 'x ipc_world \<Rightarrow> 'x ipc_world" where
  "with_control ms w \<equiv> upd_ip (\<lambda>p. p\<lparr>ip_control := ip_control p @ ms\<rparr>) w"

lemma length_frame [simp]: "length (frame t body) = 6 + length body"
  by (simp add: frame_def)

lemma unat_length_body: "length body < 2 ^ 32 \<Longrightarrow> unat (word_of_nat (length body) :: u32) = length body"
  by (simp add: unat_of_nat take_bit_eq_mod)

lemma frame_header:
  "get_u32 (frame t body @ rest) 0 = Some (word_of_nat (length body))" "get_u16 (frame t body @ rest) 4 = Some t"
  by (simp_all add: frame_def codec_rt)

lemma parse_control_frame:
  assumes "length (snd m) + 8 < 2 ^ 32"
  shows "parse_frames os fd (with_inbox (control_frame m @ rest) w) =
    parse_frames os fd (with_inbox rest (with_control [control_of (iw_prov w) m] w))"
proof -
  let ?body = "put_u16 (fst m) @ snd m" and ?w = "with_inbox (control_frame m @ rest) w"
  let ?len = "word_of_nat (length ?body) :: u32"
  have len: "unat ?len = length ?body" using assms by (intro unat_length_body) simp
  have reads: "get_u16 (frame kFrameControl ?body @ rest) 6 = Some (fst m)"
    "rd_range (frame kFrameControl ?body @ rest) 8 (length (snd m)) = Some (snd m)"
    by (simp_all add: frame_def codec_rt)
  have "2 \<le> ?len" using len by (simp add: word_le_nat_alt)
  then have "take_frame os fd ?len kFrameControl ?w = Some (with_control [control_of (iw_prov w) m] ?w)"
    using len reads by (simp add: take_frame_def take_control_def control_frame_def control_of_def Let_def upd_ip_def)
  from parse_whole [OF _ _ _ _ this] len
  have "parse_frames os fd ?w = parse_frames os fd (with_inbox (drop (6 + length ?body) (control_frame m @ rest))
      (with_control [control_of (iw_prov w) m] ?w))"
    by (simp add: control_frame_def frame_header)
  also have "drop (6 + length ?body) (control_frame m @ rest) = rest" by (simp add: control_frame_def)
  finally show ?thesis by (simp add: upd_ip_def)
qed

lemma parse_part:
  assumes "bs @ rest = control_frame m" "rest \<noteq> []" "length (snd m) + 8 < 2 ^ 32"
  shows "parse_frames os fd (with_inbox bs w) = with_inbox bs w"
proof (rule parse_waits)
  have l: "length bs < length (control_frame m)" using assms(1,2) by (metis append_Nil2 append_eq_append_conv_if append_take_drop_id le_neq_implies_less length_append le_add1 not_less)
  let ?body = "put_u16 (fst m) @ snd m"
  let ?len = "word_of_nat (length ?body) :: u32"
  have u: "unat ?len = length ?body" using assms(3) by (intro unat_length_body) simp
  then have "unat (6 + ?len) = 6 + length ?body"
    using assms(3) by (subst six_plus) (simp add: word_le_nat_alt)
  moreover have "get_u32 bs 0 = Some ?len" "get_u16 bs 4 = Some kFrameControl" if "6 \<le> length bs"
    using that get_front(2) [of 0 bs rest] get_front(1) [of 4 bs rest] frame_header [of kFrameControl ?body "[]"] assms(1)
    by (simp_all add: control_frame_def)
  ultimately show "length (ip_inbox (iw_prov (with_inbox bs w))) < 6 \<or>
    (\<exists>len t. get_u32 (ip_inbox (iw_prov (with_inbox bs w))) 0 = Some len \<and>
      get_u16 (ip_inbox (iw_prov (with_inbox bs w))) 4 = Some t \<and>
      length (ip_inbox (iw_prov (with_inbox bs w))) < unat (6 + len))"
    using l by (cases "length bs < 6") (auto simp: control_frame_def)
qed

lemma parse_control_stream:
  "prefix bs (concat (map control_frame ms)) \<Longrightarrow> list_all (\<lambda>m. length (snd m) + 8 < 2 ^ 32) ms \<Longrightarrow>
   \<exists>k rest. k \<le> length ms \<and> bs = concat (map control_frame (take k ms)) @ rest \<and>
     (k = length ms \<or> length rest < length (control_frame (ms ! k))) \<and>
     parse_frames os fd (with_inbox bs w) = with_inbox rest (with_control (map (control_of (iw_prov w)) (take k ms)) w)"
proof (induction ms arbitrary: bs w)
  case Nil
  then have "bs = []" by simp
  then show ?case using parse_waits [of "with_inbox [] w"] by (intro exI [of _ 0] exI [of _ "[]"]) (simp add: upd_ip_def)
next
  case (Cons m ms)
  have m: "length (snd m) + 8 < 2 ^ 32" using Cons.prems(2) by simp
  have "prefix bs (control_frame m) \<and> bs \<noteq> control_frame m \<or> (\<exists>bs'. bs = control_frame m @ bs' \<and> prefix bs' (concat (map control_frame ms)))"
    using Cons.prems(1) by (auto simp: prefix_append)
  then show ?case
  proof
    assume b: "prefix bs (control_frame m) \<and> bs \<noteq> control_frame m"
    then obtain rest where r: "control_frame m = bs @ rest" "rest \<noteq> []" by (auto elim: prefixE)
    from parse_part [OF r(1) [symmetric] r(2) m] r show ?thesis
      by (intro exI [of _ 0] exI [of _ bs]) (simp add: upd_ip_def)
  next
    assume "\<exists>bs'. bs = control_frame m @ bs' \<and> prefix bs' (concat (map control_frame ms))"
    then obtain bs' where b: "bs = control_frame m @ bs'" "prefix bs' (concat (map control_frame ms))" by blast
    let ?w = "with_control [control_of (iw_prov w) m] w"
    obtain k rest where k: "k \<le> length ms" "bs' = concat (map control_frame (take k ms)) @ rest"
      "k = length ms \<or> length rest < length (control_frame (ms ! k))"
      "parse_frames os fd (with_inbox bs' ?w) = with_inbox rest (with_control (map (control_of (iw_prov ?w)) (take k ms)) ?w)"
      using Cons.IH [OF b(2), of ?w] Cons.prems(2) by auto
    have "control_of (iw_prov ?w) = control_of (iw_prov w)" by (simp add: control_of_def fun_eq_iff)
    with k parse_control_frame [OF m, of os fd bs' w] b(1) show ?thesis
      by (intro exI [of _ "Suc k"] exI [of _ rest]) (simp add: upd_ip_def)
  qed
qed

section \<open>A peer that went\<close>

abbreviation gone :: "'x ipc_world \<Rightarrow> bool" where
  "gone w \<equiv> ip_peer_gone (iw_prov w)"

named_theorems stays_gone \<open>what keeps \<open>peer_gone_\<close> set\<close>

lemma gone_send_frame [stays_gone]: "gone (snd (send_frame os fd t body w)) = gone w"
  by (auto simp: send_frame_def sys_prov split: prod.split)

lemma gone_peer_is_gone [stays_gone]: "gone w \<Longrightarrow> peer_is_gone_locked os w = w"
  by (simp add: peer_is_gone_locked_def)

lemma gone_publish_all [stays_gone]: "gone w \<Longrightarrow> gone (publish_all os fd w)"
proof -
  have "gone w \<Longrightarrow> gone (publish_each os fd xs w)" for xs
  proof (induction xs arbitrary: w)
    case (Cons x xs)
    obtain key e where x: "x = (key, e)" by fastforce
    obtain s w1 where f: "send_frame os fd kFramePublish (publish_body key e) w = (s, w1)" by fastforce
    then have "gone w1" using gone_send_frame [of os fd kFramePublish "publish_body key e" w] Cons.prems by simp
    with f x Cons.IH show ?case by (simp add: stays_gone)
  qed simp
  then show "gone w \<Longrightarrow> gone (publish_all os fd w)" by (simp add: publish_all_def)
qed

lemma gone_take_frame: "take_frame os fd len t w = Some w' \<Longrightarrow> gone w' = gone w"
  by (auto simp: take_frame_def take_control_def take_publish_def take_withdraw_def take_withdraw_ack_def Let_def
      stays_gone sys_keeps split: if_splits option.splits bind_splits)

lemma gone_parse_frames [stays_gone]: "gone (parse_frames os fd w) = gone w"
proof (induction os fd w rule: parse_frames.induct)
  case (1 os fd w)
  show ?case
    by (subst parse_frames.simps) (auto simp: Let_def overrun_def gone_take_frame 1 split: option.split)
qed

lemma gone_pump [stays_gone]: "gone w \<Longrightarrow> gone (snd (pump os fd w))"
  by (auto simp: pump_def Let_def stays_gone sys_prov split: prod.split)

lemma gone_await_published [stays_gone]: "gone w \<Longrightarrow> gone (await_published os fd ops n w)"
  by (induction n arbitrary: w) (simp_all add: await_published.simps Let_def stays_gone)

lemma gone_establish [stays_gone]: "gone w \<Longrightarrow> gone (snd (establish os fd w))"
proof -
  assume g: "gone w"
  obtain s w1 where h: "handshake os fd w = (s, w1)" by fastforce
  then have "gone w1" using g by (auto simp: handshake_def sys_prov split: prod.splits if_splits sum.splits)
  with h show ?thesis by (simp add: establish_def Let_def stays_gone)
qed

lemma gone_connect [stays_gone]: "gone w \<Longrightarrow> gone (snd (ipc_connect os md w))"
  by (auto simp: ipc_connect_def stays_gone sys_prov split: option.split prod.split)

lemma gone_accept: "gone w \<Longrightarrow> ipc_accept os t turns w = Some (r, w') \<Longrightarrow> gone w'"
proof (induction os t turns w rule: ipc_accept.induct)
  case (2 os t fd ts w)
  then show ?case using gone_establish [of w os fd] by (auto split: if_splits)
qed (auto split: if_splits)

lemma gone_drop_peer [stays_gone]: "gone (drop_peer os w) = gone w"
proof -
  have "gone (close_mappings os xs w) = gone w" for xs
    by (induction os xs w rule: close_mappings.induct) (auto simp: sys_prov split: prod.split)
  then show ?thesis by (simp add: drop_peer_def Let_def)
qed

lemma gone_regions [stays_gone]:
  assumes "gone w"
  shows "gone (snd (ipc_register_region os a len dev acc w))" "gone (snd (ipc_deregister_region os key w))"
proof -
  have ack: "gone v \<Longrightarrow> gone (snd (await_ack os key n v))" for n v
    by (induction n arbitrary: v) (simp_all add: Let_def stays_gone)
  have sent: "send_frame os fd t body v = (s, v') \<Longrightarrow> gone v' = gone v" for fd t body v s v'
    using gone_send_frame [of os fd t body v] by simp
  show "gone (snd (ipc_register_region os a len dev acc w))"
    using assms by (auto simp: ipc_register_region_def Let_def sys_prov stays_gone split: prod.split dest!: sent)
  show "gone (snd (ipc_deregister_region os key w))"
    using assms by (auto simp: ipc_deregister_region_def Let_def sys_prov split: prod.split intro!: ack dest!: sent)
qed

lemma gone_refused:
  assumes "gone w"
  shows "gone (snd (ipc_submit os conn ops w))"
    "fst (ipc_submit os (Some c) ops w) = \<lparr>sr_accepted = 0, sr_status = kPeerDisconnected, sr_errno = 0\<rparr>"
proof -
  obtain n x where t: "sys (os_turns os) w = (n, x)" by fastforce
  have "gone (await_published os (ip_sock (iw_prov x)) ops n x)"
    using assms sys_prov [OF t] by (intro gone_await_published) simp
  with t assms show "gone (snd (ipc_submit os conn ops w))"
    "fst (ipc_submit os (Some c) ops w) = \<lparr>sr_accepted = 0, sr_status = kPeerDisconnected, sr_errno = 0\<rparr>"
    by (auto simp: ipc_submit_def Let_def ipc_peer_alive_def)
qed

text \<open>What can be called on a transport that changes it.\<close>

inductive ipc_call :: "'x ipc_os \<Rightarrow> 'x ipc_world \<Rightarrow> 'x ipc_world \<Rightarrow> bool" for os where
  ic_connect: "ipc_call os w (snd (ipc_connect os md w))"
| ic_accept: "ipc_accept os timeout_ms turns w = Some (r, w') \<Longrightarrow> ipc_call os w w'"
| ic_disconnect: "ipc_call os w (snd (ipc_disconnect os c w))"
| ic_register: "ipc_call os w (snd (ipc_register_region os a len dev acc w))"
| ic_deregister: "ipc_call os w (snd (ipc_deregister_region os key w))"
| ic_submit: "ipc_call os w (snd (ipc_submit os conn ops w))"
| ic_poll: "ipc_call os w (snd (ipc_poll n w))"
| ic_send: "ipc_call os w (snd (ipc_send_control os conn t payload w))"
| ic_broadcast: "ipc_call os w (snd (ipc_broadcast_control os t payload w))"
| ic_poll_control: "ipc_call os w (snd (ipc_poll_control os n w))"

lemma gone_call: "ipc_call os w w' \<Longrightarrow> gone w \<Longrightarrow> gone w'"
proof (induction rule: ipc_call.induct)
  case (ic_accept timeout_ms turns w r w')
  then show ?case using gone_accept by blast
qed (simp_all add: stays_gone gone_refused ipc_disconnect_def ipc_poll_def ipc_send_control_def
    ipc_broadcast_control_def ipc_poll_control_def ipc_peer_alive_def Let_def)

lemma gone_calls: "(ipc_call os)\<^sup>*\<^sup>* w w' \<Longrightarrow> gone w \<Longrightarrow> gone w'"
  by (induction rule: rtranclp_induct) (blast intro: gone_call)+

section \<open>Properties\<close>

text \<open>A kernel and a driver for examples: sockets on which nothing more arrives, copies that succeed.\<close>

definition idle_os :: "unit ipc_os" where
  "idle_os = \<lparr>os_identity = \<lparr>id_host = 1, id_process = 2, id_engine = 3\<rparr>, os_bind = (\<lambda>n x. (3, x)),
     os_dial = (\<lambda>n x. (4, x)), os_close = (\<lambda>fd x. x), os_sends = (\<lambda>fd x. ([], x)), os_recvs = (\<lambda>fd x. ([], x)),
     os_turns = (\<lambda>x. (0, x)), dev_export_ipc = (\<lambda>a n x. ((kOk, \<lparr>ih_bytes = [], ih_offset = 0, ih_allocation_bytes = n\<rparr>), x)),
     dev_import_ipc = (\<lambda>h x. ((kOk, 0x5000), x)), dev_close_ipc = (\<lambda>a x. (kOk, x)),
     dev_copy_nowait = (\<lambda>d s n x. (kOk, x)), dev_settle = (\<lambda>x. (kOk, x))\<rparr>"

definition sample_ipc :: "unit ipc_world" where
  "sample_ipc = \<lparr>iw_os = (), iw_prov = (new_ipc_prov ''a'' 3)\<lparr>ip_sock := 4, ip_conn := Some 0,
     ip_outbox := reset 4 kDefaultLimit, ip_imported := [(1, \<lparr>im_peer_addr = 0x1000, im_length = 0x100,
       im_handle = \<lparr>ih_bytes = [], ih_offset = 0, ih_allocation_bytes = 0x100\<rparr>, im_mapped = 0\<rparr>)]\<rparr>,
     iw_next_conn = 1, iw_overrun = False\<rparr>"

definition sample_ipc_op :: subop where
  "sample_ipc_op = \<lparr>so_signal_peer = False, so_peer_token = 0, so_kind = kWrite, so_request = 7, so_sub_id = 0,
     so_local_addr = 0x9000, so_local_key = 1, so_remote_addr = 0x1010, so_remote_key = 1, so_length = 16\<rparr>"

text \<open>
  (C26) Whatever the kernel and the driver answer, every sub-operation the transport between processes accepts
  is reported exactly once: over any run of submissions and polls, what was accepted is what was
  reported and what is still to be polled.
\<close>

theorem ipc_completion_conservation:
  assumes "provider_run (ipc_ops os) cs w = (accepted, reported, w')"
  shows "ipc_outstanding w + mset accepted = mset reported + ipc_outstanding w'"
  using ipc.run_conserves [OF _ assms] by simp

theorem ipc_completion_conservation_witness:
  "\<exists>w'. provider_run (ipc_ops idle_os) [CallSubmit (Some 0) [sample_ipc_op], CallPoll 4] sample_ipc =
     ([(7, 0)], [(7, 0)], w') \<and> ipc_outstanding w' = {#}"
proof -
  let ?cs = "[CallSubmit (Some 0) [sample_ipc_op], CallPoll 4]"
  obtain w' where r: "provider_run (ipc_ops idle_os) ?cs sample_ipc = ([(7, 0)], [(7, 0)], w')"
    by (simp add: ipc_ops_def ipc_submit_def ipc_poll_def idle_os_def sample_ipc_def sample_ipc_op_def sys_def
        await_published.simps pump_def flush_def flush_locked_def flush_loop.simps reset_def parse_frames.simps
        new_ipc_prov_def upd_ip_def ipc_peer_alive_def have_all_def ensure_mapped_def remote_address_def
        copy_event_def count_copy_def so_key_def ce_key_def Let_def)
  have "ipc_outstanding sample_ipc = {#}" by (simp add: ipc_outstanding_def sample_ipc_def new_ipc_prov_def)
  with ipc_completion_conservation [OF r] r show ?thesis by simp
qed

text \<open>
  (C10) A transfer between processes stays within what the peer published: every sub-operation that is
  accepted names, by key and address, bytes of a region the peer has published and not withdrawn,
  and is accepted only while the peer is there. What does not is refused, with all behind it.
\<close>

theorem ipc_submit_within_published:
  assumes "ipc_submit os c ops w = (r, w')" "i < sr_accepted r"
  shows "ipc_peer_alive w' \<and> i < length ops \<and> (\<exists>im. map_of (ip_imported (iw_prov w')) (so_remote_key (ops ! i)) = Some im \<and>
    unat (im_peer_addr im) \<le> unat (so_remote_addr (ops ! i)) \<and>
    unat (so_remote_addr (ops ! i)) + unat (so_length (ops ! i)) \<le> unat (im_peer_addr im) + unat (im_length im))"
proof -
  note s = ipc_submit_spec [OF assms(1)]
  then have i: "i < length (take (sr_accepted r) ops)" using assms(2) by auto
  then have "ops ! i \<in> set (take (sr_accepted r) ops)" by (metis nth_mem nth_take length_take min_less_iff_conj)
  with s have "published (ops ! i) w'" by (simp add: list_all_iff)
  with s i assms(2) show ?thesis by (auto simp: published_def in_region_def word_le_nat_alt)
qed

theorem ipc_submit_within_published_witness:
  "\<exists>r w'. ipc_submit idle_os (Some 0) [sample_ipc_op, sample_ipc_op\<lparr>so_length := 0x100\<rparr>] sample_ipc = (r, w') \<and>
     sr_accepted r = 1 \<and> sr_status r = kInvalidArgument \<and> ipc_peer_alive w'"
proof -
  obtain r w' where s: "ipc_submit idle_os (Some 0) [sample_ipc_op, sample_ipc_op\<lparr>so_length := 0x100\<rparr>] sample_ipc = (r, w')"
    by fastforce
  then have "sr_accepted r = 1 \<and> sr_status r = kInvalidArgument"
    by (auto simp: ipc_submit_def idle_os_def sample_ipc_def sample_ipc_op_def sys_def
        await_published.simps pump_def flush_def flush_locked_def flush_loop.simps reset_def parse_frames.simps
        new_ipc_prov_def upd_ip_def ipc_peer_alive_def have_all_def ensure_mapped_def remote_address_def
        copy_event_def count_copy_def Let_def)
  with ipc_submit_within_published [OF s, of 0] s show ?thesis by auto
qed

text \<open>
  (C37) The control messages of a peer arrive whole and in order. If what has been received is any
  beginning of the frames the peer wrote, the reader has taken out exactly the messages that are
  complete, in the order they were sent, and keeps the rest of the bytes for the next read.
\<close>

theorem ipc_control_in_order:
  assumes "prefix bs (concat (map control_frame ms))" "list_all (\<lambda>m. length (snd m) + 8 < 2 ^ 32) ms"
  shows "\<exists>k\<le>length ms. \<exists>rest. bs = concat (map control_frame (take k ms)) @ rest \<and>
     (k = length ms \<or> length rest < length (control_frame (ms ! k))) \<and>
     ip_inbox (iw_prov (parse_frames os fd (with_inbox bs w))) = rest \<and>
     ip_control (iw_prov (parse_frames os fd (with_inbox bs w))) =
       ip_control (iw_prov w) @ map (control_of (iw_prov w)) (take k ms)"
  using parse_control_stream [OF assms, of os fd w] by auto

theorem ipc_control_in_order_witness:
  "ip_control (iw_prov (parse_frames idle_os 4 (with_inbox (control_frame (5, [1, 2]) @ [2]) sample_ipc))) =
     [control_of (iw_prov sample_ipc) (5, [1, 2])]"
proof -
  have e: "control_frame (6, []) = [2, 0, 0, 0, 0, 0, 6, 0]"
    by (simp add: control_frame_def frame_def kFrameControl_def put_u32_def put_u16_def put_le_def upt_rec)
  define ms :: "(u16 \<times> bytes) list" where "ms = [(5, [1, 2]), (6, [])]"
  define bs where "bs = control_frame (5, [1, 2]) @ [2]"
  have "prefix bs (concat (map control_frame ms))" "list_all (\<lambda>m. length (snd m) + 8 < 2 ^ 32) ms"
    by (simp_all add: e ms_def bs_def)
  from ipc_control_in_order [OF this, of idle_os 4 sample_ipc] obtain k rest where k: "k \<le> length ms"
    "bs = concat (map control_frame (take k ms)) @ rest" "k = length ms \<or> length rest < length (control_frame (ms ! k))"
    "ip_control (iw_prov (parse_frames idle_os 4 (with_inbox bs sample_ipc))) =
       ip_control (iw_prov sample_ipc) @ map (control_of (iw_prov sample_ipc)) (take k ms)" by blast
  have "k = 1"
  proof -
    have "k \<noteq> 0"
    proof
      assume "k = 0"
      with k(2,3) show False by (auto simp: ms_def bs_def control_frame_def)
    qed
    moreover have "k \<noteq> 2" using arg_cong [OF k(2), of length] by (auto simp: ms_def bs_def control_frame_def)
    ultimately show ?thesis using k(1) by (simp add: ms_def)
  qed
  with k(4) show ?thesis by (simp add: ms_def bs_def sample_ipc_def new_ipc_prov_def)
qed

text \<open>
  (C38) How the kernel cuts the stream into reads makes no difference: taking frames out of what is
  there, then receiving more and going on, gives the state that receiving it all at once gives,
  whatever the frames are and whatever is done for them.
\<close>

theorem ipc_stream_chunking:
  assumes "\<not> iw_overrun (parse_frames os fd w)"
  shows "parse_frames os fd (more_bytes b (parse_frames os fd w)) = parse_frames os fd (more_bytes b w)"
  using assms by (rule parse_more)

theorem ipc_stream_chunking_witness:
  "parse_frames idle_os 4 (more_bytes [7] (parse_frames idle_os 4 (with_inbox (put_u32 2 @ put_u16 0 @ [6]) sample_ipc))) =
   parse_frames idle_os 4 (more_bytes [7] (with_inbox (put_u32 2 @ put_u16 0 @ [6]) sample_ipc))"
proof (rule ipc_stream_chunking)
  have "\<not> bad_length (put_u32 2 @ put_u16 0 @ [6])" by (subst bad_length.simps) (simp add: codec_rt)
  then show "\<not> iw_overrun (parse_frames idle_os 4 (with_inbox (put_u32 2 @ put_u16 0 @ [6]) sample_ipc))"
    by (subst overrun_iff) (simp_all add: sample_ipc_def)
qed

text \<open>
  (C39) The reader leaves its buffer exactly when the 32-bit sum of the length check wraps: a length
  field of \<open>0xFFFFFFFA\<close> or more passes for a frame that is complete, and the bytes read for it
  are not in the buffer.
\<close>

theorem ipc_length_check_wraps:
  assumes "length (ip_inbox (iw_prov w)) < 0xFFFFFFFA" "\<not> iw_overrun w"
  shows "iw_overrun (parse_frames os fd w) \<longleftrightarrow> bad_length (ip_inbox (iw_prov w))"
  using overrun_iff [OF assms(1)] assms(2) by simp

theorem ipc_length_check_wraps_witness:
  "iw_overrun (parse_frames idle_os 4 (with_inbox (put_u32 0xFFFFFFFF @ put_u16 kFrameControl) sample_ipc))"
proof -
  have "bad_length (put_u32 0xFFFFFFFF @ put_u16 kFrameControl)"
    by (subst bad_length.simps) (simp add: codec_rt)
  with ipc_length_check_wraps [of "with_inbox (put_u32 0xFFFFFFFF @ put_u16 kFrameControl) sample_ipc" idle_os 4]
  show ?thesis by (simp add: sample_ipc_def)
qed

text \<open>
  (C40) A transport between processes whose peer went is of no more use. Whatever is called on it
  afterwards, dialling and accepting another peer and disconnecting included, and whatever the
  kernel, the driver and that peer answer, it goes on reporting that the peer is not there, and every
  submission on any connection is refused with \<open>kPeerDisconnected\<close>.
\<close>

theorem ipc_gone_for_good:
  assumes "ip_peer_gone (iw_prov w)" "(ipc_call os)\<^sup>*\<^sup>* w w'"
  shows "\<not> ipc_peer_alive w' \<and>
    fst (ipc_submit os (Some c) ops w') = \<lparr>sr_accepted = 0, sr_status = kPeerDisconnected, sr_errno = 0\<rparr>"
  using gone_calls [OF assms(2,1)] by (simp add: gone_refused ipc_peer_alive_def)

text \<open>A peer that answers the handshake, and a transport whose last peer went.\<close>

definition greeting_os :: "unit ipc_os" where
  "greeting_os = idle_os\<lparr>os_sends := (\<lambda>fd x. ([Sent 100], x)), os_recvs := (\<lambda>fd x. ([Got (hello idle_os)], x))\<rparr>"

definition lost_ipc :: "unit ipc_world" where
  "lost_ipc = upd_ip (\<lambda>p. p\<lparr>ip_peer_gone := True, ip_sock := -1\<rparr>) sample_ipc"

theorem ipc_gone_for_good_witness:
  "\<exists>c w1. ipc_connect greeting_os [1, 0, 97] lost_ipc = (Inr c, w1) \<and>
     sr_status (fst (ipc_submit greeting_os (Some c) [sample_ipc_op] w1)) = kPeerDisconnected"
proof -
  have l: "length (hello idle_os) = 28" "hello greeting_os = hello idle_os" by (simp_all add: hello_def greeting_os_def)
  have h: "recv_all [Got (hello idle_os)] 28 [] = Inr (hello idle_os)"
    using l by (cases "hello idle_os") (simp_all add: recv_all.simps)
  have k: "check_hello greeting_os (hello idle_os) = Inr (os_identity idle_os)"
    using decode_encode_identity_end [of 4 "put_u16 kIpcWireMajor @ put_u16 kIpcWireMinor" "os_identity idle_os"]
    by (simp add: check_hello_def hello_def codec_rt locality_of_def greeting_os_def)
  have s: "send_all [Sent 100] 28" by (simp add: send_all.simps taken_def)
  have g: "os_sends greeting_os = (\<lambda>fd x. ([Sent 100], x))" "os_recvs greeting_os = (\<lambda>fd x. ([Got (hello idle_os)], x))"
    by (simp_all add: greeting_os_def)
  obtain c w1 where c: "establish greeting_os 4 lost_ipc = (Inr c, w1)"
    using h k s l g by (simp add: establish_def handshake_def sys_def Let_def kIdentityBytes_def)
  have d: "os_dial greeting_os = (\<lambda>n x. (4, x))" "lost_ipc\<lparr>iw_os := ()\<rparr> = lost_ipc"
    by (simp_all add: greeting_os_def idle_os_def lost_ipc_def sample_ipc_def upd_ip_def)
  have "ipc_connect greeting_os [1, 0, 97] lost_ipc = establish greeting_os 4 lost_ipc"
    using d(1) by (simp add: ipc_connect_def get_u16_def sys_def) (simp only: d(2))
  with c have e: "ipc_connect greeting_os [1, 0, 97] lost_ipc = (Inr c, w1)" by simp
  then have "ipc_call greeting_os lost_ipc w1" using ic_connect [of greeting_os lost_ipc "[1, 0, 97]"] by simp
  then have "(ipc_call greeting_os)\<^sup>*\<^sup>* lost_ipc w1" by (rule r_into_rtranclp)
  moreover have "ip_peer_gone (iw_prov lost_ipc)" by (simp add: lost_ipc_def)
  ultimately show ?thesis using ipc_gone_for_good [of lost_ipc greeting_os w1 c "[sample_ipc_op]"] e by simp
qed

end
