(* ===== verification/Hux_Rdma.thy ===== *)
theory Hux_Rdma
  imports Hux_CC Hux_Outbox
begin

text \<open>
  transport/rdma/rdma_provider.*, the data path: planning, posting and signalling work requests over
  the queue pairs of a connection, and turning what the shared completion queue reports back into
  completions. The verbs library with the adapter behind it, the sockets and the clock are a record
  of functions over a state \<open>'x\<close> of its own; a queue pair is known by its number. A connection is
  its position in \<open>rp_conns\<close>. Methods are steps of the state, as the locks make them.
\<close>

unbundle bit_operations_syntax

section \<open>Verbs\<close>

datatype wc_status = WC_SUCCESS | WC_LOC_LEN_ERR | WC_LOC_PROT_ERR | WC_WR_FLUSH_ERR | WC_REM_INV_REQ_ERR
  | WC_REM_ACCESS_ERR | WC_REM_OP_ERR | WC_RETRY_EXC_ERR | WC_RNR_RETRY_EXC_ERR | WC_OTHER int

fun wc_code :: "wc_status \<Rightarrow> int" where
  "wc_code WC_SUCCESS = 0" | "wc_code WC_LOC_LEN_ERR = 1" | "wc_code WC_LOC_PROT_ERR = 4"
| "wc_code WC_WR_FLUSH_ERR = 5" | "wc_code WC_REM_INV_REQ_ERR = 9" | "wc_code WC_REM_ACCESS_ERR = 10"
| "wc_code WC_REM_OP_ERR = 11" | "wc_code WC_RETRY_EXC_ERR = 12" | "wc_code WC_RNR_RETRY_EXC_ERR = 13"
| "wc_code (WC_OTHER c) = c"

text \<open>A completion; \<open>wc_imm\<close> is the immediate value in host order if the opcode says there is one.\<close>

record wc =
  wc_wr_id :: u64
  wc_st :: wc_status
  wc_qp_num :: u32
  wc_imm :: "u32 option"

record mr =
  mr_lkey :: u32
  mr_rkey :: u32

datatype send_opcode = WR_RDMA_WRITE | WR_RDMA_READ | WR_SEND

record send_wr =
  wr_id :: u64
  wr_opcode :: send_opcode
  wr_signaled :: bool
  wr_addr :: addr
  wr_len :: u32
  wr_lkey :: u32
  wr_remote_addr :: addr
  wr_rkey :: u32

text \<open>
  \<open>vb_errno\<close> style results: 0 is success. \<open>vb_poll_cq\<close> gives at most the number asked for, or
  \<open>None\<close> for a negative count.
\<close>

record 'x verbs =
  vb_post_send :: "u32 \<Rightarrow> send_wr \<Rightarrow> 'x \<Rightarrow> int \<times> 'x"
  vb_post_recv :: "u32 \<Rightarrow> mr \<Rightarrow> 'x \<Rightarrow> int \<times> 'x"
  vb_poll_cq :: "nat \<Rightarrow> 'x \<Rightarrow> wc list option \<times> 'x"
  vb_reg_mr :: "addr \<Rightarrow> u64 \<Rightarrow> u32 \<Rightarrow> 'x \<Rightarrow> (int + mr) \<times> 'x"
  vb_dereg_mr :: "mr \<Rightarrow> 'x \<Rightarrow> int \<times> 'x"
  vb_now :: "'x \<Rightarrow> cc_time \<times> 'x"
  vb_enomem :: int

section \<open>State\<close>

record rdma_config =
  rf_advertise_ip :: string
  rf_ib_port :: u8
  rf_qp_per_conn :: u32
  rf_signal_period :: u32
  rf_cq_depth :: u32
  rf_sq_depth :: u32
  rf_rq_depth :: u32
  rf_max_sge :: u32
  rf_listen_port :: u16
  rf_verify_timeout_ms :: int
  rf_nic_ordinal :: u32
  rf_relative_capacity :: real
  rf_out_of_order :: bool

record inflight_key =
  ik_request :: request_id
  ik_sub_id :: u64
  ik_is_write :: bool
  ik_bytes :: u64
  ik_posted_at :: cc_time

record queue_pair =
  qp_num :: u32
  qp_posted :: u64
  qp_reclaimed :: u64
  qp_since_signal :: u32
  qp_unsignalled :: "(u64 \<times> inflight_key) list"

definition new_queue_pair :: "u32 \<Rightarrow> queue_pair" where
  "new_queue_pair n = \<lparr>qp_num = n, qp_posted = 0, qp_reclaimed = 0, qp_since_signal = 0, qp_unsignalled = []\<rparr>"

record rdma_conn =
  rc_qps :: "queue_pair list"
  rc_next_qp :: u32
  rc_failed :: bool
  rc_recv_mr :: "mr option"
  rc_peer_closed :: bool
  rc_ctrl_fd :: int
  rc_ooo_rw :: bool
  rc_outbox :: outbox
  rc_rx :: bytes

record rdma_prov =
  rp_cfg :: rdma_config
  rp_cc :: controller
  rp_listen_fd :: int
  rp_listen_port :: u16
  rp_gid_index :: int
  rp_max_msg_sz :: u32
  rp_regions :: "u64 \<rightharpoonup> mr"
  rp_next_key :: u64
  rp_stats :: provider_stats
  rp_stashed :: "wc list"
  rp_verify_done :: "u32 \<rightharpoonup> wc_status"
  rp_arrivals :: "peer_arrival list"
  rp_conns :: "rdma_conn list"
  rp_conn_by_qp :: "u32 \<rightharpoonup> conn_id"
  rp_ctrl_conns :: "conn_id list"

record 'x rdma_world =
  rw_x :: 'x
  rw_prov :: rdma_prov

definition upd_rp :: "(rdma_prov \<Rightarrow> rdma_prov) \<Rightarrow> 'x rdma_world \<Rightarrow> 'x rdma_world" where
  "upd_rp f w = w\<lparr>rw_prov := f (rw_prov w)\<rparr>"

definition upd_rc :: "conn_id \<Rightarrow> (rdma_conn \<Rightarrow> rdma_conn) \<Rightarrow> 'x rdma_world \<Rightarrow> 'x rdma_world" where
  "upd_rc c f w = upd_rp (\<lambda>p. p\<lparr>rp_conns := (rp_conns p)[c := f (rp_conns p ! c)]\<rparr>) w"

definition rcall :: "('x \<Rightarrow> 'a \<times> 'x) \<Rightarrow> 'x rdma_world \<Rightarrow> 'a \<times> 'x rdma_world" where
  "rcall f w = (case f (rw_x w) of (a, x) \<Rightarrow> (a, w\<lparr>rw_x := x\<rparr>))"

section \<open>Work request ids\<close>

definition kRecvWrId :: u64 where "kRecvWrId = push_bit 63 1"
definition kVerifyWrId :: u64 where "kVerifyWrId = push_bit 62 1"
definition kQpShift :: nat where "kQpShift = 48"

definition make_wr_id :: "u32 \<Rightarrow> u64 \<Rightarrow> u64" where
  "make_wr_id qp_index seq = push_bit kQpShift (ucast qp_index) OR (seq AND mask kQpShift)"

definition wr_qp_index :: "u64 \<Rightarrow> u32" where
  "wr_qp_index i = ucast (drop_bit kQpShift i AND 0x7fff)"

definition wr_seq :: "u64 \<Rightarrow> u64" where
  "wr_seq i = i AND mask kQpShift"

fun status_from_wc :: "wc_status \<Rightarrow> status \<times> bool" where
  "status_from_wc WC_SUCCESS = (kOk, False)"
| "status_from_wc WC_RETRY_EXC_ERR = (kPeerDisconnected, False)"
| "status_from_wc WC_RNR_RETRY_EXC_ERR = (kPeerDisconnected, False)"
| "status_from_wc WC_REM_ACCESS_ERR = (kTransportError, True)"
| "status_from_wc WC_REM_OP_ERR = (kTransportError, True)"
| "status_from_wc WC_REM_INV_REQ_ERR = (kTransportError, True)"
| "status_from_wc WC_WR_FLUSH_ERR = (kCancelled, False)"
| "status_from_wc WC_LOC_PROT_ERR = (kInvalidArgument, False)"
| "status_from_wc WC_LOC_LEN_ERR = (kInvalidArgument, False)"
| "status_from_wc (WC_OTHER _) = (kTransportError, True)"

text \<open>The access bits of verbs.\<close>

definition ib_access_flags :: "access_flags \<Rightarrow> u32" where
  "ib_access_flags a =
    (let f = 1; f1 = (if has_flag a kRemoteRead then f OR 4 else f)
     in if has_flag a kRemoteWrite then f1 OR 2 else f1)"

section \<open>Regions\<close>

definition rdma_register_region :: "'x verbs \<Rightarrow> addr \<Rightarrow> u64 \<Rightarrow> device_id \<Rightarrow> access_flags \<Rightarrow> 'x rdma_world \<Rightarrow>
   (u64 \<times> u64) result \<times> 'x rdma_world" where
  "rdma_register_region v a len dev acc w =
    (if a = 0 \<or> len = 0 then (Inl kInvalidArgument, w)
     else case rcall (vb_reg_mr v a len (ib_access_flags acc)) w of
       (Inl err, w1) \<Rightarrow> (Inl (if err = vb_enomem v then kResourceExhausted else kDeviceError), w1)
     | (Inr m, w1) \<Rightarrow>
        let key = rp_next_key (rw_prov w1) in
        (Inr (key, ucast (mr_rkey m)),
         upd_rp (\<lambda>p. p\<lparr>rp_next_key := key + 1, rp_regions := (rp_regions p)(key \<mapsto> m)\<rparr>) w1))"

definition rdma_deregister_region :: "'x verbs \<Rightarrow> u64 \<Rightarrow> 'x rdma_world \<Rightarrow> status \<times> 'x rdma_world" where
  "rdma_deregister_region v key w =
    (case rp_regions (rw_prov w) key of
       None \<Rightarrow> (kNotFound, w)
     | Some m \<Rightarrow>
        (case rcall (vb_dereg_mr v m) (upd_rp (\<lambda>p. p\<lparr>rp_regions := (rp_regions p)(key := None)\<rparr>) w) of (rc, w1) \<Rightarrow>
         (if rc = 0 then kOk else kDeviceError, w1)))"

section \<open>Queue pairs\<close>

definition qp_used :: "queue_pair \<Rightarrow> u64" where
  "qp_used q = qp_posted q - qp_reclaimed q"

definition qp_room :: "u32 \<Rightarrow> queue_pair \<Rightarrow> u64" where
  "qp_room depth q = (if qp_used q < ucast depth then ucast depth - qp_used q else 0)"

definition rdma_submit_capacity :: "u32 \<Rightarrow> rdma_conn \<Rightarrow> u32" where
  "rdma_submit_capacity depth c = ucast (sum_list (map (qp_room depth) (rc_qps c)))"

text \<open>From a rotating offset, the first queue pair with the most room; none if all are full.\<close>

fun pick_loop :: "u32 \<Rightarrow> queue_pair list \<Rightarrow> nat list \<Rightarrow> nat option \<Rightarrow> u64 \<Rightarrow> nat option" where
  "pick_loop depth qps [] best room = best"
| "pick_loop depth qps (i # is) best room =
    (if qp_room depth (qps ! i) > room then pick_loop depth qps is (Some i) (qp_room depth (qps ! i))
     else pick_loop depth qps is best room)"

definition pick_queue_pair_locked :: "u32 \<Rightarrow> queue_pair list \<Rightarrow> u32 \<Rightarrow> nat option \<times> u32" where
  "pick_queue_pair_locked depth qps next_qp =
    (let n = length qps in
     (pick_loop depth qps (map (\<lambda>i. (unat next_qp + i) mod n) [0 ..< n]) None 0,
      (next_qp + 1) mod word_of_nat n))"

section \<open>Submitting\<close>

record planned =
  pl_qp :: nat
  pl_op :: subop
  pl_signal :: bool
  pl_mr :: mr

text \<open>What planning changes: the rotation, the counters it runs ahead with, and the controller.\<close>

record plan_state =
  pn_next_qp :: u32
  pn_seq :: "u64 list"
  pn_since :: "u32 list"
  pn_last :: "nat option list"
  pn_cc :: controller
  pn_plan :: "planned list"

definition cc_dir :: "subop \<Rightarrow> cc_direction" where
  "cc_dir op = (if so_kind op = kWrite then CC_kWrite else CC_kRead)"

definition want_signal :: "rdma_config \<Rightarrow> u32 \<Rightarrow> u64 \<Rightarrow> bool" where
  "want_signal cfg since used \<longleftrightarrow> rf_signal_period cfg \<le> since + 1 \<or>
     ucast (rf_sq_depth cfg - rf_sq_depth cfg div 4) \<le> used + 1"

definition plan_on :: "rdma_config \<Rightarrow> subop \<Rightarrow> mr \<Rightarrow> nat \<Rightarrow> u64 \<Rightarrow> plan_state \<Rightarrow> plan_state" where
  "plan_on cfg op m qi used st =
    (let s = want_signal cfg (pn_since st ! qi) used in
     st\<lparr>pn_since := (pn_since st)[qi := if s then 0 else pn_since st ! qi + 1],
        pn_seq := (pn_seq st)[qi := pn_seq st ! qi + 1],
        pn_last := (pn_last st)[qi := Some (length (pn_plan st))],
        pn_plan := pn_plan st @ [\<lparr>pl_qp = qi, pl_op = op, pl_signal = s, pl_mr = m\<rparr>]\<rparr>)"

fun plan_ops :: "'x verbs \<Rightarrow> rdma_config \<Rightarrow> (u64 \<rightharpoonup> mr) \<Rightarrow> queue_pair list \<Rightarrow> subop list \<Rightarrow> plan_state \<Rightarrow> 'x \<Rightarrow>
   status \<times> plan_state \<times> 'x" where
  "plan_ops v cfg regions qps [] st x = (kOk, st, x)"
| "plan_ops v cfg regions qps (op # ops) st x =
    (case regions (so_local_key op) of
       None \<Rightarrow> (kNotFound, st, x)
     | Some m \<Rightarrow>
        (case pick_queue_pair_locked (rf_sq_depth cfg) qps (pn_next_qp st) of (picked, nq) \<Rightarrow>
         let st1 = st\<lparr>pn_next_qp := nq\<rparr> in
         case picked of
           None \<Rightarrow> (kWouldBlock, st1, x)
         | Some qi \<Rightarrow>
            let used = pn_seq st1 ! qi - qp_reclaimed (qps ! qi) in
            if ucast (rf_sq_depth cfg) \<le> used then (kWouldBlock, st1, x)
            else case vb_now v x of (now, x1) \<Rightarrow>
              if cc_allow (cc_dir op) (so_length op) now (pn_cc st1) \<noteq> kAllowed then (kWouldBlock, st1, x1)
              else plan_ops v cfg regions qps ops (plan_on cfg op m qi used
                     (st1\<lparr>pn_cc := cc_on_post (cc_dir op) (so_length op) now (pn_cc st1)\<rparr>)) x1))"

text \<open>Every queue pair the batch touched ends with a signalled operation.\<close>

definition signal_last :: "nat option list \<Rightarrow> planned list \<Rightarrow> planned list" where
  "signal_last lasts plan = fold (\<lambda>l ps. case l of None \<Rightarrow> ps | Some i \<Rightarrow> ps[i := (ps ! i)\<lparr>pl_signal := True\<rparr>]) lasts plan"

definition send_wr_of :: "planned \<Rightarrow> u64 \<Rightarrow> send_wr" where
  "send_wr_of p seq = \<lparr>wr_id = make_wr_id (word_of_nat (pl_qp p)) seq,
     wr_opcode = (if so_kind (pl_op p) = kWrite then WR_RDMA_WRITE else WR_RDMA_READ),
     wr_signaled = pl_signal p, wr_addr = so_local_addr (pl_op p), wr_len = ucast (so_length (pl_op p)),
     wr_lkey = mr_lkey (pl_mr p), wr_remote_addr = so_remote_addr (pl_op p), wr_rkey = ucast (so_remote_key (pl_op p))\<rparr>"

definition key_of_op :: "subop \<Rightarrow> cc_time \<Rightarrow> inflight_key" where
  "key_of_op op t = \<lparr>ik_request = so_request op, ik_sub_id = so_sub_id op, ik_is_write = (so_kind op = kWrite),
     ik_bytes = so_length op, ik_posted_at = t\<rparr>"

definition posted_on :: "planned \<Rightarrow> cc_time \<Rightarrow> queue_pair \<Rightarrow> queue_pair" where
  "posted_on p t q = q\<lparr>qp_unsignalled := qp_unsignalled q @ [(qp_posted q, key_of_op (pl_op p) t)],
     qp_posted := qp_posted q + 1, qp_since_signal := (if pl_signal p then 0 else qp_since_signal q + 1)\<rparr>"

definition count_posted :: "subop \<Rightarrow> provider_stats \<Rightarrow> provider_stats" where
  "count_posted op s = s\<lparr>subops_posted := subops_posted s + 1, payload_bytes := payload_bytes s + so_length op\<rparr>"

fun post_plan :: "'x verbs \<Rightarrow> planned list \<Rightarrow> nat \<Rightarrow> queue_pair list \<Rightarrow> provider_stats \<Rightarrow> 'x \<Rightarrow>
   int \<times> nat \<times> queue_pair list \<times> provider_stats \<times> 'x" where
  "post_plan v [] n qps s x = (0, n, qps, s, x)"
| "post_plan v (p # ps) n qps s x =
    (case vb_post_send v (qp_num (qps ! pl_qp p)) (send_wr_of p (qp_posted (qps ! pl_qp p))) x of (rc, x1) \<Rightarrow>
     if rc \<noteq> 0 then (rc, n, qps, s, x1)
     else case vb_now v x1 of (t, x2) \<Rightarrow>
       post_plan v ps (Suc n) (qps[pl_qp p := posted_on p t (qps ! pl_qp p)]) (count_posted (pl_op p) s) x2)"

text \<open>What was planned and not posted keeps no budget.\<close>

fun release_plan :: "'x verbs \<Rightarrow> planned list \<Rightarrow> controller \<Rightarrow> 'x \<Rightarrow> controller \<times> 'x" where
  "release_plan v [] cc x = (cc, x)"
| "release_plan v (p # ps) cc x =
    (case vb_now v x of (now, x1) \<Rightarrow>
     release_plan v ps (cc_on_error (cc_dir (pl_op p)) (so_length (pl_op p)) now cc) x1)"

definition start_plan :: "controller \<Rightarrow> rdma_conn \<Rightarrow> plan_state" where
  "start_plan cc c = \<lparr>pn_next_qp = rc_next_qp c, pn_seq = map qp_posted (rc_qps c),
     pn_since = map qp_since_signal (rc_qps c), pn_last = replicate (length (rc_qps c)) None,
     pn_cc = cc, pn_plan = []\<rparr>"

definition post_status :: "'x verbs \<Rightarrow> int \<Rightarrow> status" where
  "post_status v rc = (if rc = vb_enomem v then kWouldBlock else kTransportError)"

definition submit_on :: "'x verbs \<Rightarrow> conn_id \<Rightarrow> subop list \<Rightarrow> 'x rdma_world \<Rightarrow> submit_result \<times> 'x rdma_world" where
  "submit_on v c ops w =
    (let p = rw_prov w; conn = rp_conns p ! c in
     case plan_ops v (rp_cfg p) (rp_regions p) (rc_qps conn) ops (start_plan (rp_cc p) conn) (rw_x w) of (ps, st, x1) \<Rightarrow>
     let plan = signal_last (pn_last st) (pn_plan st) in
     case post_plan v plan 0 (rc_qps conn) (rp_stats p) x1 of (rc, n, qps, stats, x2) \<Rightarrow>
     case release_plan v (drop n plan) (pn_cc st) x2 of (cc, x3) \<Rightarrow>
       (\<lparr>sr_accepted = n, sr_status = (if rc \<noteq> 0 then post_status v rc else ps), sr_errno = rc\<rparr>,
        upd_rc c (\<lambda>k. k\<lparr>rc_qps := qps, rc_next_qp := pn_next_qp st\<rparr>)
          (upd_rp (\<lambda>p. p\<lparr>rp_stats := stats, rp_cc := cc\<rparr>) (w\<lparr>rw_x := x3\<rparr>))))"

text \<open>A pointer to a connection; an id that was never handed out stands for none.\<close>

definition conn_ptr :: "conn_id option \<Rightarrow> 'x rdma_world \<Rightarrow> conn_id option" where
  "conn_ptr conn w = (case conn of None \<Rightarrow> None | Some c \<Rightarrow> if c < length (rp_conns (rw_prov w)) then Some c else None)"

definition rdma_submit :: "'x verbs \<Rightarrow> conn_id option \<Rightarrow> subop list \<Rightarrow> 'x rdma_world \<Rightarrow> submit_result \<times> 'x rdma_world" where
  "rdma_submit v conn ops w =
    (case conn_ptr conn w of
       None \<Rightarrow> (\<lparr>sr_accepted = 0, sr_status = kInvalidArgument, sr_errno = 0\<rparr>, w)
     | Some c \<Rightarrow>
        if rc_failed (rp_conns (rw_prov w) ! c) then (\<lparr>sr_accepted = 0, sr_status = kPeerDisconnected, sr_errno = 0\<rparr>, w)
        else if ops = [] then (\<lparr>sr_accepted = 0, sr_status = kOk, sr_errno = 0\<rparr>, w)
        else if rdma_submit_capacity (rf_sq_depth (rp_cfg (rw_prov w))) (rp_conns (rw_prov w) ! c) = 0
        then (\<lparr>sr_accepted = 0, sr_status = kWouldBlock, sr_errno = 0\<rparr>, w)
        else submit_on v c ops w)"

section \<open>Completions\<close>

definition stash_completion :: "wc \<Rightarrow> 'x rdma_world \<Rightarrow> 'x rdma_world" where
  "stash_completion c w = upd_rp (\<lambda>p. p\<lparr>rp_stashed := rp_stashed p @ [c]\<rparr>) w"

definition note_verified :: "u32 \<Rightarrow> wc_status \<Rightarrow> 'x rdma_world \<Rightarrow> 'x rdma_world" where
  "note_verified q st w = upd_rp (\<lambda>p. p\<lparr>rp_verify_done := (rp_verify_done p)(q \<mapsto> st)\<rparr>) w"

definition take_verified :: "u32 \<Rightarrow> 'x rdma_world \<Rightarrow> wc_status option \<times> 'x rdma_world" where
  "take_verified q w = (rp_verify_done (rw_prov w) q,
     upd_rp (\<lambda>p. p\<lparr>rp_verify_done := (rp_verify_done p)(q := None)\<rparr>) w)"

text \<open>A receive slot of a connection is filled again; the receives are on its first queue pair.\<close>

definition repost_receive :: "'x verbs \<Rightarrow> rdma_conn \<Rightarrow> 'x \<Rightarrow> status \<times> 'x" where
  "repost_receive v c x =
    (case (rc_recv_mr c, rc_qps c) of
       (Some m, q # _) \<Rightarrow> (case vb_post_recv v (qp_num q) m x of (rc, x1) \<Rightarrow> (if rc = 0 then kOk else kTransportError, x1))
     | _ \<Rightarrow> (kUnsupported, x))"

definition absorb_receive :: "'x verbs \<Rightarrow> wc \<Rightarrow> 'x rdma_world \<Rightarrow> 'x rdma_world" where
  "absorb_receive v c w =
    (let w1 = (case wc_imm c of
           Some t \<Rightarrow> if wc_st c = WC_SUCCESS
             then upd_rp (\<lambda>p. p\<lparr>rp_arrivals := rp_arrivals p @ [\<lparr>pa_token = t, pa_from = 0\<rparr>]\<rparr>) w else w
         | None \<Rightarrow> w)
     in if wc_st c \<noteq> WC_SUCCESS then w1
        else case rp_conn_by_qp (rw_prov w1) (wc_qp_num c) of
          None \<Rightarrow> w1
        | Some k \<Rightarrow> snd (rcall (repost_receive v (rp_conns (rw_prov w1) ! k)) w1))"

definition event_of :: "wc_status \<Rightarrow> inflight_key \<Rightarrow> completion_event" where
  "event_of s k = \<lparr>ce_request = ik_request k, ce_sub_id = ik_sub_id k, ce_bytes = ik_bytes k,
     ce_status = fst (status_from_wc s), ce_errno = wc_code s,
     ce_may_have_modified_target = (snd (status_from_wc s) \<and> ik_is_write k)\<rparr>"

definition key_dir :: "inflight_key \<Rightarrow> cc_direction" where
  "key_dir k = (if ik_is_write k then CC_kWrite else CC_kRead)"

definition settle_cc :: "wc_status \<Rightarrow> cc_time \<Rightarrow> inflight_key \<Rightarrow> controller \<Rightarrow> controller" where
  "settle_cc s now k cc =
    (if fst (status_from_wc s) = kOk then cc_on_feedback (key_dir k) (ik_bytes k) (now - ik_posted_at k) now cc
     else cc_on_error (key_dir k) (ik_bytes k) now cc)"

definition count_event :: "completion_event \<Rightarrow> provider_stats \<Rightarrow> provider_stats" where
  "count_event ev s = (if ce_status ev = kOk then s\<lparr>subops_completed := subops_completed s + 1\<rparr>
     else s\<lparr>subops_failed := subops_failed s + 1\<rparr>)"

text \<open>What a completion with sequence number \<open>seq\<close> retires of a queue pair, and what is left.\<close>

definition retired :: "u64 \<Rightarrow> queue_pair \<Rightarrow> inflight_key list" where
  "retired seq q = map snd (takeWhile (\<lambda>u. fst u \<le> seq) (qp_unsignalled q))"

definition retire_upto :: "u64 \<Rightarrow> queue_pair \<Rightarrow> queue_pair" where
  "retire_upto seq q = q\<lparr>qp_unsignalled := dropWhile (\<lambda>u. fst u \<le> seq) (qp_unsignalled q), qp_reclaimed := seq + 1\<rparr>"

definition handle_wc :: "'x verbs \<Rightarrow> wc \<Rightarrow> 'x rdma_world \<Rightarrow> completion_event list \<times> 'x rdma_world" where
  "handle_wc v c w =
    (if wc_wr_id c = kVerifyWrId then ([], note_verified (wc_qp_num c) (wc_st c) w)
     else if wc_wr_id c AND kRecvWrId \<noteq> 0 then ([], absorb_receive v c w)
     else case rp_conn_by_qp (rw_prov w) (wc_qp_num c) of
       None \<Rightarrow> ([], w)
     | Some k \<Rightarrow>
        let w1 = (if wc_st c \<noteq> WC_SUCCESS then upd_rc k (\<lambda>n. n\<lparr>rc_failed := True\<rparr>) w else w);
            qi = unat (wr_qp_index (wc_wr_id c)); seq = wr_seq (wc_wr_id c);
            qps = rc_qps (rp_conns (rw_prov w1) ! k)
        in if length qps \<le> qi then ([], w1)
           else case rcall (vb_now v) w1 of (now, w2) \<Rightarrow>
             let keys = retired seq (qps ! qi); evs = map (event_of (wc_st c)) keys
             in (evs, upd_rc k (\<lambda>n. n\<lparr>rc_qps := qps[qi := retire_upto seq (qps ! qi)]\<rparr>)
                   (upd_rp (\<lambda>p. p\<lparr>rp_cc := fold (settle_cc (wc_st c) now) keys (rp_cc p),
                      rp_stats := fold count_event evs (rp_stats p)\<rparr>) w2)))"

fun handle_wcs :: "'x verbs \<Rightarrow> wc list \<Rightarrow> 'x rdma_world \<Rightarrow> completion_event list \<times> 'x rdma_world" where
  "handle_wcs v [] w = ([], w)"
| "handle_wcs v (c # cs) w =
    (case handle_wc v c w of (evs, w1) \<Rightarrow> case handle_wcs v cs w1 of (evs', w2) \<Rightarrow> (evs @ evs', w2))"

definition drain_cq :: "'x verbs \<Rightarrow> nat \<Rightarrow> 'x rdma_world \<Rightarrow> wc list option \<times> 'x rdma_world" where
  "drain_cq v n w = (if n = 0 then (Some [], w) else rcall (vb_poll_cq v n) w)"

definition rdma_poll :: "'x verbs \<Rightarrow> nat \<Rightarrow> 'x rdma_world \<Rightarrow> (status \<times> completion_event list) \<times> 'x rdma_world" where
  "rdma_poll v n w =
    (if n = 0 then ((kOk, []), w)
     else
       let stash = take n (rp_stashed (rw_prov w));
           w1 = upd_rp (\<lambda>p. p\<lparr>rp_stashed := drop n (rp_stashed p)\<rparr>) w
       in case (if length stash < n then drain_cq v (n - length stash) w1 else (Some [], w1)) of (drawn, w2) \<Rightarrow>
          case handle_wcs v (stash @ (case drawn of None \<Rightarrow> [] | Some cs \<Rightarrow> cs)) w2 of (evs, w3) \<Rightarrow>
            ((if drawn = None then kTransportError else kOk, evs), w3))"

definition rdma_poll_arrivals :: "nat \<Rightarrow> 'x rdma_world \<Rightarrow> (status \<times> peer_arrival list) \<times> 'x rdma_world" where
  "rdma_poll_arrivals n w = ((kOk, take n (rp_arrivals (rw_prov w))),
     upd_rp (\<lambda>p. p\<lparr>rp_arrivals := drop n (rp_arrivals p)\<rparr>) w)"

section \<open>What is outstanding\<close>

definition ik_key :: "inflight_key \<Rightarrow> request_id \<times> u64" where
  "ik_key k = (ik_request k, ik_sub_id k)"

definition qp_keys :: "queue_pair \<Rightarrow> (request_id \<times> u64) list" where
  "qp_keys q = map (\<lambda>u. ik_key (snd u)) (qp_unsignalled q)"

definition conn_keys :: "rdma_conn \<Rightarrow> (request_id \<times> u64) list" where
  "conn_keys c = concat (map qp_keys (rc_qps c))"

definition rdma_outstanding :: "'x rdma_world \<Rightarrow> (request_id \<times> u64) multiset" where
  "rdma_outstanding w = mset (concat (map conn_keys (rp_conns (rw_prov w))))"

definition rdma_inv :: "'x rdma_world \<Rightarrow> bool" where
  "rdma_inv w \<longleftrightarrow> (\<forall>q k. rp_conn_by_qp (rw_prov w) q = Some k \<longrightarrow> k < length (rp_conns (rw_prov w)))"

lemma upd_rp_simps [simp]: "rw_prov (upd_rp f w) = f (rw_prov w)" "rw_x (upd_rp f w) = rw_x w"
  by (simp_all add: upd_rp_def)

lemma rcall_prov: "rcall f w = (a, w') \<Longrightarrow> rw_prov w' = rw_prov w"
  by (auto simp: rcall_def split: prod.splits)

lemma rcall_prov_snd [simp]: "rw_prov (snd (rcall f w)) = rw_prov w"
  by (simp add: rcall_def split: prod.split)

lemma upd_rc_prov [simp]:
  "rw_prov (upd_rc c f w) = (rw_prov w)\<lparr>rp_conns := (rp_conns (rw_prov w))[c := f (rp_conns (rw_prov w) ! c)]\<rparr>"
  by (simp add: upd_rc_def)

text \<open>The part of the state the contract reads.\<close>

definition conn_queues :: "rdma_conn \<Rightarrow> (u64 \<times> inflight_key) list list" where
  "conn_queues c = map qp_unsignalled (rc_qps c)"

definition conns_view :: "'x rdma_world \<Rightarrow> _" where
  "conns_view w = (map conn_queues (rp_conns (rw_prov w)), rp_conn_by_qp (rw_prov w))"

lemma conn_keys_queues: "conn_keys c = concat (map (map (\<lambda>u. ik_key (snd u))) (conn_queues c))"
  by (simp add: conn_keys_def conn_queues_def qp_keys_def [abs_def] comp_def)

lemma conns_viewD:
  assumes "conns_view w' = conns_view w"
  shows "rdma_outstanding w' = rdma_outstanding w" "rdma_inv w' = rdma_inv w"
proof -
  have q: "map conn_queues (rp_conns (rw_prov w')) = map conn_queues (rp_conns (rw_prov w))" using assms by (simp add: conns_view_def)
  have k: "map conn_keys cs = map (\<lambda>q. concat (map (map (\<lambda>u. ik_key (snd u))) q)) (map conn_queues cs)" for cs
    by (simp add: conn_keys_queues)
  have "map conn_keys (rp_conns (rw_prov w')) = map conn_keys (rp_conns (rw_prov w))" by (simp only: k q)
  moreover from q have "length (rp_conns (rw_prov w')) = length (rp_conns (rw_prov w))" by (metis length_map)
  ultimately show "rdma_outstanding w' = rdma_outstanding w" "rdma_inv w' = rdma_inv w"
    using assms by (simp_all add: conns_view_def rdma_outstanding_def rdma_inv_def)
qed

lemma conns_view_prov: "rw_prov w' = rw_prov w \<Longrightarrow> conns_view w' = conns_view w"
  by (simp add: conns_view_def)

lemma map_update_same:
  assumes "f x = f (xs ! i)"
  shows "map f (xs[i := x]) = map f xs"
proof (cases "i < length xs")
  case True
  with assms have "map f (xs[i := x]) = (map f xs)[i := map f xs ! i]" by (simp add: map_update)
  then show ?thesis by simp
qed (simp add: list_update_beyond)

lemma conns_view_upd_rc:
  assumes "\<And>n. conn_queues (f n) = conn_queues n"
  shows "conns_view (upd_rc c f w) = conns_view w"
  using assms by (simp add: conns_view_def map_update_same)

lemma outstanding_upd_rc:
  assumes "c < length (rp_conns (rw_prov w))"
  shows "rdma_outstanding (upd_rc c f w) + mset (conn_keys (rp_conns (rw_prov w) ! c)) =
    rdma_outstanding w + mset (conn_keys (f (rp_conns (rw_prov w) ! c)))"
  unfolding rdma_outstanding_def upd_rc_prov using mset_concat_update [OF assms, of conn_keys] by simp

section \<open>Planning and posting\<close>

lemma pick_loop_in: "pick_loop depth qps is best room = Some i \<Longrightarrow> i \<in> set is \<or> best = Some i"
  by (induction "is" arbitrary: best room) (auto split: if_splits)

lemma pick_in: "pick_queue_pair_locked depth qps nq = (Some i, nq') \<Longrightarrow> i < length qps"
  using pick_loop_in [of depth qps "map (\<lambda>i. (unat nq + i) mod length qps) [0 ..< length qps]" None 0 i]
  by (cases "qps = []") (auto simp: pick_queue_pair_locked_def Let_def)

lemma plan_ops_cases:
  assumes "plan_ops v cfg regions qps (op # ops) st x = (s, st', x')"
  obtains (stop) nq where "st' = st\<lparr>pn_next_qp := nq\<rparr>" "s = kNotFound \<or> s = kWouldBlock"
    | (go) m nq qi now x1 where "regions (so_local_key op) = Some m"
      "pick_queue_pair_locked (rf_sq_depth cfg) qps (pn_next_qp st) = (Some qi, nq)"
      "\<not> ucast (rf_sq_depth cfg) \<le> pn_seq st ! qi - qp_reclaimed (qps ! qi)"
      "cc_allow (cc_dir op) (so_length op) now (pn_cc st) = kAllowed"
      "plan_ops v cfg regions qps ops (plan_on cfg op m qi (pn_seq st ! qi - qp_reclaimed (qps ! qi))
         (st\<lparr>pn_next_qp := nq, pn_cc := cc_on_post (cc_dir op) (so_length op) now (pn_cc st)\<rparr>)) x1 = (s, st', x')"
proof (cases "regions (so_local_key op)")
  case None
  with assms stop [of "pn_next_qp st"] show ?thesis by simp
next
  case (Some m)
  obtain picked nq where p: "pick_queue_pair_locked (rf_sq_depth cfg) qps (pn_next_qp st) = (picked, nq)" by fastforce
  obtain now x1 where t: "vb_now v x = (now, x1)" by fastforce
  show ?thesis
  proof (cases picked)
    case None
    with assms Some p stop [of nq] show ?thesis by simp
  next
    case qi: (Some qi)
    show ?thesis
    proof (cases "ucast (rf_sq_depth cfg) \<le> pn_seq st ! qi - qp_reclaimed (qps ! qi) \<or>
        cc_allow (cc_dir op) (so_length op) now (pn_cc st) \<noteq> kAllowed")
      case True
      with assms Some p t qi stop [of nq] show ?thesis by (auto simp: Let_def split: if_splits)
    next
      case False
      with assms Some p t qi go [of m qi nq now x1] show ?thesis by (simp add: Let_def)
    qed
  qed
qed

lemma plan_ops_spec:
  "plan_ops v cfg regions qps ops st x = (s, st', x') \<Longrightarrow>
   \<exists>new. pn_plan st' = pn_plan st @ new \<and> length new \<le> length ops \<and> map pl_op new = take (length new) ops \<and>
     list_all (\<lambda>p. pl_qp p < length qps) new \<and> (length new < length ops \<longrightarrow> s \<noteq> kOk)"
proof (induction ops arbitrary: st x)
  case (Cons op ops)
  from Cons.prems show ?case
  proof (cases rule: plan_ops_cases)
    case (stop nq)
    then show ?thesis by (intro exI [of _ "[]"]) auto
  next
    case (go m nq qi now x1)
    let ?pl = "\<lparr>pl_qp = qi, pl_op = op, pl_signal = want_signal cfg (pn_since st ! qi) (pn_seq st ! qi - qp_reclaimed (qps ! qi)),
      pl_mr = m\<rparr>"
    from Cons.IH [OF go(5)] obtain new where "length new \<le> length ops" "map pl_op new = take (length new) ops"
      "list_all (\<lambda>p. pl_qp p < length qps) new" "length new < length ops \<longrightarrow> s \<noteq> kOk" "pn_plan st' = pn_plan st @ ?pl # new"
      unfolding plan_on_def Let_def by auto
    with pick_in [OF go(2)] show ?thesis by (intro exI [of _ "?pl # new"]) simp
  qed
qed simp

lemma signal_last_keeps:
  "map pl_op (signal_last ls plan) = map pl_op plan" "map pl_qp (signal_last ls plan) = map pl_qp plan"
  "length (signal_last ls plan) = length plan"
proof -
  have "map pl_op (signal_last ls plan) = map pl_op plan \<and> map pl_qp (signal_last ls plan) = map pl_qp plan"
    unfolding signal_last_def
  proof (induction ls arbitrary: plan)
    case (Cons l ls)
    show ?case
    proof (cases l)
      case (Some i)
      have "map pl_op (plan[i := (plan ! i)\<lparr>pl_signal := True\<rparr>]) = map pl_op plan"
        "map pl_qp (plan[i := (plan ! i)\<lparr>pl_signal := True\<rparr>]) = map pl_qp plan"
        by (simp_all add: map_update_same)
      with Some Cons.IH [of "plan[i := (plan ! i)\<lparr>pl_signal := True\<rparr>]"] show ?thesis by simp
    qed (use Cons.IH in simp)
  qed simp
  then show "map pl_op (signal_last ls plan) = map pl_op plan" "map pl_qp (signal_last ls plan) = map pl_qp plan"
    "length (signal_last ls plan) = length plan" by (auto dest: map_eq_imp_length_eq)
qed

lemma qp_keys_posted: "qp_keys (posted_on p t q) = qp_keys q @ [so_key (pl_op p)]"
  by (simp add: qp_keys_def posted_on_def key_of_op_def ik_key_def so_key_def)

lemma post_plan_spec:
  "post_plan v plan n qps s x = (rc, n', qps', s', x') \<Longrightarrow> list_all (\<lambda>p. pl_qp p < length qps) plan \<Longrightarrow>
   n \<le> n' \<and> n' \<le> n + length plan \<and> (rc = 0 \<longleftrightarrow> n' = n + length plan) \<and> length qps' = length qps \<and>
   mset (concat (map qp_keys qps')) = mset (concat (map qp_keys qps)) + mset (map (\<lambda>p. so_key (pl_op p)) (take (n' - n) plan))"
proof (induction plan arbitrary: n qps s x)
  case (Cons p ps)
  obtain r x1 where y: "vb_post_send v (qp_num (qps ! pl_qp p)) (send_wr_of p (qp_posted (qps ! pl_qp p))) x = (r, x1)" by fastforce
  show ?case
  proof (cases "r = 0")
    case False
    with Cons.prems y show ?thesis by simp
  next
    case True
    obtain t x2 where t: "vb_now v x1 = (t, x2)" by fastforce
    let ?q = "qps[pl_qp p := posted_on p t (qps ! pl_qp p)]"
    have i: "pl_qp p < length qps" using Cons.prems(2) by simp
    have "post_plan v ps (Suc n) ?q (count_posted (pl_op p) s) x2 = (rc, n', qps', s', x')"
      using Cons.prems(1) y True t by simp
    moreover have "list_all (\<lambda>p. pl_qp p < length ?q) ps" using Cons.prems(2) by simp
    ultimately have ih: "Suc n \<le> n'" "n' \<le> Suc n + length ps" "rc = 0 \<longleftrightarrow> n' = Suc n + length ps" "length qps' = length qps"
      "mset (concat (map qp_keys qps')) = mset (concat (map qp_keys ?q)) + mset (map (\<lambda>p. so_key (pl_op p)) (take (n' - Suc n) ps))"
      using Cons.IH by fastforce+
    have "mset (concat (map qp_keys ?q)) = mset (concat (map qp_keys qps)) + {#so_key (pl_op p)#}"
      using mset_concat_update [OF i, of qp_keys "posted_on p t (qps ! pl_qp p)"] by (simp add: qp_keys_posted)
    moreover have "take (n' - n) (p # ps) = p # take (n' - Suc n) ps"
      using ih(1) by (simp add: Suc_diff_le take_Cons')
    ultimately show ?thesis using ih by auto
  qed
qed simp

definition accepted_keys :: "submit_result \<Rightarrow> subop list \<Rightarrow> (request_id \<times> u64) multiset" where
  "accepted_keys r ops = mset (map so_key (take (sr_accepted r) ops))"

lemma post_status_not_ok: "post_status v rc \<noteq> kOk"
  by (simp add: post_status_def)

lemma submit_on_cases:
  assumes "submit_on v c ops w = (r, w')"
  obtains ps st x1 plan rc n qps stats x2 cc x3 where
    "plan_ops v (rp_cfg (rw_prov w)) (rp_regions (rw_prov w)) (rc_qps (rp_conns (rw_prov w) ! c)) ops
       (start_plan (rp_cc (rw_prov w)) (rp_conns (rw_prov w) ! c)) (rw_x w) = (ps, st, x1)"
    "plan = signal_last (pn_last st) (pn_plan st)"
    "post_plan v plan 0 (rc_qps (rp_conns (rw_prov w) ! c)) (rp_stats (rw_prov w)) x1 = (rc, n, qps, stats, x2)"
    "release_plan v (drop n plan) (pn_cc st) x2 = (cc, x3)"
    "r = \<lparr>sr_accepted = n, sr_status = (if rc \<noteq> 0 then post_status v rc else ps), sr_errno = rc\<rparr>"
    "w' = upd_rc c (\<lambda>k. k\<lparr>rc_qps := qps, rc_next_qp := pn_next_qp st\<rparr>)
       (upd_rp (\<lambda>p. p\<lparr>rp_stats := stats, rp_cc := cc\<rparr>) (w\<lparr>rw_x := x3\<rparr>))"
    "map pl_op plan = take (length plan) ops" "length plan \<le> length ops" "length plan < length ops \<longrightarrow> ps \<noteq> kOk"
    "list_all (\<lambda>p. pl_qp p < length (rc_qps (rp_conns (rw_prov w) ! c))) plan"
proof -
  let ?p = "rw_prov w"
  let ?conn = "rp_conns ?p ! c"
  obtain ps st x1 where pl: "plan_ops v (rp_cfg ?p) (rp_regions ?p) (rc_qps ?conn) ops (start_plan (rp_cc ?p) ?conn) (rw_x w) = (ps, st, x1)"
    by (meson prod_cases3)
  define plan where "plan = signal_last (pn_last st) (pn_plan st)"
  obtain rc n qps stats x2 where po: "post_plan v plan 0 (rc_qps ?conn) (rp_stats ?p) x1 = (rc, n, qps, stats, x2)" by (metis prod_cases5)
  obtain cc x3 where re: "release_plan v (drop n plan) (pn_cc st) x2 = (cc, x3)" by fastforce
  have r: "r = \<lparr>sr_accepted = n, sr_status = (if rc \<noteq> 0 then post_status v rc else ps), sr_errno = rc\<rparr>"
    and w': "w' = upd_rc c (\<lambda>k. k\<lparr>rc_qps := qps, rc_next_qp := pn_next_qp st\<rparr>)
      (upd_rp (\<lambda>p. p\<lparr>rp_stats := stats, rp_cc := cc\<rparr>) (w\<lparr>rw_x := x3\<rparr>))"
    using assms pl po re by (auto simp: submit_on_def Let_def plan_def)
  obtain new where new: "pn_plan st = new" "length new \<le> length ops" "map pl_op new = take (length new) ops"
    "list_all (\<lambda>p. pl_qp p < length (rc_qps ?conn)) new" "length new < length ops \<longrightarrow> ps \<noteq> kOk"
    using plan_ops_spec [OF pl] by (auto simp: start_plan_def)
  have k: "map pl_op plan = take (length plan) ops" "length plan = length new" "map pl_qp plan = map pl_qp new"
    using new(1,3) by (simp_all add: plan_def signal_last_keeps)
  have "list_all (\<lambda>i. i < length (rc_qps ?conn)) (map pl_qp plan)" using new(4) by (simp add: k(3) list.pred_map comp_def)
  then have "list_all (\<lambda>p. pl_qp p < length (rc_qps ?conn)) plan" by (simp add: list.pred_map comp_def)
  with that [OF pl plan_def po re r w' k(1)] new(2,5) k(2) show ?thesis by simp
qed

lemma submit_on_spec:
  assumes "submit_on v c ops w = (r, w')" "c < length (rp_conns (rw_prov w))"
  shows "sr_accepted r \<le> length ops" "rdma_outstanding w' = rdma_outstanding w + accepted_keys r ops"
    "sr_accepted r < length ops \<Longrightarrow> sr_status r \<noteq> kOk" "rp_conn_by_qp (rw_prov w') = rp_conn_by_qp (rw_prov w)"
    "length (rp_conns (rw_prov w')) = length (rp_conns (rw_prov w))"
proof -
  let ?conn = "rp_conns (rw_prov w) ! c"
  from assms(1) obtain ps st x1 plan rc n qps stats x2 cc x3
    where "plan_ops v (rp_cfg (rw_prov w)) (rp_regions (rw_prov w)) (rc_qps ?conn) ops
       (start_plan (rp_cc (rw_prov w)) ?conn) (rw_x w) = (ps, st, x1)"
    and "plan = signal_last (pn_last st) (pn_plan st)"
    and po: "post_plan v plan 0 (rc_qps ?conn) (rp_stats (rw_prov w)) x1 = (rc, n, qps, stats, x2)"
    and "release_plan v (drop n plan) (pn_cc st) x2 = (cc, x3)"
    and r: "r = \<lparr>sr_accepted = n, sr_status = (if rc \<noteq> 0 then post_status v rc else ps), sr_errno = rc\<rparr>"
    and w': "w' = upd_rc c (\<lambda>k. k\<lparr>rc_qps := qps, rc_next_qp := pn_next_qp st\<rparr>)
       (upd_rp (\<lambda>p. p\<lparr>rp_stats := stats, rp_cc := cc\<rparr>) (w\<lparr>rw_x := x3\<rparr>))"
    and plan: "map pl_op plan = take (length plan) ops" "length plan \<le> length ops" "length plan < length ops \<longrightarrow> ps \<noteq> kOk"
      "list_all (\<lambda>p. pl_qp p < length (rc_qps ?conn)) plan"
    by (rule submit_on_cases)
  note sp = post_plan_spec [OF po plan(4), simplified]
  have "map (\<lambda>p. so_key (pl_op p)) (take n plan) = map so_key (take n (map pl_op plan))"
    by (simp add: take_map)
  also have "\<dots> = map so_key (take n ops)" using sp by (simp add: plan(1) min_absorb1)
  finally have "{#so_key (pl_op p). p \<in># mset (take n plan)#} = image_mset so_key (mset (take n ops))"
    by (metis (no_types, lifting) mset_map)
  then have k: "mset (conn_keys (?conn\<lparr>rc_qps := qps, rc_next_qp := pn_next_qp st\<rparr>)) = mset (conn_keys ?conn) + accepted_keys r ops"
    using sp by (simp add: conn_keys_def accepted_keys_def r)
  show "sr_accepted r \<le> length ops" using sp plan(2) by (simp add: r)
  show "sr_status r \<noteq> kOk" if "sr_accepted r < length ops"
    using that sp plan(3) post_status_not_ok by (auto simp: r split: if_splits)
  let ?w1 = "upd_rp (\<lambda>p. p\<lparr>rp_stats := stats, rp_cc := cc\<rparr>) (w\<lparr>rw_x := x3\<rparr>)"
  have "rdma_outstanding ?w1 = rdma_outstanding w" by (simp add: rdma_outstanding_def)
  then show "rdma_outstanding w' = rdma_outstanding w + accepted_keys r ops"
    using outstanding_upd_rc [of c ?w1 "\<lambda>k. k\<lparr>rc_qps := qps, rc_next_qp := pn_next_qp st\<rparr>"] assms(2) k unfolding w' by simp
  show "rp_conn_by_qp (rw_prov w') = rp_conn_by_qp (rw_prov w)" "length (rp_conns (rw_prov w')) = length (rp_conns (rw_prov w))"
    by (simp_all add: w')
qed

lemma rdma_submit_cases:
  assumes "rdma_submit v conn ops w = (r, w')"
  obtains (no) "w' = w" "sr_accepted r = 0" "sr_status r = kOk \<longrightarrow> ops = []"
    | (yes) c where "conn = Some c" "c < length (rp_conns (rw_prov w))" "\<not> rc_failed (rp_conns (rw_prov w) ! c)"
      "submit_on v c ops w = (r, w')"
proof (cases "conn_ptr conn w")
  case None
  with assms no show ?thesis by (auto simp: rdma_submit_def)
next
  case (Some c)
  then have "conn = Some c" "c < length (rp_conns (rw_prov w))" by (auto simp: conn_ptr_def split: option.splits if_splits)
  with assms no yes Some show ?thesis by (auto simp: rdma_submit_def split: if_splits)
qed

lemma rdma_submit_spec:
  assumes "rdma_submit v conn ops w = (r, w')" "rdma_inv w"
  shows "rdma_inv w'" "sr_accepted r \<le> length ops" "rdma_outstanding w' = rdma_outstanding w + accepted_keys r ops"
    "sr_accepted r < length ops \<Longrightarrow> sr_status r \<noteq> kOk"
proof -
  have "rdma_inv w' \<and> sr_accepted r \<le> length ops \<and> rdma_outstanding w' = rdma_outstanding w + accepted_keys r ops \<and>
    (sr_accepted r < length ops \<longrightarrow> sr_status r \<noteq> kOk)" (is ?G)
    using assms(1)
  proof (cases rule: rdma_submit_cases)
    case no
    then show ?thesis using assms(2) by (auto simp: accepted_keys_def)
  next
    case (yes c)
    note s = submit_on_spec [OF yes(4,2)]
    have "rdma_inv w'" using assms(2) s(4,5) by (simp add: rdma_inv_def)
    with s(1-3) show ?thesis by blast
  qed
  then show "rdma_inv w'" "sr_accepted r \<le> length ops" "rdma_outstanding w' = rdma_outstanding w + accepted_keys r ops"
    "sr_accepted r < length ops \<Longrightarrow> sr_status r \<noteq> kOk" by blast+
qed

section \<open>Completions come from what is outstanding\<close>

lemma event_key: "ce_key (event_of s k) = ik_key k"
  by (simp add: ce_key_def event_of_def ik_key_def)

lemma retire_split: "qp_keys q = map ik_key (retired seq q) @ qp_keys (retire_upto seq q)"
  by (simp add: qp_keys_def retired_def retire_upto_def o_def flip: map_append)

lemma retire_conn:
  assumes "i < length (rc_qps n)"
  shows "mset (conn_keys n) = mset (map ik_key (retired seq (rc_qps n ! i))) +
    mset (conn_keys (n\<lparr>rc_qps := (rc_qps n)[i := retire_upto seq (rc_qps n ! i)]\<rparr>))"
proof -
  have "mset (concat (map qp_keys ((rc_qps n)[i := retire_upto seq (rc_qps n ! i)]))) + mset (qp_keys (rc_qps n ! i)) =
    mset (concat (map qp_keys (rc_qps n))) + mset (qp_keys (retire_upto seq (rc_qps n ! i)))"
    by (rule mset_concat_update [OF assms])
  moreover have "mset (qp_keys (rc_qps n ! i)) = mset (map ik_key (retired seq (rc_qps n ! i))) + mset (qp_keys (retire_upto seq (rc_qps n ! i)))"
    by (metis retire_split mset_append)
  ultimately have "mset (concat (map qp_keys ((rc_qps n)[i := retire_upto seq (rc_qps n ! i)]))) +
      mset (map ik_key (retired seq (rc_qps n ! i))) + mset (qp_keys (retire_upto seq (rc_qps n ! i))) =
    mset (concat (map qp_keys (rc_qps n))) + mset (qp_keys (retire_upto seq (rc_qps n ! i)))" by (simp add: add.assoc)
  then show ?thesis by (simp add: conn_keys_def add.commute)
qed

lemma conns_view_absorb: "conns_view (absorb_receive v c w) = conns_view w"
  unfolding absorb_receive_def Let_def by (simp add: conns_view_def split: option.split)

lemma cc_absorb: "rp_cc (rw_prov (absorb_receive v c w)) = rp_cc (rw_prov w)"
  unfolding absorb_receive_def Let_def by (simp split: option.split)

lemma cc_note: "rp_cc (rw_prov (note_verified q st w)) = rp_cc (rw_prov w)"
  by (simp add: note_verified_def)

lemma conn_queues_failed [simp]: "conn_queues (n\<lparr>rc_failed := b\<rparr>) = conn_queues n"
  by (simp add: conn_queues_def)

lemma conns_view_note: "conns_view (note_verified q st w) = conns_view w"
  by (simp add: note_verified_def conns_view_def)

lemma handle_wc_cases:
  assumes "handle_wc v c w = (evs, w')"
  obtains (none) "evs = []" "conns_view w' = conns_view w" "rp_cc (rw_prov w') = rp_cc (rw_prov w)"
      "wc_wr_id c = kVerifyWrId \<or> wc_wr_id c AND kRecvWrId \<noteq> 0 \<or> rp_conn_by_qp (rw_prov w) (wc_qp_num c) = None \<or>
       length (rc_qps (rp_conns (rw_prov w) ! the (rp_conn_by_qp (rw_prov w) (wc_qp_num c)))) \<le> unat (wr_qp_index (wc_wr_id c))"
    | (some) k w1 n qi seq now where "rp_conn_by_qp (rw_prov w) (wc_qp_num c) = Some k" "conns_view w1 = conns_view w"
      "n = rp_conns (rw_prov w1) ! k" "qi < length (rc_qps n)" "evs = map (event_of (wc_st c)) (retired seq (rc_qps n ! qi))"
      "rc_qps n = rc_qps (rp_conns (rw_prov w) ! k)"
      "rp_cc (rw_prov w1) = fold (settle_cc (wc_st c) now) (retired seq (rc_qps n ! qi)) (rp_cc (rw_prov w))"
      "w' = upd_rc k (\<lambda>m. m\<lparr>rc_qps := (rc_qps n)[qi := retire_upto seq (rc_qps n ! qi)]\<rparr>) w1"
      "qi = unat (wr_qp_index (wc_wr_id c))" "seq = wr_seq (wc_wr_id c)"
proof (cases "wc_wr_id c = kVerifyWrId \<or> wc_wr_id c AND kRecvWrId \<noteq> 0 \<or> rp_conn_by_qp (rw_prov w) (wc_qp_num c) = None")
  case True
  then show ?thesis using assms none
    by (auto simp: handle_wc_def conns_view_absorb conns_view_note cc_absorb cc_note split: if_splits)
next
  case False
  then obtain k where k: "rp_conn_by_qp (rw_prov w) (wc_qp_num c) = Some k" by auto
  define w1 where "w1 = (if wc_st c \<noteq> WC_SUCCESS then upd_rc k (\<lambda>n. n\<lparr>rc_failed := True\<rparr>) w else w)"
  define n where "n = rp_conns (rw_prov w1) ! k"
  define qi where "qi = unat (wr_qp_index (wc_wr_id c))"
  define keys where "keys = retired (wr_seq (wc_wr_id c)) (rc_qps n ! qi)"
  obtain now w2 where c2: "rcall (vb_now v) w1 = (now, w2)" by fastforce
  define w3 where "w3 = upd_rp (\<lambda>p. p\<lparr>rp_cc := fold (settle_cc (wc_st c) now) keys (rp_cc p),
     rp_stats := fold count_event (map (event_of (wc_st c)) keys) (rp_stats p)\<rparr>) w2"
  have v1: "conns_view w1 = conns_view w" "rp_cc (rw_prov w1) = rp_cc (rw_prov w)" by (simp_all add: w1_def conns_view_upd_rc)
  have v3: "conns_view w3 = conns_view w" "n = rp_conns (rw_prov w3) ! k"
    "rp_cc (rw_prov w3) = fold (settle_cc (wc_st c) now) keys (rp_cc (rw_prov w))"
    using v1 rcall_prov [OF c2] by (simp_all add: w3_def conns_view_def n_def)
  have q: "rc_qps n = rc_qps (rp_conns (rw_prov w) ! k)"
    by (cases "k < length (rp_conns (rw_prov w))") (simp_all add: n_def w1_def list_update_beyond)
  have h: "(evs, w') = (if length (rc_qps n) \<le> qi then ([], w1)
    else (map (event_of (wc_st c)) keys,
       upd_rc k (\<lambda>m. m\<lparr>rc_qps := (rc_qps n)[qi := retire_upto (wr_seq (wc_wr_id c)) (rc_qps n ! qi)]\<rparr>) w3))"
    using False k c2 unfolding assms [symmetric] handle_wc_def Let_def w1_def n_def qi_def w3_def keys_def by simp
  show ?thesis
  proof (cases "length (rc_qps n) \<le> qi")
    case True
    with h v1 none q k show ?thesis by (simp add: qi_def)
  next
    case in_range: False
    with h v3 q k some [of k w3 n qi "wr_seq (wc_wr_id c)" now] show ?thesis by (simp add: keys_def qi_def)
  qed
qed

lemma handle_wc_spec:
  assumes "handle_wc v c w = (evs, w')" "rdma_inv w"
  shows "rdma_inv w'" "rdma_outstanding w = mset (map ce_key evs) + rdma_outstanding w'"
proof -
  have "rdma_inv w' \<and> rdma_outstanding w = mset (map ce_key evs) + rdma_outstanding w'"
    using assms(1)
  proof (cases rule: handle_wc_cases)
    case none
    then show ?thesis using conns_viewD [of w' w] assms(2) by simp
  next
    case (some k w1 n qi seq now)
    note o = conns_viewD [OF some(2)]
    have kl: "k < length (rp_conns (rw_prov w1))" using o(2) assms(2) some(1,2) by (auto simp: rdma_inv_def conns_view_def)
    have m: "mset (map ce_key evs) = mset (map ik_key (retired seq (rc_qps n ! qi)))" by (simp add: some(5) event_key comp_def)
    have "rdma_outstanding w' + mset (conn_keys n) = rdma_outstanding w1 +
        mset (conn_keys (n\<lparr>rc_qps := (rc_qps n)[qi := retire_upto seq (rc_qps n ! qi)]\<rparr>))"
      using outstanding_upd_rc [OF kl] some(3,8) by simp
    with retire_conn [OF some(4), of seq] m o(1) have "rdma_outstanding w = mset (map ce_key evs) + rdma_outstanding w'"
      by (simp add: add.assoc [symmetric]) (metis add.commute)
    moreover have "rdma_inv w'" using o(2) assms(2) by (simp add: some(8) rdma_inv_def)
    ultimately show ?thesis by blast
  qed
  then show "rdma_inv w'" "rdma_outstanding w = mset (map ce_key evs) + rdma_outstanding w'" by blast+
qed

lemma handle_wcs_spec:
  "handle_wcs v cs w = (evs, w') \<Longrightarrow> rdma_inv w \<Longrightarrow>
   rdma_inv w' \<and> rdma_outstanding w = mset (map ce_key evs) + rdma_outstanding w'"
proof (induction cs arbitrary: w evs)
  case (Cons c cs)
  obtain e1 w1 where a: "handle_wc v c w = (e1, w1)" by fastforce
  obtain e2 where b: "handle_wcs v cs w1 = (e2, w')" and "evs = e1 @ e2" using Cons.prems(1) a by (auto split: prod.splits)
  with handle_wc_spec [OF a Cons.prems(2)] Cons.IH [OF b] show ?case by (simp add: add.assoc)
qed simp

lemma drain_cq_prov: "drain_cq v n w = (d, w') \<Longrightarrow> rw_prov w' = rw_prov w"
  by (auto simp: drain_cq_def dest: rcall_prov split: if_splits)

lemma rdma_poll_cases:
  assumes "rdma_poll v n w = ((s, evs), w')"
  obtains (none) "w' = w" "evs = []"
    | (some) cs w2 where "conns_view w2 = conns_view w" "rp_cc (rw_prov w2) = rp_cc (rw_prov w)" "handle_wcs v cs w2 = (evs, w')"
proof (cases "n = 0")
  case True
  with assms none show ?thesis by (simp add: rdma_poll_def)
next
  case False
  let ?st = "take n (rp_stashed (rw_prov w))"
  define w1 where "w1 = upd_rp (\<lambda>p. p\<lparr>rp_stashed := drop n (rp_stashed p)\<rparr>) w"
  obtain d w2 where d: "(if length ?st < n then drain_cq v (n - length ?st) w1 else (Some [], w1)) = (d, w2)" by fastforce
  then have p: "rw_prov w2 = rw_prov w1" by (auto dest: drain_cq_prov split: if_splits)
  have "handle_wcs v (?st @ (case d of None \<Rightarrow> [] | Some cs \<Rightarrow> cs)) w2 = (evs, w')"
    using assms False unfolding rdma_poll_def Let_def w1_def [symmetric] d by (auto split: prod.splits)
  with some [of w2] p show ?thesis by (simp add: conns_view_def w1_def)
qed

lemma rdma_poll_spec:
  assumes "rdma_poll v n w = ((s, evs), w')" "rdma_inv w"
  shows "rdma_inv w' \<and> rdma_outstanding w = mset (map ce_key evs) + rdma_outstanding w'"
  using assms(1)
proof (cases rule: rdma_poll_cases)
  case none
  with assms(2) show ?thesis by simp
next
  case (some cs w2)
  from handle_wcs_spec [OF some(3)] conns_viewD [OF some(1)] assms(2) show ?thesis by simp
qed

end
