(* ===== verification/Hux_RdmaFlow.thy ===== *)
theory Hux_RdmaFlow
  imports Hux_Rdma
begin

text \<open>
  What the data path of transport/rdma keeps: work request ids say which queue pair and which post
  they belong to; a completion retires exactly what was posted at or before it; a batch never
  overfills a send queue and ends every queue pair it used with a signalled operation; and the
  congestion controller holds the bytes that are in flight, no more and no less.
\<close>

unbundle bit_operations_syntax

section \<open>Work request ids\<close>

lemma wr_id_bit:
  "bit (make_wr_id i s) n \<longleftrightarrow> (if n < 48 then bit s n else n < 64 \<and> n - 48 < 32 \<and> bit i (n - 48))"
  by (cases "n < 64")
    (auto simp: make_wr_id_def kQpShift_def bit_or_iff bit_and_iff bit_push_bit_iff bit_mask_iff bit_ucast_iff
      not_less dest: bit_imp_le_length)

lemma high_bits_clear:
  fixes w :: "'a::len word"
  assumes "w < 2 ^ n" "n \<le> m"
  shows "\<not> bit w m"
proof
  assume b: "bit w m"
  then have "m < LENGTH('a)" by (rule bit_imp_le_length)
  with assms have "take_bit n w = w" by (simp add: less_mask_eq take_bit_eq_mask)
  with b assms(2) show False by (metis bit_take_bit_iff not_less)
qed

text \<open>Bit 14 of an index would be the bit of \<open>kVerifyWrId\<close>, and bit 15 the one of \<open>kRecvWrId\<close>.\<close>

lemma wr_id_parts:
  assumes "i < 2 ^ 14" "s < 2 ^ 48"
  shows "wr_qp_index (make_wr_id i s) = i" "wr_seq (make_wr_id i s) = s"
    "make_wr_id i s \<noteq> kVerifyWrId" "make_wr_id i s AND kRecvWrId = 0"
proof -
  note hi = high_bits_clear [OF assms(1)] and hs = high_bits_clear [OF assms(2)]
  have m: "bit (0x7fff :: u64) n \<longleftrightarrow> n < 15" for n
  proof -
    have e: "(0x7fff :: u64) = mask 15" by (simp add: mask_eq_exp_minus_1)
    show ?thesis unfolding e bit_mask_iff by auto
  qed
  have ix: "bit (drop_bit 48 (make_wr_id i s) AND 0x7fff) n = bit i n" for n
    using hi [of n] m [of n] by (cases "n < 14") (simp_all add: bit_and_iff bit_drop_bit_eq wr_id_bit)
  show "wr_qp_index (make_wr_id i s) = i"
  proof (rule bit_eqI)
    fix n
    assume "possible_bit TYPE(32 word) n"
    then show "bit (wr_qp_index (make_wr_id i s)) n = bit i n"
      by (simp add: wr_qp_index_def kQpShift_def bit_ucast_iff ix)
  qed
  show "wr_seq (make_wr_id i s) = s"
  proof (rule bit_eqI)
    fix n
    show "bit (wr_seq (make_wr_id i s)) n = bit s n"
      using hs [of n] by (auto simp: wr_seq_def kQpShift_def bit_and_iff bit_mask_iff wr_id_bit dest: bit_imp_le_length)
  qed
  have "bit kVerifyWrId 62" by (simp add: kVerifyWrId_def bit_push_bit_iff)
  moreover have "\<not> bit (make_wr_id i s) 62" using hi [of 14] by (simp add: wr_id_bit)
  ultimately show "make_wr_id i s \<noteq> kVerifyWrId" by auto
  have "bit kRecvWrId n \<longleftrightarrow> n = 63" for n
    unfolding kRecvWrId_def bit_push_bit_iff bit_1_iff by auto
  moreover have "\<not> bit (make_wr_id i s) 63" using hi [of 15] by (simp add: wr_id_bit)
  ultimately show "make_wr_id i s AND kRecvWrId = 0" by (intro bit_eqI) (auto simp: bit_and_iff)
qed

section \<open>What a completion retires\<close>

text \<open>The operations of a queue pair that have not been retired are the ones posted since.\<close>

definition qp_wf :: "queue_pair \<Rightarrow> bool" where
  "qp_wf q \<longleftrightarrow> qp_reclaimed q \<le> qp_posted q \<and>
     map fst (qp_unsignalled q) = map word_of_nat [unat (qp_reclaimed q) ..< unat (qp_posted q)]"

lemma unat_u64: "n < 2 ^ 64 \<Longrightarrow> unat (word_of_nat n :: u64) = n"
  by (simp add: unat_of_nat take_bit_eq_mod)

lemma retire_exact:
  assumes "qp_wf q" "qp_reclaimed q \<le> s" "s < qp_posted q"
  shows "retired s q = map snd (take (Suc (unat s - unat (qp_reclaimed q))) (qp_unsignalled q))"
    "qp_wf (retire_upto s q)"
    "qp_unsignalled (retire_upto s q) = drop (Suc (unat s - unat (qp_reclaimed q))) (qp_unsignalled q)"
proof -
  let ?a = "unat (qp_reclaimed q)" and ?b = "unat (qp_posted q)" and ?u = "qp_unsignalled q"
  let ?k = "Suc (unat s - ?a)"
  have a: "?a \<le> unat s" "unat s < ?b" using assms(2,3) by (simp_all add: word_le_nat_alt word_less_nat_alt)
  have fsts: "map fst ?u = map word_of_nat [?a ..< ?b]" using assms(1) by (simp add: qp_wf_def)
  then have len: "length ?u = ?b - ?a" by (metis length_map length_upt)
  have nth: "unat (fst (?u ! i)) = ?a + i" if "i < length ?u" for i
  proof -
    have "map fst ?u ! i = map word_of_nat [?a ..< ?b] ! i" by (simp only: fsts)
    then have "fst (?u ! i) = word_of_nat (?a + i)" using that len by simp
    moreover have "?a + i < 2 ^ 64" using that len unat_less [of "qp_posted q"] by simp
    ultimately show ?thesis using unat_u64 [of "?a + i"] by simp
  qed
  have kl: "?k \<le> length ?u" using a len by simp
  have t: "takeWhile (\<lambda>u. fst u \<le> s) ?u = take ?k ?u"
  proof (rule takeWhile_eq_take_P_nth)
    show "fst (?u ! i) \<le> s" if "i < ?k" "i < length ?u" for i using nth [OF that(2)] that(1) a by (simp add: word_le_nat_alt)
    show "\<not> fst (?u ! ?k) \<le> s" if "?k < length ?u" using nth [OF that] a by (simp add: word_le_nat_alt)
  qed
  then have d: "dropWhile (\<lambda>u. fst u \<le> s) ?u = drop ?k ?u" by (metis append_eq_append_conv append_take_drop_id takeWhile_dropWhile_id)
  show "retired s q = map snd (take ?k ?u)" by (simp add: retired_def t)
  have r: "retire_upto s q = q\<lparr>qp_unsignalled := drop ?k ?u, qp_reclaimed := s + 1\<rparr>" by (simp add: retire_upto_def d)
  then show "qp_unsignalled (retire_upto s q) = drop ?k ?u" by simp
  have s1: "unat (s + 1) = Suc (unat s)"
    using a unat_less [of "qp_posted q"] unat_add_small [of s 1] by simp
  have "map fst (drop ?k ?u) = map word_of_nat [?a + ?k ..< ?b]" 
    by (simp only: drop_map [symmetric] fsts) (simp only: drop_map drop_upt)
  moreover have "?a + ?k = Suc (unat s)" using a by simp
  ultimately show "qp_wf (retire_upto s q)" using a s1 by (simp add: qp_wf_def r word_le_nat_alt)
qed

lemma posted_wf:
  assumes "qp_wf q" "unat (qp_posted q) + 1 < 2 ^ 64"
  shows "qp_wf (posted_on p t q)"
proof -
  have "unat (qp_posted q + 1) = Suc (unat (qp_posted q))"
    using assms(2) unat_add_small [of "qp_posted q" 1] by simp
  with assms(1) show ?thesis by (simp add: qp_wf_def posted_on_def word_le_nat_alt)
qed

section \<open>A send queue is never overfilled\<close>

text \<open>How many operations of a plan go to queue pair \<open>i\<close>.\<close>

definition share :: "nat \<Rightarrow> planned list \<Rightarrow> nat" where
  "share i ps = length (filter (\<lambda>p. pl_qp p = i) ps)"

lemma share_simps [simp]:
  "share i [] = 0" "share i (p # ps) = (if pl_qp p = i then 1 else 0) + share i ps" "share i (ps @ qs) = share i ps + share i qs"
  by (simp_all add: share_def)

lemma share_take_le: "share i (take n ps) \<le> share i ps"
  by (metis append_take_drop_id le_add1 share_simps(3))

definition plan_fits :: "rdma_config \<Rightarrow> queue_pair list \<Rightarrow> plan_state \<Rightarrow> bool" where
  "plan_fits cfg qps st \<longleftrightarrow> length (pn_seq st) = length qps \<and>
     (\<forall>i < length qps. pn_seq st ! i = qp_posted (qps ! i) + word_of_nat (share i (pn_plan st)) \<and>
        unat (qp_used (qps ! i)) + share i (pn_plan st) \<le> unat (rf_sq_depth cfg))"

lemma plan_on_fits:
  assumes "plan_fits cfg qps st" "\<not> ucast (rf_sq_depth cfg) \<le> pn_seq st ! qi - qp_reclaimed (qps ! qi)" "qi < length qps"
  shows "plan_fits cfg qps (plan_on cfg op m qi used (st\<lparr>pn_next_qp := nq, pn_cc := cc\<rparr>))"
proof -
  let ?n = "share qi (pn_plan st)"
  have s: "pn_seq st ! qi = qp_posted (qps ! qi) + word_of_nat ?n" "unat (qp_used (qps ! qi)) + ?n \<le> unat (rf_sq_depth cfg)"
    using assms(1,3) by (simp_all add: plan_fits_def)
  have d: "unat (rf_sq_depth cfg) < 2 ^ 32" using unat_less [of "rf_sq_depth cfg"] by simp
  have "unat (word_of_nat ?n :: u64) = ?n" using s(2) d by (intro unat_u64) simp
  then have "unat (qp_used (qps ! qi) + word_of_nat ?n) = unat (qp_used (qps ! qi)) + ?n"
    using s(2) d unat_add_small [of "qp_used (qps ! qi)" "word_of_nat ?n"] by simp
  moreover have "pn_seq st ! qi - qp_reclaimed (qps ! qi) = qp_used (qps ! qi) + word_of_nat ?n" by (simp add: s(1) qp_used_def)
  moreover have "unat (ucast (rf_sq_depth cfg) :: u64) = unat (rf_sq_depth cfg)" 
    using d by (simp add: unsigned_ucast_eq take_bit_nat_eq_self)
  ultimately have "unat (qp_used (qps ! qi)) + ?n < unat (rf_sq_depth cfg)"
    using assms(2) by (simp add: word_le_nat_alt)
  with assms(1,3) show ?thesis
    by (auto simp: plan_fits_def plan_on_def Let_def nth_list_update)
qed

lemma plan_ops_fits:
  "plan_ops v cfg regions qps ops st x = (s, st', x') \<Longrightarrow> plan_fits cfg qps st \<Longrightarrow> plan_fits cfg qps st'"
proof (induction ops arbitrary: st x)
  case (Cons op ops)
  from Cons.prems(1) show ?case
  proof (cases rule: plan_ops_cases)
    case (stop nq)
    with Cons.prems(2) show ?thesis by (simp add: plan_fits_def)
  next
    case (go m nq qi now x1)
    show ?thesis by (rule Cons.IH [OF go(5) plan_on_fits [OF Cons.prems(2) go(3) pick_in [OF go(2)]]])
  qed
qed simp

lemma post_plan_counts:
  "post_plan v plan n qps s x = (rc, n', qps', s', x') \<Longrightarrow> i < length qps \<Longrightarrow> list_all (\<lambda>p. pl_qp p < length qps) plan \<Longrightarrow>
   qp_posted (qps' ! i) = qp_posted (qps ! i) + word_of_nat (share i (take (n' - n) plan)) \<and>
   qp_reclaimed (qps' ! i) = qp_reclaimed (qps ! i)"
proof (induction plan arbitrary: n qps s x)
  case (Cons p ps)
  obtain r x1 where y: "vb_post_send v (qp_num (qps ! pl_qp p)) (send_wr_of p (qp_posted (qps ! pl_qp p))) x = (r, x1)" by fastforce
  show ?case
  proof (cases "r = 0")
    case False
    with Cons.prems y show ?thesis by simp
  next
    case True
    obtain t x2 where t: "vb_now v x1 = (t, x2)" by fastforce
    let ?q = "qps[pl_qp p := posted_on p t (qps ! pl_qp p)]"
    have po: "post_plan v ps (Suc n) ?q (count_posted (pl_op p) s) x2 = (rc, n', qps', s', x')"
      using Cons.prems(1) y True t by simp
    have la: "list_all (\<lambda>p. pl_qp p < length ?q) ps" using Cons.prems(3) by simp
    have "Suc n \<le> n'" using post_plan_spec [OF po la] by simp
    then have "take (n' - n) (p # ps) = p # take (n' - Suc n) ps" by (simp add: Suc_diff_le take_Cons')
    with Cons.IH [OF po _ la] Cons.prems(2) show ?thesis
      by (cases "pl_qp p = i") (simp_all add: posted_on_def add.assoc)
  qed
qed simp

lemma start_fits:
  assumes "list_all (\<lambda>q. qp_used q \<le> ucast (rf_sq_depth cfg)) (rc_qps c)"
  shows "plan_fits cfg (rc_qps c) (start_plan cc c)"
proof -
  have "unat (ucast (rf_sq_depth cfg) :: u64) = unat (rf_sq_depth cfg)"
    using unat_less [of "rf_sq_depth cfg"] by (simp add: unsigned_ucast_eq take_bit_nat_eq_self)
  with assms show ?thesis by (auto simp: plan_fits_def start_plan_def list_all_length word_le_nat_alt)
qed

lemma share_signal_last: "share i (signal_last ls plan) = share i plan"
proof -
  have e: "share i ps = length (filter (\<lambda>j. j = i) (map pl_qp ps))" for ps by (induction ps) simp_all
  show ?thesis by (simp only: e signal_last_keeps)
qed

lemma submit_on_within_depth:
  assumes "submit_on v c ops w = (r, w')" "c < length (rp_conns (rw_prov w))"
    and d: "list_all (\<lambda>q. qp_used q \<le> ucast (rf_sq_depth (rp_cfg (rw_prov w)))) (rc_qps (rp_conns (rw_prov w) ! c))"
  shows "list_all (\<lambda>q. qp_used q \<le> ucast (rf_sq_depth (rp_cfg (rw_prov w)))) (rc_qps (rp_conns (rw_prov w') ! c))"
  using assms(1)
proof (cases rule: submit_on_cases)
  case (1 ps st x1 plan rc n qps stats x2 cc x3)
  let ?cfg = "rp_cfg (rw_prov w)" and ?qps = "rc_qps (rp_conns (rw_prov w) ! c)"
  note sp = post_plan_spec [OF 1(3) 1(10), simplified]
  have fits: "plan_fits ?cfg ?qps st" by (rule plan_ops_fits [OF 1(1) start_fits [OF d]])
  have de: "unat (ucast (rf_sq_depth ?cfg) :: u64) = unat (rf_sq_depth ?cfg)"
    using unat_less [of "rf_sq_depth ?cfg"] by (simp add: unsigned_ucast_eq take_bit_nat_eq_self)
  have "qp_used (qps ! i) \<le> ucast (rf_sq_depth ?cfg)" if i: "i < length ?qps" for i
  proof -
    let ?n = "share i (take n plan)"
    have "?n \<le> share i (pn_plan st)" using share_take_le [of i n plan] by (simp add: 1(2) share_signal_last)
    then have le: "unat (qp_used (?qps ! i)) + ?n \<le> unat (rf_sq_depth ?cfg)" using fits i by (fastforce simp: plan_fits_def)
    have u: "qp_used (qps ! i) = qp_used (?qps ! i) + word_of_nat ?n"
      using post_plan_counts [OF 1(3) i 1(10)] by (simp add: qp_used_def)
    have b: "unat (rf_sq_depth ?cfg) < 2 ^ 32" using unat_less [of "rf_sq_depth ?cfg"] by simp
    then have "unat (word_of_nat ?n :: u64) = ?n" using le by (intro unat_u64) simp
    with le b unat_add_small [of "qp_used (?qps ! i)" "word_of_nat ?n"] de show ?thesis by (simp add: u word_le_nat_alt)
  qed
  moreover have "rc_qps (rp_conns (rw_prov w') ! c) = qps" using assms(2) by (simp add: 1(6))
  ultimately show ?thesis using sp by (simp add: list_all_length)
qed

section \<open>Every queue pair ends a batch with a signalled operation\<close>

text \<open>\<open>qs\<close> are the queue pairs of a plan, in its order; \<open>ls\<close> says where each comes last.\<close>

definition lasts_ok :: "nat \<Rightarrow> nat option list \<Rightarrow> nat list \<Rightarrow> bool" where
  "lasts_ok n ls qs \<longleftrightarrow> length ls = n \<and> (\<forall>i < n. case ls ! i of
     None \<Rightarrow> i \<notin> set qs
   | Some k \<Rightarrow> k < length qs \<and> qs ! k = i \<and> i \<notin> set (drop (Suc k) qs))"

lemma lasts_okD:
  assumes "lasts_ok n ls qs" "i < n" "ls ! i = Some k"
  shows "k < length qs" "qs ! k = i" "i \<notin> set (drop (Suc k) qs)" "i < length ls"
  using assms by (auto simp: lasts_ok_def)

lemma lasts_ok_snoc:
  assumes "lasts_ok n ls qs" "q < n"
  shows "lasts_ok n (ls[q := Some (length qs)]) (qs @ [q])"
proof -
  have "case ls[q := Some (length qs)] ! i of
      None \<Rightarrow> i \<notin> set (qs @ [q])
    | Some k \<Rightarrow> k < length (qs @ [q]) \<and> (qs @ [q]) ! k = i \<and> i \<notin> set (drop (Suc k) (qs @ [q]))" if i: "i < n" for i
    using assms i by (cases "i = q") (fastforce simp: lasts_ok_def nth_append split: option.splits)+
  with assms(1) show ?thesis by (simp add: lasts_ok_def)
qed

lemma plan_ops_lasts:
  "plan_ops v cfg regions qps ops st x = (s, st', x') \<Longrightarrow> lasts_ok (length qps) (pn_last st) (map pl_qp (pn_plan st)) \<Longrightarrow>
   lasts_ok (length qps) (pn_last st') (map pl_qp (pn_plan st'))"
proof (induction ops arbitrary: st x)
  case (Cons op ops)
  from Cons.prems(1) show ?case
  proof (cases rule: plan_ops_cases)
    case (stop nq)
    with Cons.prems(2) show ?thesis by simp
  next
    case (go m nq qi now x1)
    have "lasts_ok (length qps) (pn_last (plan_on cfg op m qi u (st\<lparr>pn_next_qp := nq, pn_cc := cc\<rparr>)))
        (map pl_qp (pn_plan (plan_on cfg op m qi u (st\<lparr>pn_next_qp := nq, pn_cc := cc\<rparr>))))" for u cc
      using lasts_ok_snoc [OF Cons.prems(2) pick_in [OF go(2)]] by (simp add: plan_on_def Let_def)
    then show ?thesis by (rule Cons.IH [OF go(5)])
  qed
qed simp

lemma signal_last_nth:
  "j < length plan \<Longrightarrow> pl_signal (signal_last ls plan ! j) = (pl_signal (plan ! j) \<or> Some j \<in> set ls)"
proof (induction ls arbitrary: plan)
  case (Cons l ls)
  show ?case
  proof (cases l)
    case None
    with Cons show ?thesis by (simp add: signal_last_def)
  next
    case (Some i)
    let ?p = "plan[i := (plan ! i)\<lparr>pl_signal := True\<rparr>]"
    have "signal_last (l # ls) plan = signal_last ls ?p" by (simp add: Some signal_last_def)
    with Cons.IH [of ?p] Cons.prems show ?thesis by (cases "i = j") (auto simp: Some)
  qed
qed (simp add: signal_last_def)

text \<open>Whether the last operation of queue pair \<open>i\<close> is signalled, \<open>b\<close> being how it stands before.\<close>

fun tail_signalled :: "nat \<Rightarrow> planned list \<Rightarrow> bool \<Rightarrow> bool" where
  "tail_signalled i [] b = b"
| "tail_signalled i (p # ps) b = tail_signalled i ps (if pl_qp p = i then pl_signal p else b)"

lemma tail_signalled_append: "tail_signalled i (ps @ rs) b = tail_signalled i rs (tail_signalled i ps b)"
  by (induction ps arbitrary: b) simp_all

lemma tail_signalled_none: "i \<notin> set (map pl_qp ps) \<Longrightarrow> tail_signalled i ps b = b"
  by (induction ps) auto

lemma tail_signalled_at:
  assumes "k < length ps" "pl_signal (ps ! k)" "pl_qp (ps ! k) = i" "i \<notin> set (drop (Suc k) (map pl_qp ps))"
  shows "tail_signalled i ps b"
proof -
  have "tail_signalled i (take k ps @ ps ! k # drop (Suc k) ps) b"
    using assms by (simp add: tail_signalled_append tail_signalled_none drop_map)
  then show ?thesis using assms(1) by (simp add: id_take_nth_drop [symmetric])
qed

lemma tail_signalled_last:
  "tail_signalled i (ps @ p # rs) b \<Longrightarrow> pl_qp p = i \<Longrightarrow> i \<notin> set (map pl_qp rs) \<Longrightarrow> pl_signal p"
  by (simp add: tail_signalled_append tail_signalled_none)

lemma planned_signalled:
  assumes "plan_ops v cfg regions qps ops (start_plan cc conn) x = (s, st, x')" "rc_qps conn = qps" "i < length qps"
  shows "tail_signalled i (signal_last (pn_last st) (pn_plan st)) True"
proof -
  let ?plan = "signal_last (pn_last st) (pn_plan st)"
  have l: "lasts_ok (length qps) (pn_last st) (map pl_qp ?plan)"
    unfolding signal_last_keeps by (rule plan_ops_lasts [OF assms(1)]) (simp add: lasts_ok_def start_plan_def assms(2))
  show ?thesis
  proof (cases "pn_last st ! i")
    case None
    with l assms(3) have "i \<notin> set (map pl_qp ?plan)" by (auto simp: lasts_ok_def)
    then show ?thesis by (simp add: tail_signalled_none)
  next
    case (Some k)
    note k = lasts_okD [OF l assms(3) Some, unfolded length_map]
    have "Some k \<in> set (pn_last st)" using nth_mem [OF k(4)] by (simp add: Some)
    then have "pl_signal (?plan ! k)" using k(1) by (simp add: signal_last_nth signal_last_keeps)
    moreover have "pl_qp (?plan ! k) = i" using k(1,2) by simp
    ultimately show ?thesis by (rule tail_signalled_at [OF k(1) _ _ k(3)])
  qed
qed

text \<open>
  To say what an adapter is handed, any adapter can be watched: it does what it does, and the sends
  it takes and the receives it is given are written down in order.
\<close>

datatype posting = Taken u32 send_wr | Armed u32 mr

definition watched :: "'x verbs \<Rightarrow> ('x \<times> posting list) verbs" where
  "watched v = \<lparr>
     vb_post_send = (\<lambda>q wr (x, l). case vb_post_send v q wr x of (rc, x') \<Rightarrow> (rc, x', if rc = 0 then l @ [Taken q wr] else l)),
     vb_post_recv = (\<lambda>q m (x, l). case vb_post_recv v q m x of (rc, x') \<Rightarrow> (rc, x', l @ [Armed q m])),
     vb_poll_cq = (\<lambda>n (x, l). case vb_poll_cq v n x of (cs, x') \<Rightarrow> (cs, x', l)),
     vb_reg_mr = (\<lambda>a len acc (x, l). case vb_reg_mr v a len acc x of (m, x') \<Rightarrow> (m, x', l)),
     vb_dereg_mr = (\<lambda>m (x, l). case vb_dereg_mr v m x of (rc, x') \<Rightarrow> (rc, x', l)),
     vb_now = (\<lambda>(x, l). case vb_now v x of (t, x') \<Rightarrow> (t, x', l)), vb_enomem = vb_enomem v\<rparr>"

lemma watched_simps [simp]:
  "vb_now (watched v) (x, l) = (case vb_now v x of (t, x') \<Rightarrow> (t, x', l))"
  "vb_post_recv (watched v) q m (x, l) = (case vb_post_recv v q m x of (rc, x') \<Rightarrow> (rc, x', l @ [Armed q m]))"
  "vb_post_send (watched v) q wr (x, l) =
    (case vb_post_send v q wr x of (rc, x') \<Rightarrow> (rc, x', if rc = 0 then l @ [Taken q wr] else l))"
  by (simp_all add: watched_def)

lemma watched_now: "vb_now (watched v) y = (t, y') \<Longrightarrow> snd y' = snd y"
  by (cases y) (auto split: prod.splits)

lemma plan_ops_watched: "plan_ops (watched v) cfg regions qps ops st y = (s, st', y') \<Longrightarrow> snd y' = snd y"
proof (induction ops arbitrary: st y)
  case (Cons op ops)
  obtain t y1 where t: "vb_now (watched v) y = (t, y1)" by (rule prod.exhaust)
  have "snd y' = snd y1" if "plan_ops (watched v) cfg regions qps ops st1 y1 = (s, st', y')" for st1
    using Cons.IH [OF that] .
  with Cons.prems t watched_now [OF t] show ?case
    by (auto simp: Let_def split: option.splits prod.splits if_splits)
qed simp

lemma release_plan_watched: "release_plan (watched v) ps cc y = (cc', y') \<Longrightarrow> snd y' = snd y"
proof (induction ps arbitrary: cc y)
  case (Cons p ps)
  obtain t y1 where t: "vb_now (watched v) y = (t, y1)" by (rule prod.exhaust)
  with Cons.prems have "release_plan (watched v) ps (cc_on_error (cc_dir (pl_op p)) (so_length (pl_op p)) t cc) y1 = (cc', y')"
    by simp
  from Cons.IH [OF this] watched_now [OF t] show ?case by simp
qed simp

text \<open>The work request for an operation, as far as the operation decides it.\<close>

definition carries :: "send_wr \<Rightarrow> subop \<Rightarrow> bool" where
  "carries wr op \<longleftrightarrow> wr_opcode wr = (if so_kind op = kWrite then WR_RDMA_WRITE else WR_RDMA_READ) \<and>
     wr_addr wr = so_local_addr op \<and> wr_len wr = ucast (so_length op) \<and>
     wr_remote_addr wr = so_remote_addr op \<and> wr_rkey wr = ucast (so_remote_key op)"

definition posted_as :: "u32 list \<Rightarrow> planned \<Rightarrow> posting \<Rightarrow> bool" where
  "posted_as nums p e \<longleftrightarrow> (\<exists>wr. e = Taken (nums ! pl_qp p) wr \<and> wr_signaled wr = pl_signal p \<and> carries wr (pl_op p))"

lemma post_plan_watched:
  "post_plan (watched v) plan n qps s y = (rc, n', qps', s', y') \<Longrightarrow> list_all (\<lambda>p. pl_qp p < length qps) plan \<Longrightarrow>
   \<exists>new. snd y' = snd y @ new \<and> list_all2 (posted_as (map qp_num qps)) (take (n' - n) plan) new"
proof (induction plan arbitrary: n qps s y)
  case (Cons p ps)
  obtain x l where y: "y = (x, l)" by fastforce
  let ?wr = "send_wr_of p (qp_posted (qps ! pl_qp p))"
  obtain r x1 where r: "vb_post_send v (qp_num (qps ! pl_qp p)) ?wr x = (r, x1)" by fastforce
  show ?case
  proof (cases "r = 0")
    case False
    with Cons.prems r y show ?thesis by auto
  next
    case True
    let ?l = "l @ [Taken (qp_num (qps ! pl_qp p)) ?wr]"
    obtain t y2 where t: "vb_now (watched v) (x1, ?l) = (t, y2)" by (rule prod.exhaust)
    let ?q = "qps[pl_qp p := posted_on p t (qps ! pl_qp p)]"
    have po: "post_plan (watched v) ps (Suc n) ?q (count_posted (pl_op p) s) y2 = (rc, n', qps', s', y')"
      using Cons.prems(1) y r True t by (simp del: watched_simps(1) add: watched_simps(3))
    have la: "list_all (\<lambda>p. pl_qp p < length ?q) ps" using Cons.prems(2) by simp
    have nums: "map qp_num ?q = map qp_num qps" by (rule map_update_same) (simp add: posted_on_def)
    obtain new where new: "snd y' = snd y2 @ new" "list_all2 (posted_as (map qp_num qps)) (take (n' - Suc n) ps) new"
      using Cons.IH [OF po la] by (auto simp: nums)
    have "n < n'" using post_plan_spec [OF po la] by simp
    then have "take (n' - n) (p # ps) = p # take (n' - Suc n) ps" by (simp add: take_Cons' Suc_diff_Suc)
    moreover have "posted_as (map qp_num qps) p (Taken (qp_num (qps ! pl_qp p)) ?wr)"
      using Cons.prems(2) by (simp add: posted_as_def carries_def send_wr_of_def)
    ultimately show ?thesis using new watched_now [OF t] y by (intro exI [of _ "Taken (qp_num (qps ! pl_qp p)) ?wr # new"]) simp
  qed
qed simp

text \<open>The work requests a queue pair was handed.\<close>

fun sends_to :: "u32 \<Rightarrow> posting list \<Rightarrow> send_wr list" where
  "sends_to q [] = []"
| "sends_to q (Taken n wr # l) = (if n = q then wr # sends_to q l else sends_to q l)"
| "sends_to q (Armed n m # l) = sends_to q l"

lemma sends_to_empty:
  "list_all2 (posted_as nums) plan new \<Longrightarrow> sends_to q new = [] \<longleftrightarrow> (\<forall>p\<in>set plan. nums ! pl_qp p \<noteq> q)"
proof (induction rule: list_all2_induct)
  case (Cons p plan e new)
  then obtain wr where "e = Taken (nums ! pl_qp p) wr" by (auto simp: posted_as_def)
  with Cons.IH show ?case by simp
qed simp

lemma sends_to_last:
  "list_all2 (posted_as nums) plan new \<Longrightarrow> sends_to q new \<noteq> [] \<Longrightarrow>
   \<exists>ps p rs. plan = ps @ p # rs \<and> (\<forall>p'\<in>set rs. nums ! pl_qp p' \<noteq> q) \<and> nums ! pl_qp p = q \<and>
     wr_signaled (last (sends_to q new)) = pl_signal p"
proof (induction rule: list_all2_induct)
  case (Cons p plan e new)
  obtain wr where e: "e = Taken (nums ! pl_qp p) wr" "wr_signaled wr = pl_signal p" using Cons.hyps(1) by (auto simp: posted_as_def)
  show ?case
  proof (cases "sends_to q new = []")
    case True
    then have "\<forall>p'\<in>set plan. nums ! pl_qp p' \<noteq> q" using sends_to_empty [OF Cons.hyps(2)] by simp
    with True Cons.prems e show ?thesis by (intro exI [of _ "[]"] exI [of _ p] exI [of _ plan]) (simp split: if_splits)
  next
    case False
    then obtain ps p' rs where "plan = ps @ p' # rs" "\<forall>p'\<in>set rs. nums ! pl_qp p' \<noteq> q" "nums ! pl_qp p' = q"
      "wr_signaled (last (sends_to q new)) = pl_signal p'" using Cons.IH by blast
    with False e show ?thesis by (intro exI [of _ "p # ps"] exI [of _ p'] exI [of _ rs]) simp
  qed
qed simp

lemma submit_on_handed:
  assumes "submit_on (watched v) c ops w = (r, w')" "sr_errno r = 0"
  shows "\<exists>new. snd (rw_x w') = snd (rw_x w) @ new \<and>
    list_all2 (\<lambda>op e. \<exists>q wr. e = Taken q wr \<and> carries wr op) (take (sr_accepted r) ops) new \<and>
    (\<forall>q. sends_to q new \<noteq> [] \<longrightarrow> wr_signaled (last (sends_to q new)))"
  using assms(1)
proof (cases rule: submit_on_cases)
  case (1 ps st y1 plan rc n qps stats y2 cc y3)
  let ?qps = "rc_qps (rp_conns (rw_prov w) ! c)" and ?nums = "map qp_num (rc_qps (rp_conns (rw_prov w) ! c))"
  have n: "n = length plan" using post_plan_spec [OF 1(3,10)] assms(2) by (simp add: 1(5))
  obtain new where new: "snd y2 = snd y1 @ new" "list_all2 (posted_as ?nums) plan new"
    using post_plan_watched [OF 1(3,10)] by (auto simp: n)
  have "snd (rw_x w') = snd (rw_x w) @ new"
    using plan_ops_watched [OF 1(1)] release_plan_watched [OF 1(4)] new(1) by (simp add: 1(6) upd_rc_def upd_rp_def)
  moreover have "list_all2 (\<lambda>op e. \<exists>q wr. e = Taken q wr \<and> carries wr op) (map pl_op plan) new"
    unfolding list_all2_map1 by (rule list_all2_mono [OF new(2)]) (auto simp: posted_as_def)
  then have "list_all2 (\<lambda>op e. \<exists>q wr. e = Taken q wr \<and> carries wr op) (take (sr_accepted r) ops) new"
    using 1(7) by (simp add: 1(5) n)
  moreover have "wr_signaled (last (sends_to q new))" if q: "sends_to q new \<noteq> []" for q
  proof -
    obtain as p rs where p: "plan = as @ p # rs" "\<forall>p'\<in>set rs. ?nums ! pl_qp p' \<noteq> q" "?nums ! pl_qp p = q"
      "wr_signaled (last (sends_to q new)) = pl_signal p" using sends_to_last [OF new(2) q] by blast
    have "pl_qp p < length ?qps" using 1(10) by (simp add: p(1))
    from planned_signalled [OF 1(1) refl this] have "tail_signalled (pl_qp p) (as @ p # rs) True" by (simp add: 1(2) flip: p(1))
    moreover have "pl_qp p \<notin> set (map pl_qp rs)" using p(2,3) by auto
    ultimately show ?thesis using tail_signalled_last p(4) by blast
  qed
  ultimately show ?thesis by blast
qed

section \<open>The controller holds what is in flight\<close>

definition key_charge :: "inflight_key \<Rightarrow> cc_direction \<times> u64" where
  "key_charge k = (key_dir k, ik_bytes k)"

definition op_charge :: "subop \<Rightarrow> cc_direction \<times> u64" where
  "op_charge op = (cc_dir op, so_length op)"

definition qp_ledger :: "queue_pair \<Rightarrow> ledger" where
  "qp_ledger q = map (\<lambda>u. key_charge (snd u)) (qp_unsignalled q)"

definition conn_ledger :: "rdma_conn \<Rightarrow> ledger" where
  "conn_ledger c = concat (map qp_ledger (rc_qps c))"

definition rdma_ledger :: "'x rdma_world \<Rightarrow> ledger" where
  "rdma_ledger w = concat (map conn_ledger (rp_conns (rw_prov w)))"

definition budget_exact :: "'x rdma_world \<Rightarrow> bool" where
  "budget_exact w \<longleftrightarrow> tracks cc_inflight (rdma_ledger w) (rp_cc (rw_prov w))"

lemma ledger_append [simp]: "ledger_bytes d (xs @ ys) = ledger_bytes d xs + ledger_bytes d ys"
  by (simp add: ledger_bytes_def)

lemma ledger_take_drop: "ledger_bytes d (take n xs) + ledger_bytes d (drop n xs) = ledger_bytes d xs"
  by (metis append_take_drop_id ledger_append)

lemma ledger_update:
  "i < length xs \<Longrightarrow> ledger_bytes d (concat (map f (xs[i := x]))) + ledger_bytes d (f (xs ! i)) =
   ledger_bytes d (concat (map f xs)) + ledger_bytes d (f x)"
proof (induction xs arbitrary: i)
  case (Cons a xs)
  then show ?case by (cases i) (auto simp: add.assoc add.left_commute)
qed simp

lemma plan_ops_charges:
  "plan_ops v cfg regions qps ops st x = (s, st', x') \<Longrightarrow>
   (\<And>d. unat (cc_inflight d (pn_cc st)) + ledger_bytes d (map op_charge ops) < 2 ^ 64) \<Longrightarrow>
   \<exists>new. pn_plan st' = pn_plan st @ new \<and>
     (\<forall>d. unat (cc_inflight d (pn_cc st')) = unat (cc_inflight d (pn_cc st)) + ledger_bytes d (map (\<lambda>p. op_charge (pl_op p)) new))"
proof (induction ops arbitrary: st x)
  case (Cons op ops)
  from Cons.prems(1) show ?case
  proof (cases rule: plan_ops_cases)
    case (stop nq)
    then show ?thesis by (intro exI [of _ "[]"]) simp
  next
    case (go m nq qi now x1)
    let ?u = "pn_seq st ! qi - qp_reclaimed (qps ! qi)"
    let ?st = "plan_on cfg op m qi ?u (st\<lparr>pn_next_qp := nq, pn_cc := cc_on_post (cc_dir op) (so_length op) now (pn_cc st)\<rparr>)"
    have c: "unat (cc_inflight d (pn_cc ?st)) = unat (cc_inflight d (pn_cc st)) + ledger_bytes d [op_charge op]" for d
      using Cons.prems(2) [of d] unat_add_small [of "cc_inflight d (pn_cc st)" "so_length op"]
      by (auto simp: plan_on_def Let_def any_cc.inflight_post op_charge_def)
    have "\<And>d. unat (cc_inflight d (pn_cc ?st)) + ledger_bytes d (map op_charge ops) < 2 ^ 64"
      using Cons.prems(2) by (simp add: c add.assoc)
    from Cons.IH [OF go(5) this] obtain new where "pn_plan st' = pn_plan ?st @ new"
      "\<forall>d. unat (cc_inflight d (pn_cc st')) = unat (cc_inflight d (pn_cc ?st)) + ledger_bytes d (map (\<lambda>p. op_charge (pl_op p)) new)"
      by blast
    moreover define pl where "pl = \<lparr>pl_qp = qi, pl_op = op, pl_signal = want_signal cfg (pn_since st ! qi) ?u, pl_mr = m\<rparr>"
    moreover have "pn_plan ?st = pn_plan st @ [pl]" by (simp add: plan_on_def Let_def pl_def)
    ultimately show ?thesis unfolding c by (intro exI [of _ "pl # new"]) simp
  qed
qed simp

lemma release_plan_charges:
  "release_plan v ps cc x = (cc', x') \<Longrightarrow>
   (\<And>d. ledger_bytes d (map (\<lambda>p. op_charge (pl_op p)) ps) \<le> unat (cc_inflight d cc)) \<Longrightarrow>
   unat (cc_inflight d cc') + ledger_bytes d (map (\<lambda>p. op_charge (pl_op p)) ps) = unat (cc_inflight d cc)"
proof (induction ps arbitrary: cc x)
  case (Cons p ps)
  obtain now x1 where n: "vb_now v x = (now, x1)" by fastforce
  let ?cc = "cc_on_error (cc_dir (pl_op p)) (so_length (pl_op p)) now cc"
  have c: "unat (cc_inflight d ?cc) + ledger_bytes d [op_charge (pl_op p)] = unat (cc_inflight d cc)" for d
    using Cons.prems(2) [of d] by (auto simp: any_cc.inflight_error unat_release op_charge_def)
  have r: "release_plan v ps ?cc x1 = (cc', x')" using Cons.prems(1) n by simp
  have "ledger_bytes e (map (\<lambda>p. op_charge (pl_op p)) ps) \<le> unat (cc_inflight e ?cc)" for e
    using c [of e] Cons.prems(2) [of e] by simp
  from Cons.IH [OF r this] c [of d] show ?case by simp
qed simp

lemma qp_ledger_posted: "qp_ledger (posted_on p t q) = qp_ledger q @ [op_charge (pl_op p)]"
  by (simp add: qp_ledger_def posted_on_def key_of_op_def key_charge_def key_dir_def op_charge_def cc_dir_def)

lemma post_plan_ledger:
  "post_plan v plan n qps s x = (rc, n', qps', s', x') \<Longrightarrow> list_all (\<lambda>p. pl_qp p < length qps) plan \<Longrightarrow>
   ledger_bytes d (concat (map qp_ledger qps')) =
     ledger_bytes d (concat (map qp_ledger qps)) + ledger_bytes d (map (\<lambda>p. op_charge (pl_op p)) (take (n' - n) plan))"
proof (induction plan arbitrary: n qps s x)
  case (Cons p ps)
  obtain r x1 where y: "vb_post_send v (qp_num (qps ! pl_qp p)) (send_wr_of p (qp_posted (qps ! pl_qp p))) x = (r, x1)" by fastforce
  show ?case
  proof (cases "r = 0")
    case False
    with Cons.prems y show ?thesis by simp
  next
    case True
    obtain t x2 where t: "vb_now v x1 = (t, x2)" by fastforce
    let ?q = "qps[pl_qp p := posted_on p t (qps ! pl_qp p)]"
    have po: "post_plan v ps (Suc n) ?q (count_posted (pl_op p) s) x2 = (rc, n', qps', s', x')"
      using Cons.prems(1) y True t by simp
    have la: "list_all (\<lambda>p. pl_qp p < length ?q) ps" using Cons.prems(2) by simp
    have "Suc n \<le> n'" using post_plan_spec [OF po la] by simp
    then have "take (n' - n) (p # ps) = p # take (n' - Suc n) ps" by (simp add: Suc_diff_le take_Cons')
    moreover have "ledger_bytes d (concat (map qp_ledger ?q)) = ledger_bytes d (concat (map qp_ledger qps)) + ledger_bytes d [op_charge (pl_op p)]"
      using ledger_update [of "pl_qp p" qps d qp_ledger "posted_on p t (qps ! pl_qp p)"] Cons.prems(2) by (simp add: qp_ledger_posted)
    ultimately show ?thesis using Cons.IH [OF po la] by simp
  qed
qed simp

lemma ledger_upd_rc:
  assumes "c < length (rp_conns (rw_prov w))"
  shows "ledger_bytes d (rdma_ledger (upd_rc c f w)) + ledger_bytes d (conn_ledger (rp_conns (rw_prov w) ! c)) =
    ledger_bytes d (rdma_ledger w) + ledger_bytes d (conn_ledger (f (rp_conns (rw_prov w) ! c)))"
  unfolding rdma_ledger_def upd_rc_prov using ledger_update [OF assms, of d conn_ledger] by simp

lemma submit_on_budget:
  assumes "submit_on v c ops w = (r, w')" "c < length (rp_conns (rw_prov w))" "budget_exact w"
    and small: "\<And>d. ledger_bytes d (rdma_ledger w) + ledger_bytes d (map op_charge ops) < 2 ^ 64"
  shows "budget_exact w' \<and>
    ledger_bytes d (rdma_ledger w') \<le> ledger_bytes d (rdma_ledger w) + ledger_bytes d (map op_charge ops)"
  using assms(1)
proof (cases rule: submit_on_cases)
  case (1 ps st x1 plan rc n qps stats x2 cc x3)
  let ?conn = "rp_conns (rw_prov w) ! c" and ?ch = "\<lambda>ps. map (\<lambda>p. op_charge (pl_op p)) ps"
  have b: "unat (cc_inflight d (rp_cc (rw_prov w))) = ledger_bytes d (rdma_ledger w)" for d
    using assms(3) by (simp add: budget_exact_def tracks_def)
  have "\<And>d. unat (cc_inflight d (pn_cc (start_plan (rp_cc (rw_prov w)) ?conn))) + ledger_bytes d (map op_charge ops) < 2 ^ 64"
    using small by (simp add: start_plan_def b)
  from plan_ops_charges [OF 1(1) this]
  have cc: "unat (cc_inflight d (pn_cc st)) = ledger_bytes d (rdma_ledger w) + ledger_bytes d (?ch (pn_plan st))" for d
    by (auto simp: start_plan_def b)
  have m: "?ch ps = map op_charge (map pl_op ps)" for ps by simp
  have ch: "?ch plan = map op_charge (take (length plan) ops)" "?ch plan = ?ch (pn_plan st)"
    by (simp only: m 1(7)) (simp only: m 1(2) signal_last_keeps)
  have td: "ledger_bytes d (?ch (take n plan)) + ledger_bytes d (?ch (drop n plan)) = ledger_bytes d (?ch plan)" for d
    using ledger_take_drop [of d n "?ch plan"] by (simp add: take_map drop_map)
  have "ledger_bytes d (?ch (drop n plan)) \<le> unat (cc_inflight d (pn_cc st))" for d
    using td [of d] cc [of d] ch(2) by simp
  note re = release_plan_charges [OF 1(4) this]
  let ?w1 = "upd_rp (\<lambda>p. p\<lparr>rp_stats := stats, rp_cc := cc\<rparr>) (w\<lparr>rw_x := x3\<rparr>)"
  have "rdma_ledger ?w1 = rdma_ledger w" by (simp add: rdma_ledger_def)
  then have l0: "ledger_bytes d (rdma_ledger w') + ledger_bytes d (conn_ledger ?conn) = ledger_bytes d (rdma_ledger w) +
      ledger_bytes d (concat (map qp_ledger qps))" for d
    using ledger_upd_rc [of c ?w1 d] assms(2) by (simp add: 1(6) conn_ledger_def)
  have l: "ledger_bytes d (rdma_ledger w') = ledger_bytes d (rdma_ledger w) + ledger_bytes d (?ch (take n plan))" for d
    using l0 [of d] post_plan_ledger [OF 1(3) 1(10), of d] by (simp add: conn_ledger_def)
  have "unat (cc_inflight d cc) = ledger_bytes d (rdma_ledger w')" for d using re [of d] cc [of d] td [of d] l [of d] ch(2) by simp
  then have "budget_exact w'" by (simp add: budget_exact_def tracks_def 1(6))
  moreover have "ledger_bytes d (rdma_ledger w') \<le> ledger_bytes d (rdma_ledger w) + ledger_bytes d (map op_charge ops)"
    using l [of d] td [of d] ch(1) ledger_take_drop [of d "length plan" "map op_charge ops"] by (simp add: take_map)
  ultimately show ?thesis ..
qed

lemma fold_settle_charges:
  "(\<And>d. ledger_bytes d (map key_charge ks) \<le> unat (cc_inflight d cc)) \<Longrightarrow>
   unat (cc_inflight d (fold (settle_cc s now) ks cc)) + ledger_bytes d (map key_charge ks) = unat (cc_inflight d cc)"
proof (induction ks arbitrary: cc)
  case (Cons k ks)
  have c: "unat (cc_inflight d (settle_cc s now k cc)) + ledger_bytes d [key_charge k] = unat (cc_inflight d cc)" for d
    using Cons.prems [of d]
    by (auto simp: settle_cc_def any_cc.inflight_error any_cc.inflight_feedback unat_release key_charge_def)
  have "ledger_bytes e (map key_charge ks) \<le> unat (cc_inflight e (settle_cc s now k cc))" for e
    using c [of e] Cons.prems [of e] by simp
  from Cons.IH [OF this] c [of d] show ?case by simp
qed simp

lemma retire_ledger:
  "ledger_bytes d (qp_ledger q) = ledger_bytes d (map key_charge (retired s q)) + ledger_bytes d (qp_ledger (retire_upto s q))"
proof -
  have "qp_ledger q = map key_charge (retired s q) @ qp_ledger (retire_upto s q)"
    by (simp add: qp_ledger_def retired_def retire_upto_def o_def flip: map_append)
  then show ?thesis by simp
qed

lemma ledger_view: "conns_view w' = conns_view w \<Longrightarrow> rdma_ledger w' = rdma_ledger w"
proof -
  assume "conns_view w' = conns_view w"
  then have q: "map conn_queues (rp_conns (rw_prov w')) = map conn_queues (rp_conns (rw_prov w))" by (simp add: conns_view_def)
  have l: "map conn_ledger cs = map (\<lambda>q. concat (map (map (\<lambda>u. key_charge (snd u))) q)) (map conn_queues cs)" for cs
    by (simp add: conn_ledger_def conn_queues_def qp_ledger_def [abs_def] comp_def)
  show ?thesis by (simp only: rdma_ledger_def l q)
qed

lemma handle_wc_budget:
  assumes "handle_wc v c w = (evs, w')" "rdma_inv w" "budget_exact w"
  shows "budget_exact w' \<and> ledger_bytes d (rdma_ledger w') \<le> ledger_bytes d (rdma_ledger w)"
  using assms(1)
proof (cases rule: handle_wc_cases)
  case none
  then show ?thesis using assms(3) ledger_view [of w' w] by (simp add: budget_exact_def)
next
  case (some k w1 n qi seq now)
  let ?ks = "retired seq (rc_qps n ! qi)"
  have kl: "k < length (rp_conns (rw_prov w1))"
    using conns_viewD(2) [OF some(2)] assms(2) some(1,2) by (auto simp: rdma_inv_def conns_view_def)
  have x: "ledger_bytes d (rdma_ledger w') + ledger_bytes d (conn_ledger n) = ledger_bytes d (rdma_ledger w) +
      ledger_bytes d (conn_ledger (n\<lparr>rc_qps := (rc_qps n)[qi := retire_upto seq (rc_qps n ! qi)]\<rparr>))" for d
    using ledger_upd_rc [OF kl] some(3,8) ledger_view [OF some(2)] by simp
  have y: "ledger_bytes d (conn_ledger n) = ledger_bytes d (map key_charge ?ks) +
      ledger_bytes d (conn_ledger (n\<lparr>rc_qps := (rc_qps n)[qi := retire_upto seq (rc_qps n ! qi)]\<rparr>))" for d
    using ledger_update [OF some(4), of d qp_ledger "retire_upto seq (rc_qps n ! qi)"] retire_ledger [of d "rc_qps n ! qi" seq]
    by (simp add: conn_ledger_def)
  have l: "ledger_bytes d (rdma_ledger w) = ledger_bytes d (map key_charge ?ks) + ledger_bytes d (rdma_ledger w')" for d
    using x [of d] y [of d] by linarith
  have b: "unat (cc_inflight d (rp_cc (rw_prov w))) = ledger_bytes d (rdma_ledger w)" for d
    using assms(3) by (simp add: budget_exact_def tracks_def)
  have z: "unat (cc_inflight d (rp_cc (rw_prov w1))) + ledger_bytes d (map key_charge ?ks) = ledger_bytes d (rdma_ledger w)" for d
    unfolding some(7) using fold_settle_charges [of ?ks "rp_cc (rw_prov w)" d] l b by simp
  have "unat (cc_inflight d (rp_cc (rw_prov w'))) = ledger_bytes d (rdma_ledger w')" for d
    using z [of d] l [of d] by (simp add: some(8))
  then show ?thesis using l [of d] by (simp add: budget_exact_def tracks_def)
qed

lemma handle_wcs_budget:
  "handle_wcs v cs w = (evs, w') \<Longrightarrow> rdma_inv w \<Longrightarrow> budget_exact w \<Longrightarrow>
   budget_exact w' \<and> ledger_bytes d (rdma_ledger w') \<le> ledger_bytes d (rdma_ledger w)"
proof (induction cs arbitrary: w evs)
  case (Cons c cs)
  obtain e1 w1 where a: "handle_wc v c w = (e1, w1)" by fastforce
  obtain e2 where b: "handle_wcs v cs w1 = (e2, w')" using Cons.prems(1) a by (auto split: prod.splits)
  from handle_wc_budget [OF a Cons.prems(2,3), of d] Cons.IH [OF b handle_wc_spec(1) [OF a Cons.prems(2)]]
  show ?case by fastforce
qed simp

lemma rdma_poll_budget:
  assumes "rdma_poll v n w = ((s, evs), w')" "rdma_inv w" "budget_exact w"
  shows "budget_exact w' \<and> ledger_bytes d (rdma_ledger w') \<le> ledger_bytes d (rdma_ledger w)"
  using assms(1)
proof (cases rule: rdma_poll_cases)
  case none
  then show ?thesis using assms(3) by simp
next
  case (some cs w2)
  have "budget_exact w2" "rdma_inv w2" "rdma_ledger w2 = rdma_ledger w"
    using assms(2,3) some(2) ledger_view [OF some(1)] conns_viewD [OF some(1)] by (simp_all add: budget_exact_def)
  with handle_wcs_budget [OF some(3), of d] show ?thesis by simp
qed

section \<open>A run of the data path\<close>

fun rdma_do :: "'x verbs \<Rightarrow> provider_call \<Rightarrow> 'x rdma_world \<Rightarrow> 'x rdma_world" where
  "rdma_do v (CallSubmit conn ops) w = snd (rdma_submit v conn ops w)"
| "rdma_do v (CallPoll n) w = snd (rdma_poll v n w)"

fun call_charges :: "provider_call \<Rightarrow> ledger" where
  "call_charges (CallSubmit conn ops) = map op_charge ops"
| "call_charges (CallPoll n) = []"

lemma rdma_call_budget:
  assumes "rdma_inv w" "budget_exact w" "\<And>d. ledger_bytes d (rdma_ledger w) + ledger_bytes d (call_charges c) < 2 ^ 64"
  shows "rdma_inv (rdma_do v c w) \<and> budget_exact (rdma_do v c w) \<and>
    ledger_bytes d (rdma_ledger (rdma_do v c w)) \<le> ledger_bytes d (rdma_ledger w) + ledger_bytes d (call_charges c)"
proof (cases c)
  case (CallSubmit conn ops)
  obtain r w' where s: "rdma_submit v conn ops w = (r, w')" by fastforce
  note i = rdma_submit_spec(1) [OF s assms(1)]
  from s have "budget_exact w' \<and> ledger_bytes d (rdma_ledger w') \<le> ledger_bytes d (rdma_ledger w) + ledger_bytes d (map op_charge ops)"
  proof (cases rule: rdma_submit_cases)
    case no
    with assms(2) show ?thesis by simp
  next
    case (yes k)
    from submit_on_budget [OF yes(4,2) assms(2)] assms(3) CallSubmit show ?thesis by simp
  qed
  with i s CallSubmit show ?thesis by simp
next
  case (CallPoll n)
  obtain s evs w' where p: "rdma_poll v n w = ((s, evs), w')" by (metis prod.exhaust)
  from rdma_poll_spec [OF p assms(1)] rdma_poll_budget [OF p assms(1,2), of d] CallPoll p show ?thesis by simp
qed

lemma rdma_run_budget:
  "rdma_inv w \<Longrightarrow> budget_exact w \<Longrightarrow>
   (\<And>d. ledger_bytes d (rdma_ledger w) + ledger_bytes d (concat (map call_charges cs)) < 2 ^ 64) \<Longrightarrow>
   budget_exact (fold (rdma_do v) cs w)"
proof (induction cs arbitrary: w)
  case (Cons c cs)
  have "ledger_bytes d (rdma_ledger w) + ledger_bytes d (call_charges c) < 2 ^ 64" for d using Cons.prems(3) [of d] by simp
  note s = rdma_call_budget [OF Cons.prems(1,2) this, of v]
  have "ledger_bytes d (rdma_ledger (rdma_do v c w)) + ledger_bytes d (concat (map call_charges cs)) < 2 ^ 64" for d
    using s [of d] Cons.prems(3) [of d] by simp
  with Cons.IH [of "rdma_do v c w"] s show ?case by simp
qed simp

section \<open>A small instance\<close>

text \<open>An adapter that takes every post, and a connection of one queue pair four deep.\<close>

definition easy_verbs :: "unit verbs" where
  "easy_verbs = \<lparr>vb_post_send = (\<lambda>q r x. (0, x)), vb_post_recv = (\<lambda>q m x. (0, x)), vb_poll_cq = (\<lambda>n x. (Some [], x)),
     vb_reg_mr = (\<lambda>a l f x. (Inr \<lparr>mr_lkey = 1, mr_rkey = 2\<rparr>, x)), vb_dereg_mr = (\<lambda>m x. (0, x)), vb_now = (\<lambda>x. (0, x)),
     vb_enomem = 12\<rparr>"

definition small_config :: rdma_config where
  "small_config = \<lparr>rf_advertise_ip = '''', rf_ib_port = 1, rf_qp_per_conn = 1, rf_signal_period = 16, rf_cq_depth = 16,
     rf_sq_depth = 4, rf_rq_depth = 1, rf_max_sge = 1, rf_listen_port = 0, rf_verify_timeout_ms = 0, rf_nic_ordinal = 0,
     rf_relative_capacity = 1, rf_out_of_order = False\<rparr>"

definition small_conn :: rdma_conn where
  "small_conn = \<lparr>rc_qps = [new_queue_pair 7], rc_next_qp = 0, rc_failed = False, rc_recv_mr = None, rc_peer_closed = False, rc_ctrl_fd = 5,
     rc_ooo_rw = False, rc_outbox = reset 5 kDefaultLimit, rc_rx = []\<rparr>"

definition small_world :: "wc list \<Rightarrow> unit rdma_world" where
  "small_world stash = \<lparr>rw_x = (), rw_prov = \<lparr>rp_cfg = small_config, rp_cc = CcFixed (make_cc_fixed_window 1000), rp_listen_fd = 3,
     rp_listen_port = 1, rp_gid_index = 0, rp_max_msg_sz = 0, rp_regions = [1 \<mapsto> \<lparr>mr_lkey = 1, mr_rkey = 2\<rparr>], rp_next_key = 2,
     rp_stats = zero_stats, rp_stashed = stash, rp_verify_done = Map.empty, rp_arrivals = [], rp_conns = [small_conn],
     rp_conn_by_qp = [7 \<mapsto> 0], rp_ctrl_conns = [0]\<rparr>\<rparr>"

definition small_op :: "u64 \<Rightarrow> subop" where
  "small_op i = \<lparr>so_signal_peer = False, so_peer_token = 0, so_kind = kWrite, so_request = 1, so_sub_id = i, so_local_addr = 4096,
     so_local_key = 1, so_remote_addr = 8192, so_remote_key = 9, so_length = 100\<rparr>"

definition done_wc :: "u64 \<Rightarrow> wc" where
  "done_wc s = \<lparr>wc_wr_id = make_wr_id 0 s, wc_st = WC_SUCCESS, wc_qp_num = 7, wc_imm = None\<rparr>"

lemmas small_submit_simps = rdma_submit_def conn_ptr_def submit_on_def start_plan_def plan_on_def want_signal_def
  pick_queue_pair_locked_def rdma_submit_capacity_def qp_room_def qp_used_def signal_last_def cc_dir_def posted_on_def Let_def
  upd_rc_def upd_rp_def

lemmas small_defs = easy_verbs_def small_config_def small_conn_def small_world_def small_op_def done_wc_def new_queue_pair_def

lemma small_inv: "rdma_inv (small_world cs)"
  by (simp add: rdma_inv_def small_world_def)

lemma small_budget: "budget_exact (small_world cs)"
  by (simp add: budget_exact_def tracks_def rdma_ledger_def conn_ledger_def qp_ledger_def small_defs make_cc_fixed_window_def)

lemma small_ledger: "rdma_ledger (small_world cs) = []"
  by (simp add: rdma_ledger_def conn_ledger_def qp_ledger_def small_defs)

section \<open>Properties\<close>

text \<open>
  (C7) From a state where the congestion controller holds exactly what is in flight, any sequence of
  submits and polls, whatever the adapter does, ends in such a state: the bytes the controller holds
  in each direction are the bytes of the operations that are posted and not retired. A refused post
  and a refused plan leave no charge behind.
\<close>

theorem rdma_budget_is_in_flight:
  assumes "rdma_inv w" "\<And>d. unat (cc_inflight d (rp_cc (rw_prov w))) = ledger_bytes d (rdma_ledger w)"
    and "\<And>d. ledger_bytes d (rdma_ledger w) + ledger_bytes d (concat (map call_charges cs)) < 2 ^ 64"
  shows "unat (cc_inflight d (rp_cc (rw_prov (fold (rdma_do v) cs w)))) = ledger_bytes d (rdma_ledger (fold (rdma_do v) cs w))"
  using rdma_run_budget [OF assms(1) _ assms(3)] assms(2) by (simp add: budget_exact_def tracks_def)

theorem rdma_budget_is_in_flight_witness:
  "unat (cc_inflight CC_kWrite (rp_cc (rw_prov (fold (rdma_do easy_verbs)
      [CallSubmit (Some 0) [small_op 1, small_op 2, small_op 3], CallPoll 4] (small_world [done_wc 0]))))) =
    ledger_bytes CC_kWrite (rdma_ledger (fold (rdma_do easy_verbs)
      [CallSubmit (Some 0) [small_op 1, small_op 2, small_op 3], CallPoll 4] (small_world [done_wc 0])))"
proof (rule rdma_budget_is_in_flight)
  show "rdma_inv (small_world [done_wc 0])" by (rule small_inv)
  show "unat (cc_inflight d (rp_cc (rw_prov (small_world [done_wc 0])))) = ledger_bytes d (rdma_ledger (small_world [done_wc 0]))" for d
    using small_budget [of "[done_wc 0]"] by (simp add: budget_exact_def tracks_def)
  show "ledger_bytes d (rdma_ledger (small_world [done_wc 0])) +
      ledger_bytes d (concat (map call_charges [CallSubmit (Some 0) [small_op 1, small_op 2, small_op 3], CallPoll 4])) < 2 ^ 64" for d
    by (simp add: small_ledger op_charge_def small_op_def)
qed

text \<open>
  (C23) A submit never puts more on a send queue than the depth it was created with: the room is
  checked against what the batch itself has already planned for that queue pair.
\<close>

theorem rdma_send_queue_bounded:
  assumes "rdma_submit v (Some c) ops w = (r, w')" "c < length (rp_conns (rw_prov w))"
    and "list_all (\<lambda>q. qp_used q \<le> ucast (rf_sq_depth (rp_cfg (rw_prov w)))) (rc_qps (rp_conns (rw_prov w) ! c))"
  shows "list_all (\<lambda>q. qp_used q \<le> ucast (rf_sq_depth (rp_cfg (rw_prov w)))) (rc_qps (rp_conns (rw_prov w') ! c))"
  using assms(1)
proof (cases rule: rdma_submit_cases)
  case no
  with assms(3) show ?thesis by simp
next
  case (yes k)
  with submit_on_within_depth [OF yes(4,2)] assms(3) show ?thesis by simp
qed

theorem rdma_send_queue_bounded_witness:
  "list_all (\<lambda>q. qp_used q \<le> ucast (rf_sq_depth (rp_cfg (rw_prov (small_world [])))))
     (rc_qps (rp_conns (rw_prov (snd (rdma_submit easy_verbs (Some 0) (map small_op [1, 2, 3, 4, 5]) (small_world [])))) ! 0))"
  by (rule rdma_send_queue_bounded [of easy_verbs 0 "map small_op [1, 2, 3, 4, 5]" "small_world []"
        "fst (rdma_submit easy_verbs (Some 0) (map small_op [1, 2, 3, 4, 5]) (small_world []))"])
    (simp_all add: small_world_def small_conn_def new_queue_pair_def qp_used_def)

text \<open>
  (C8) A completion that names a post still outstanding on a queue pair retires exactly the
  operations posted there up to and including it, in the order they were posted, and reports each
  with the status of the completion; what was posted later stays.
\<close>

theorem rdma_completion_retires_exactly:
  assumes "handle_wc v c w = (evs, w')" "rp_conn_by_qp (rw_prov w) (wc_qp_num c) = Some k" "k < length (rp_conns (rw_prov w))"
    and "i < length (rc_qps (rp_conns (rw_prov w) ! k))" "i < 2 ^ 14" "q = rc_qps (rp_conns (rw_prov w) ! k) ! i"
    and "qp_wf q" "qp_posted q \<le> 2 ^ 48" "qp_reclaimed q \<le> s" "s < qp_posted q"
    and "wc_wr_id c = make_wr_id (word_of_nat i) s"
  shows "evs = map (\<lambda>u. event_of (wc_st c) (snd u)) (take (Suc (unat s - unat (qp_reclaimed q))) (qp_unsignalled q)) \<and>
    rc_qps (rp_conns (rw_prov w') ! k) = (rc_qps (rp_conns (rw_prov w) ! k))[i := q\<lparr>qp_reclaimed := s + 1,
      qp_unsignalled := drop (Suc (unat s - unat (qp_reclaimed q))) (qp_unsignalled q)\<rparr>] \<and>
    qp_wf (rc_qps (rp_conns (rw_prov w') ! k) ! i)"
proof -
  have "(word_of_nat i :: u32) < 2 ^ 14" using assms(5) by (simp add: word_less_nat_alt unat_of_nat take_bit_eq_mod)
  moreover have "s < 2 ^ 48" using assms(8,10) by simp
  ultimately have id: "wr_qp_index (wc_wr_id c) = word_of_nat i" "wr_seq (wc_wr_id c) = s" "wc_wr_id c \<noteq> kVerifyWrId"
    "wc_wr_id c AND kRecvWrId = 0" using wr_id_parts unfolding assms(11) by blast+
  have ix: "unat (wr_qp_index (wc_wr_id c)) = i" using assms(5) by (simp add: id(1) unat_of_nat take_bit_eq_mod)
  note re = retire_exact [OF assms(7,9,10)]
  have "evs = map (event_of (wc_st c)) (retired s q) \<and>
      rc_qps (rp_conns (rw_prov w') ! k) = (rc_qps (rp_conns (rw_prov w) ! k))[i := retire_upto s q]"
    using assms(1)
  proof (cases rule: handle_wc_cases)
    case none
    with id(3,4) ix assms(2,4) show ?thesis by simp
  next
    case (some k' w1 n qi seq now)
    then have "k' = k" "qi = i" "seq = s" "rc_qps n ! qi = q" using assms(2,6) ix id(2) by simp_all
    moreover have "length (rp_conns (rw_prov w1)) = length (rp_conns (rw_prov w))"
      using some(2) unfolding conns_view_def by (metis fst_conv length_map)
    ultimately show ?thesis using some(5,6,8) assms(3) by simp
  qed
  moreover have "retire_upto s q = q\<lparr>qp_reclaimed := s + 1, qp_unsignalled := drop (Suc (unat s - unat (qp_reclaimed q))) (qp_unsignalled q)\<rparr>"
    using re(3) by (simp add: retire_upto_def)
  ultimately show ?thesis using re(1,2) assms(4) by (simp add: comp_def)
qed

definition busy_key :: "u64 \<Rightarrow> inflight_key" where
  "busy_key i = \<lparr>ik_request = 1, ik_sub_id = i, ik_is_write = True, ik_bytes = 100, ik_posted_at = 0\<rparr>"

definition busy_qp :: queue_pair where
  "busy_qp = \<lparr>qp_num = 7, qp_posted = 3, qp_reclaimed = 0, qp_since_signal = 0,
     qp_unsignalled = [(0, busy_key 10), (1, busy_key 11), (2, busy_key 12)]\<rparr>"

definition busy_world :: "unit rdma_world" where
  "busy_world = upd_rc 0 (\<lambda>c. c\<lparr>rc_qps := [busy_qp]\<rparr>) (small_world [])"

theorem rdma_completion_retires_exactly_witness:
  "map ce_key (fst (handle_wc easy_verbs (done_wc 1) busy_world)) = [(1, 10), (1, 11)]"
proof -
  have "qp_wf busy_qp" by (simp add: qp_wf_def busy_qp_def upt_rec)
  then have "fst (handle_wc easy_verbs (done_wc 1) busy_world) = map (\<lambda>u. event_of (wc_st (done_wc 1)) (snd u))
      (take (Suc (unat (1 :: u64) - unat (qp_reclaimed busy_qp))) (qp_unsignalled busy_qp))"
    using rdma_completion_retires_exactly [of easy_verbs "done_wc 1" busy_world "fst (handle_wc easy_verbs (done_wc 1) busy_world)"
        "snd (handle_wc easy_verbs (done_wc 1) busy_world)" 0 0 busy_qp 1]
    by (simp add: busy_world_def small_world_def done_wc_def) (simp add: busy_qp_def)
  then show ?thesis by (simp add: busy_qp_def busy_key_def event_of_def ce_key_def)
qed

text \<open>
  (C24) What a submit hands to the adapter, when the adapter refuses no post: one work request for
  each operation it accepts, in their order, each naming the operation's kind, ranges and key; and for
  every queue pair the batch used, the last work request it got is signalled, so no operation of the
  batch waits for a completion that only a later batch would ask for.
\<close>

theorem rdma_batch_ends_signalled:
  assumes "rdma_submit (watched v) conn ops w = (r, w')" "sr_errno r = 0"
  shows "\<exists>new. snd (rw_x w') = snd (rw_x w) @ new \<and>
    list_all2 (\<lambda>op e. \<exists>q wr. e = Taken q wr \<and> carries wr op) (take (sr_accepted r) ops) new \<and>
    (\<forall>q. sends_to q new \<noteq> [] \<longrightarrow> wr_signaled (last (sends_to q new)))"
  using assms(1)
proof (cases rule: rdma_submit_cases)
  case no
  then show ?thesis by (intro exI [of _ "[]"]) simp
next
  case (yes c)
  from submit_on_handed [OF yes(4) assms(2)] show ?thesis .
qed

definition watched_world :: "(unit \<times> posting list) rdma_world" where
  "watched_world = \<lparr>rw_x = ((), []), rw_prov = rw_prov (small_world [])\<rparr>"

theorem rdma_batch_ends_signalled_witness:
  "\<exists>l. snd (rw_x (snd (rdma_submit (watched easy_verbs) (Some 0) (map small_op [1, 2]) watched_world))) = l \<and>
     length l = 2 \<and> (\<exists>q wr. last l = Taken q wr \<and> wr_signaled wr)"
proof -
  let ?s = "rdma_submit (watched easy_verbs) (Some 0) (map small_op [1, 2]) watched_world"
  obtain r w' where s: "?s = (r, w')" by fastforce
  have "sr_errno (fst ?s) = 0" "sr_accepted (fst ?s) = 2"
    by (simp_all add: small_submit_simps small_defs watched_world_def watched_def make_cc_fixed_window_def fw_defs word_le_nat_alt)
  with rdma_batch_ends_signalled [OF s] s obtain new where new: "snd (rw_x w') = new"
    "list_all2 (\<lambda>op e. \<exists>q wr. e = Taken q wr \<and> carries wr op) [small_op 1, small_op 2] new"
    "\<And>q. sends_to q new \<noteq> [] \<Longrightarrow> wr_signaled (last (sends_to q new))"
    by (auto simp: watched_world_def)
  then obtain q1 wr1 q wr where l: "new = [Taken q1 wr1, Taken q wr]" by (auto simp: list_all2_Cons1)
  with new(3) [of q] have "wr_signaled wr" by (cases "q1 = q") simp_all
  with new(1) l s show ?thesis by simp
qed

text \<open>
  With a post the adapter refuses, the batch ends before its signalled operation: what was posted
  stays without a signal, and its completion is not asked for until something else is submitted.
\<close>

definition flaky_verbs :: "nat verbs" where
  "flaky_verbs = \<lparr>vb_post_send = (\<lambda>q r x. (if x = 0 then 5 else 0, x - 1)), vb_post_recv = (\<lambda>q m x. (0, x)),
     vb_poll_cq = (\<lambda>n x. (Some [], x)), vb_reg_mr = (\<lambda>a l f x. (Inr \<lparr>mr_lkey = 1, mr_rkey = 2\<rparr>, x)),
     vb_dereg_mr = (\<lambda>m x. (0, x)), vb_now = (\<lambda>x. (0, x)), vb_enomem = 12\<rparr>"

definition flaky_world :: "(nat \<times> posting list) rdma_world" where
  "flaky_world = \<lparr>rw_x = (1, []), rw_prov = rw_prov (small_world [])\<rparr>"

lemma rdma_refused_post_leaves_no_signal:
  "sr_accepted (fst (rdma_submit (watched flaky_verbs) (Some 0) (map small_op [1, 2]) flaky_world)) = 1"
  "map wr_signaled (sends_to 7 (snd (rw_x (snd (rdma_submit (watched flaky_verbs) (Some 0) (map small_op [1, 2]) flaky_world))))) = [False]"
  by (simp_all add: small_submit_simps small_defs watched_def make_cc_fixed_window_def fw_defs flaky_verbs_def flaky_world_def
      word_le_nat_alt send_wr_of_def)

end
