(* ===== verification/Hux_RdmaCtl.thy ===== *)
theory Hux_RdmaCtl
  imports Hux_RdmaFlow Hux_Control Hux_Config
begin

text \<open>
  transport/rdma/rdma_provider.*, everything but the data path: the endpoint exchange, bringing up and
  proving a connection, the control channel, and disconnecting. The sockets, the setting-up calls of
  verbs, the adapter's own commands (mlx5_ordering.cpp) and what \<open>open_device\<close> found out about the port are
  a record \<open>'x rdma_os\<close>; as elsewhere a socket answers with a list of outcomes and a wait is a number
  of turns. Socket options are left out: they change only what the outcomes may be.
\<close>

section \<open>The environment\<close>

datatype qp_path = PathGlobal bytes u8 u8 | PathLid u16

text \<open>What \<open>ibv_modify_qp\<close> is asked for; the fields in the order the code sets them.\<close>

datatype qp_attr =
    AttrInit u8
  | AttrRtr u32 u32 u32 u8 u8 u8 qp_path
  | AttrRts u8 u8 u8 u32 u8
  | AttrErr

record mlx5_connect =
  m5_remote_qpn :: u32
  m5_path_mtu :: u32
  m5_port :: u8
  m5_sgid_index :: u8
  m5_hop_limit :: u8
  m5_dgid :: bytes
  m5_max_dest_rd_atomic :: u8
  m5_max_rd_atomic :: u8
  m5_min_rnr_timer :: u8
  m5_timeout :: u8
  m5_retry_cnt :: u8
  m5_rnr_retry :: u8
  m5_log_max_msg :: u32

record qp_init =
  qi_max_send_wr :: u32
  qi_max_recv_wr :: u32
  qi_max_send_sge :: u32
  qi_max_recv_sge :: u32

record 'x rdma_os =
  ro_verbs :: "'x verbs"
  ro_inet_pton :: "string \<Rightarrow> u32 option"
  ro_socket :: "'x \<Rightarrow> int \<times> 'x"
  ro_connect :: "int \<Rightarrow> u32 \<Rightarrow> u16 \<Rightarrow> 'x \<Rightarrow> bool \<times> 'x"
  ro_close :: "int \<Rightarrow> 'x \<Rightarrow> unit \<times> 'x"
  ro_sends :: "int \<Rightarrow> 'x \<Rightarrow> send_outcome list \<times> 'x"
  ro_recvs :: "int \<Rightarrow> 'x \<Rightarrow> recv_outcome list \<times> 'x"
  ro_turns :: "int \<Rightarrow> 'x \<Rightarrow> nat \<times> 'x"
  ro_create_qp :: "qp_init \<Rightarrow> 'x \<Rightarrow> u32 option \<times> 'x"
  ro_destroy_qp :: "u32 \<Rightarrow> 'x \<Rightarrow> unit \<times> 'x"
  ro_modify_qp :: "u32 \<Rightarrow> qp_attr \<Rightarrow> 'x \<Rightarrow> int \<times> 'x"
  ro_connect_ooo_rw :: "u32 \<Rightarrow> mlx5_connect \<Rightarrow> 'x \<Rightarrow> status \<times> 'x"
  ro_lid :: u16
  ro_gid :: bytes
  ro_active_mtu :: u32
  ro_ethernet :: bool
  ro_ooo_rw :: bool
  ro_hop_limit :: u8
  ro_log_max_msg :: u32
  ro_device_name :: string
  ro_nic_proximity :: string
  ro_ooo_why :: string
  ro_show_double :: "real \<Rightarrow> string"

definition rdo :: "('x \<Rightarrow> unit \<times> 'x) \<Rightarrow> 'x rdma_world \<Rightarrow> 'x rdma_world" where
  "rdo f w = snd (rcall f w)"

section \<open>The handshake on the wire\<close>

definition kWireMajor :: u16 where "kWireMajor = 2"
definition kWireMinor :: u16 where "kWireMinor = 1"
definition kFeatureOooRw :: u32 where "kFeatureOooRw = 1"
definition kEpInfoBytes :: nat where "kEpInfoBytes = 2 + 2 + 4 + 2 + 16 + 4 + 4"

record rdma_endpoint =
  ep_major :: u16
  ep_minor :: u16
  ep_qp_num :: u32
  ep_lid :: u16
  ep_gid :: bytes
  ep_psn :: u32
  ep_mtu :: u32

definition encode_ep :: "rdma_endpoint \<Rightarrow> bytes" where
  "encode_ep e = put_u16 (ep_major e) @ put_u16 (ep_minor e) @ put_u32 (ep_qp_num e) @ put_u16 (ep_lid e) @ ep_gid e @
     put_u32 (ep_psn e) @ put_u32 (ep_mtu e)"

definition decode_ep :: "bytes \<Rightarrow> rdma_endpoint option" where
  "decode_ep bs = do {
     maj \<leftarrow> get_u16 bs 0;
     mnr \<leftarrow> get_u16 bs 2;
     qpn \<leftarrow> get_u32 bs 4;
     lid \<leftarrow> get_u16 bs 8;
     gid \<leftarrow> rd_range bs 10 16;
     psn \<leftarrow> get_u32 bs 26;
     mtu \<leftarrow> get_u32 bs 30;
     Some \<lparr>ep_major = maj, ep_minor = mnr, ep_qp_num = qpn, ep_lid = lid, ep_gid = gid, ep_psn = psn, ep_mtu = mtu\<rparr> }"

fun decode_eps :: "nat \<Rightarrow> bytes \<Rightarrow> rdma_endpoint list option" where
  "decode_eps 0 bs = Some []"
| "decode_eps (Suc n) bs = do { e \<leftarrow> decode_ep bs; es \<leftarrow> decode_eps n (drop kEpInfoBytes bs); Some (e # es) }"

definition check_wire_version :: "u16 \<Rightarrow> u16 \<Rightarrow> status" where
  "check_wire_version peer_major peer_minor = (if peer_major \<noteq> kWireMajor then kUnsupported else kOk)"

text \<open>\<open>send_all\<close>: a call the socket has no room for is waited for, up to a deadline: the answers end there.\<close>

fun rdma_send_all :: "send_outcome list \<Rightarrow> nat \<Rightarrow> bool" where
  "rdma_send_all os n =
    (if n = 0 then True
     else case os of
       [] \<Rightarrow> False
     | Sent k # os' \<Rightarrow> if 0 < taken k n then rdma_send_all os' (n - taken k n) else False
     | Interrupted # os' \<Rightarrow> rdma_send_all os' n
     | Again # os' \<Rightarrow> rdma_send_all os' n
     | SendError # os' \<Rightarrow> False)"

declare rdma_send_all.simps [simp del]

text \<open>\<open>recv_all\<close>: anything but bytes ends it, an interrupted call included.\<close>

fun rdma_recv_all :: "recv_outcome list \<Rightarrow> nat \<Rightarrow> bytes \<Rightarrow> bytes option" where
  "rdma_recv_all os n got =
    (if n = 0 then Some got
     else case os of
       Got bs # os' \<Rightarrow>
        if take n bs \<noteq> [] then rdma_recv_all os' (n - length (take n bs)) (got @ take n bs) else None
     | _ \<Rightarrow> None)"

declare rdma_recv_all.simps [simp del]

section \<open>Building a connection\<close>

definition kRdAtomic :: u8 where "kRdAtomic = 16"
definition kMinRnrTimer :: u8 where "kMinRnrTimer = 12"
definition kAckTimeout :: u8 where "kAckTimeout = 14"
definition kRetryCount :: u8 where "kRetryCount = 7"
definition kRnrRetry :: u8 where "kRnrRetry = 7"

fun destroy_all :: "'x rdma_os \<Rightarrow> u32 list \<Rightarrow> 'x rdma_world \<Rightarrow> 'x rdma_world" where
  "destroy_all os [] w = w"
| "destroy_all os (q # qs) w = destroy_all os qs (rdo (ro_destroy_qp os q) w)"

text \<open>The queue pairs of a connection, only the first of which receives; none if one cannot be made.\<close>

fun create_qps :: "'x rdma_os \<Rightarrow> nat \<Rightarrow> u32 list \<Rightarrow> 'x rdma_world \<Rightarrow> u32 list option \<times> 'x rdma_world" where
  "create_qps os 0 made w = (Some made, w)"
| "create_qps os (Suc n) made w =
    (let cfg = rp_cfg (rw_prov w) in
     case rcall (ro_create_qp os \<lparr>qi_max_send_wr = rf_sq_depth cfg, qi_max_recv_wr = (if made = [] then rf_rq_depth cfg else 1),
       qi_max_send_sge = rf_max_sge cfg, qi_max_recv_sge = 1\<rparr>) w of
       (None, w1) \<Rightarrow> (None, destroy_all os made w1)
     | (Some q, w1) \<Rightarrow> create_qps os n (made @ [q]) w1)"

definition my_endpoint :: "'x rdma_os \<Rightarrow> u32 \<Rightarrow> rdma_endpoint" where
  "my_endpoint os q = \<lparr>ep_major = kWireMajor, ep_minor = kWireMinor, ep_qp_num = q, ep_lid = ro_lid os, ep_gid = ro_gid os,
     ep_psn = 0, ep_mtu = ro_active_mtu os\<rparr>"

definition sock_send :: "'x rdma_os \<Rightarrow> int \<Rightarrow> bytes \<Rightarrow> 'x rdma_world \<Rightarrow> bool \<times> 'x rdma_world" where
  "sock_send os sock bs w = (case rcall (ro_sends os sock) w of (outs, w1) \<Rightarrow> (rdma_send_all outs (length bs), w1))"

definition sock_recv :: "'x rdma_os \<Rightarrow> int \<Rightarrow> nat \<Rightarrow> 'x rdma_world \<Rightarrow> bytes option \<times> 'x rdma_world" where
  "sock_recv os sock n w = (case rcall (ro_recvs os sock) w of (outs, w1) \<Rightarrow> (rdma_recv_all outs n [], w1))"

text \<open>The endpoints of the two ends; the number of queue pairs has to agree.\<close>

definition exchange_endpoints :: "'x rdma_os \<Rightarrow> int \<Rightarrow> u32 list \<Rightarrow> 'x rdma_world \<Rightarrow> rdma_endpoint list result \<times> 'x rdma_world" where
  "exchange_endpoints os sock qs w =
    (let n = length qs in
     case sock_send os sock (put_u32 (word_of_nat n) @ concat (map (\<lambda>q. encode_ep (my_endpoint os q)) qs)) w of (ok, w1) \<Rightarrow>
     if \<not> ok then (Inl kPeerDisconnected, w1)
     else case sock_recv os sock 4 w1 of
       (None, w2) \<Rightarrow> (Inl kPeerDisconnected, w2)
     | (Some cb, w2) \<Rightarrow>
        if get_u32 cb 0 \<noteq> Some (word_of_nat n) then (Inl kInvalidArgument, w2)
        else case sock_recv os sock (n * kEpInfoBytes) w2 of
          (None, w3) \<Rightarrow> (Inl kPeerDisconnected, w3)
        | (Some rx, w3) \<Rightarrow>
           let peers = the (decode_eps n rx); vs = check_wire_version (ep_major (hd peers)) (ep_minor (hd peers)) in
           (if vs \<noteq> kOk then Inl vs else Inr peers, w3))"

text \<open>What both ends offer beyond the endpoints, if the peer exchanges that at all.\<close>

definition my_features :: "'x rdma_os \<Rightarrow> u32" where
  "my_features os = (if ro_ooo_rw os then kFeatureOooRw else 0)"

definition exchange_features :: "'x rdma_os \<Rightarrow> int \<Rightarrow> rdma_endpoint \<Rightarrow> 'x rdma_world \<Rightarrow> u32 option \<times> 'x rdma_world" where
  "exchange_features os sock peer w =
    (if ep_minor peer < 1 then (Some 0, w)
     else case sock_send os sock (put_u32 (my_features os)) w of (ok, w1) \<Rightarrow>
       if \<not> ok then (None, w1)
       else case sock_recv os sock 4 w1 of
         (None, w2) \<Rightarrow> (None, w2)
       | (Some bs, w2) \<Rightarrow> (get_u32 bs 0, w2))"

definition use_ooo :: "'x rdma_os \<Rightarrow> u32 \<Rightarrow> bool" where
  "use_ooo os peer_features \<longleftrightarrow> ro_ooo_rw os \<and> peer_features AND kFeatureOooRw \<noteq> 0"

definition bring_up :: "'x rdma_os \<Rightarrow> bool \<Rightarrow> u32 \<Rightarrow> rdma_endpoint \<Rightarrow> 'x rdma_world \<Rightarrow> status \<times> 'x rdma_world" where
  "bring_up os ooo q peer w =
    (let port = rf_ib_port (rp_cfg (rw_prov w)); sgid = word_of_int (rp_gid_index (rw_prov w)); mtu = min (ro_active_mtu os) (ep_mtu peer) in
     case rcall (ro_modify_qp os q (AttrInit port)) w of (rc, w1) \<Rightarrow>
     if rc \<noteq> 0 then (kDeviceError, w1)
     else if ooo then
       rcall (ro_connect_ooo_rw os q \<lparr>m5_remote_qpn = ep_qp_num peer, m5_path_mtu = mtu, m5_port = port, m5_sgid_index = sgid,
         m5_hop_limit = ro_hop_limit os, m5_dgid = ep_gid peer, m5_max_dest_rd_atomic = kRdAtomic, m5_max_rd_atomic = kRdAtomic,
         m5_min_rnr_timer = kMinRnrTimer, m5_timeout = kAckTimeout, m5_retry_cnt = kRetryCount, m5_rnr_retry = kRnrRetry,
         m5_log_max_msg = ro_log_max_msg os\<rparr>) w1
     else case rcall (ro_modify_qp os q (AttrRtr mtu (ep_qp_num peer) 0 kRdAtomic kMinRnrTimer port
         (if ro_ethernet os then PathGlobal (ep_gid peer) sgid 255 else PathLid (ep_lid peer)))) w1 of (rc2, w2) \<Rightarrow>
       if rc2 \<noteq> 0 then (kDeviceError, w2)
       else case rcall (ro_modify_qp os q (AttrRts kAckTimeout kRetryCount kRnrRetry 0 kRdAtomic)) w2 of (rc3, w3) \<Rightarrow>
         (if rc3 \<noteq> 0 then kDeviceError else kOk, w3))"

fun bring_up_all :: "'x rdma_os \<Rightarrow> bool \<Rightarrow> (u32 \<times> rdma_endpoint) list \<Rightarrow> 'x rdma_world \<Rightarrow> status \<times> 'x rdma_world" where
  "bring_up_all os ooo [] w = (kOk, w)"
| "bring_up_all os ooo ((q, peer) # ps) w =
    (case bring_up os ooo q peer w of (s, w1) \<Rightarrow> if s \<noteq> kOk then (s, w1) else bring_up_all os ooo ps w1)"

definition register_conn :: "conn_id \<Rightarrow> u32 \<Rightarrow> 'x rdma_world \<Rightarrow> 'x rdma_world" where
  "register_conn c q w = upd_rp (\<lambda>p. p\<lparr>rp_conn_by_qp := (rp_conn_by_qp p)(q \<mapsto> c)\<rparr>) w"

definition forget_conn :: "u32 \<Rightarrow> 'x rdma_world \<Rightarrow> 'x rdma_world" where
  "forget_conn q w = upd_rp (\<lambda>p. p\<lparr>rp_conn_by_qp := (rp_conn_by_qp p)(q := None)\<rparr>) w"

definition forget_conn_of :: "conn_id \<Rightarrow> 'x rdma_world \<Rightarrow> 'x rdma_world" where
  "forget_conn_of c w = upd_rp (\<lambda>p. p\<lparr>rp_conn_by_qp := (\<lambda>q. if rp_conn_by_qp p q = Some c then None else rp_conn_by_qp p q),
     rp_ctrl_conns := filter (\<lambda>k. k \<noteq> c) (rp_ctrl_conns p)\<rparr>) w"

text \<open>
  \<open>~RdmaConnection\<close>. What is left at its position in \<open>rp_conns\<close> has no queue pairs and no socket, and the
  weak references to it are gone.
\<close>

fun release_qps :: "'x rdma_os \<Rightarrow> u32 list \<Rightarrow> 'x rdma_world \<Rightarrow> 'x rdma_world" where
  "release_qps os [] w = w"
| "release_qps os (q # qs) w = release_qps os qs (rdo (ro_destroy_qp os q) (forget_conn q w))"

definition destroy_conn :: "'x rdma_os \<Rightarrow> conn_id \<Rightarrow> 'x rdma_world \<Rightarrow> 'x rdma_world" where
  "destroy_conn os c w =
    (let conn = rp_conns (rw_prov w) ! c;
         w1 = (if rc_ctrl_fd conn \<ge> 0 then rdo (ro_close os (rc_ctrl_fd conn)) w else w);
         w2 = release_qps os (map qp_num (rc_qps conn)) w1;
         w3 = (case rc_recv_mr conn of None \<Rightarrow> w2 | Some m \<Rightarrow> snd (rcall (vb_dereg_mr (ro_verbs os) m) w2))
     in upd_rp (\<lambda>p. p\<lparr>rp_ctrl_conns := filter (\<lambda>k. k \<noteq> c) (rp_ctrl_conns p)\<rparr>)
          (upd_rc c (\<lambda>n. n\<lparr>rc_qps := [], rc_ctrl_fd := -1, rc_recv_mr := None\<rparr>) w3))"

fun post_receives :: "'x verbs \<Rightarrow> nat \<Rightarrow> rdma_conn \<Rightarrow> 'x rdma_world \<Rightarrow> status \<times> 'x rdma_world" where
  "post_receives v 0 conn w = (kOk, w)"
| "post_receives v (Suc n) conn w =
    (case rcall (repost_receive v conn) w of (s, w1) \<Rightarrow> if s \<noteq> kOk then (s, w1) else post_receives v n conn w1)"

text \<open>The receive buffer is memory of this process, wherever it lies: \<open>buf\<close>.\<close>

definition arm_receives :: "'x verbs \<Rightarrow> conn_id \<Rightarrow> addr \<Rightarrow> u32 \<Rightarrow> 'x rdma_world \<Rightarrow> status \<times> 'x rdma_world" where
  "arm_receives v c buf slots w =
    (case rcall (vb_reg_mr v buf (ucast (slots * 16)) 1) w of
       (Inl err, w1) \<Rightarrow> (kDeviceError, w1)
     | (Inr m, w1) \<Rightarrow>
        let w2 = upd_rc c (\<lambda>n. n\<lparr>rc_recv_mr := Some m\<rparr>) w1
        in post_receives v (unat slots) (rp_conns (rw_prov w2) ! c) w2)"

section \<open>Proving a path\<close>

text \<open>A batch drawn from the shared queue: this connection's own answer, and the rest handed on.\<close>

fun sort_wcs :: "'x verbs \<Rightarrow> u32 \<Rightarrow> wc list \<Rightarrow> wc_status option \<Rightarrow> 'x rdma_world \<Rightarrow> wc_status option \<times> 'x rdma_world" where
  "sort_wcs v me [] mine w = (mine, w)"
| "sort_wcs v me (c # cs) mine w =
    (if wc_wr_id c = kVerifyWrId then
       if wc_qp_num c = me then sort_wcs v me cs (Some (wc_st c)) w
       else sort_wcs v me cs mine (note_verified (wc_qp_num c) (wc_st c) w)
     else if wc_wr_id c AND kRecvWrId \<noteq> 0 then sort_wcs v me cs mine (absorb_receive v c w)
     else sort_wcs v me cs mine (stash_completion c w))"

definition verdict :: "wc_status \<Rightarrow> status" where
  "verdict s = (if s = WC_SUCCESS then kOk else kTransportError)"

fun verify_loop :: "'x verbs \<Rightarrow> u32 \<Rightarrow> nat \<Rightarrow> 'x rdma_world \<Rightarrow> status \<times> 'x rdma_world" where
  "verify_loop v me 0 w = (kTimeout, w)"
| "verify_loop v me (Suc t) w =
    (case take_verified me w of
       (Some s, w1) \<Rightarrow> (verdict s, w1)
     | (None, w1) \<Rightarrow>
        (case drain_cq v 8 w1 of
           (None, w2) \<Rightarrow> (kTransportError, w2)
         | (Some cs, w2) \<Rightarrow>
            (case sort_wcs v me cs None w2 of
               (Some s, w3) \<Rightarrow> (verdict s, w3)
             | (None, w3) \<Rightarrow> verify_loop v me t w3)))"

definition verify_wr :: "mr \<Rightarrow> addr \<Rightarrow> send_wr" where
  "verify_wr m buf = \<lparr>wr_id = kVerifyWrId, wr_opcode = WR_SEND, wr_signaled = True, wr_addr = buf, wr_len = 8,
     wr_lkey = mr_lkey m, wr_remote_addr = 0, wr_rkey = 0\<rparr>"

definition verify_path :: "'x rdma_os \<Rightarrow> conn_id \<Rightarrow> addr \<Rightarrow> int \<Rightarrow> 'x rdma_world \<Rightarrow> status \<times> 'x rdma_world" where
  "verify_path os c buf timeout_ms w =
    (case (rc_recv_mr (rp_conns (rw_prov w) ! c), rc_qps (rp_conns (rw_prov w) ! c)) of
       (Some m, q # _) \<Rightarrow>
        (case rcall (vb_post_send (ro_verbs os) (qp_num q) (verify_wr m buf)) w of (rc, w1) \<Rightarrow>
         if rc \<noteq> 0 then (kTransportError, w1)
         else case rcall (ro_turns os timeout_ms) w1 of (t, w2) \<Rightarrow> verify_loop (ro_verbs os) (qp_num q) t w2)
     | _ \<Rightarrow> (kUnsupported, w))"

definition new_rdma_conn :: "int \<Rightarrow> bool \<Rightarrow> u32 list \<Rightarrow> rdma_conn" where
  "new_rdma_conn sock ooo qs = \<lparr>rc_qps = map new_queue_pair qs, rc_next_qp = 0, rc_failed = False, rc_recv_mr = None,
     rc_peer_closed = False, rc_ctrl_fd = sock, rc_ooo_rw = ooo, rc_outbox = reset sock kDefaultLimit, rc_rx = []\<rparr>"

definition install_conn :: "int \<Rightarrow> bool \<Rightarrow> u32 list \<Rightarrow> 'x rdma_world \<Rightarrow> conn_id \<times> 'x rdma_world" where
  "install_conn sock ooo qs w =
    (let c = length (rp_conns (rw_prov w));
         w1 = fold (register_conn c) qs (upd_rp (\<lambda>p. p\<lparr>rp_conns := rp_conns p @ [new_rdma_conn sock ooo qs]\<rparr>) w)
     in (c, upd_rp (\<lambda>p. p\<lparr>rp_ctrl_conns := rp_ctrl_conns p @ [c]\<rparr>) w1))"

text \<open>The last part: installed, armed, proved; a connection that fails here is destroyed as it goes out of scope.\<close>

definition finish_connection :: "'x rdma_os \<Rightarrow> addr \<Rightarrow> int \<Rightarrow> bool \<Rightarrow> u32 list \<Rightarrow> 'x rdma_world \<Rightarrow> conn_id result \<times> 'x rdma_world" where
  "finish_connection os buf sock ooo qs w =
    (case install_conn sock ooo qs w of (c, w1) \<Rightarrow>
     case arm_receives (ro_verbs os) c buf (rf_rq_depth (rp_cfg (rw_prov w1))) w1 of (rs, w2) \<Rightarrow>
     if rs \<noteq> kOk then (Inl rs, destroy_conn os c w2)
     else case verify_path os c buf (rf_verify_timeout_ms (rp_cfg (rw_prov w2))) w2 of (vs, w3) \<Rightarrow>
       if vs \<noteq> kOk then (Inl vs, destroy_conn os c (forget_conn_of c w3)) else (Inr c, w3))"

definition build_connection :: "'x rdma_os \<Rightarrow> addr \<Rightarrow> int \<Rightarrow> 'x rdma_world \<Rightarrow> conn_id result \<times> 'x rdma_world" where
  "build_connection os buf sock w =
    (let cfg = rp_cfg (rw_prov w); n = (if rf_qp_per_conn cfg = 0 then 1 else rf_qp_per_conn cfg) in
     case create_qps os (unat n) [] w of
       (None, w1) \<Rightarrow> (Inl kDeviceError, w1)
     | (Some qs, w1) \<Rightarrow>
        (case exchange_endpoints os sock qs w1 of
           (Inl s, w2) \<Rightarrow> (Inl s, destroy_all os qs w2)
         | (Inr peers, w2) \<Rightarrow>
            (case exchange_features os sock (hd peers) w2 of
               (None, w3) \<Rightarrow> (Inl kPeerDisconnected, destroy_all os qs w3)
             | (Some features, w3) \<Rightarrow>
                (case bring_up_all os (use_ooo os features) (zip qs peers) w3 of (s, w4) \<Rightarrow>
                 if s \<noteq> kOk then (Inl s, destroy_all os qs w4)
                 else finish_connection os buf sock (use_ooo os features) qs w4))))"

definition rdma_connect :: "'x rdma_os \<Rightarrow> addr \<Rightarrow> bytes \<Rightarrow> 'x rdma_world \<Rightarrow> conn_id result \<times> 'x rdma_world" where
  "rdma_connect os buf md w =
    (case (get_u16 md 0, get_u16 md 4) of
       (Some port, Some ip_len) \<Rightarrow>
        if length md \<noteq> 6 + unat ip_len then (Inl kInvalidArgument, w)
        else (case rcall (ro_socket os) w of (sock, w1) \<Rightarrow>
          if sock < 0 then (Inl kInternal, w1)
          else case ro_inet_pton os (bytes_string (drop 6 md)) of
            None \<Rightarrow> (Inl kInvalidArgument, rdo (ro_close os sock) w1)
          | Some ip \<Rightarrow>
             (case rcall (ro_connect os sock ip port) w1 of (ok, w2) \<Rightarrow>
              if \<not> ok then (Inl kPeerDisconnected, rdo (ro_close os sock) w2)
              else case build_connection os buf sock w2 of
                (Inl s, w3) \<Rightarrow> (Inl s, rdo (ro_close os sock) w3)
              | (Inr c, w3) \<Rightarrow> (Inr c, w3)))
     | _ \<Rightarrow> (Inl kInvalidArgument, w))"

text \<open>\<open>None\<close> is a wait that has not ended when the turns run out.\<close>

fun rdma_accept :: "'x rdma_os \<Rightarrow> addr \<Rightarrow> int \<Rightarrow> accept_turn list \<Rightarrow> 'x rdma_world \<Rightarrow> (conn_id result \<times> 'x rdma_world) option" where
  "rdma_accept os buf timeout_ms [] w = None"
| "rdma_accept os buf timeout_ms (Came sock # ts) w =
    (if sock < 0 then rdma_accept os buf timeout_ms ts w
     else case build_connection os buf sock w of
       (Inl s, w1) \<Rightarrow> Some (Inl s, rdo (ro_close os sock) w1)
     | (Inr c, w1) \<Rightarrow> Some (Inr c, w1))"
| "rdma_accept os buf timeout_ms (Nothing late # ts) w =
    (if timeout_ms \<ge> 0 \<and> late then Some (Inl kTimeout, w) else rdma_accept os buf timeout_ms ts w)"

definition rdma_local_metadata :: "'x rdma_world \<Rightarrow> bytes result" where
  "rdma_local_metadata w =
    (let p = rw_prov w; ip = rf_advertise_ip (rp_cfg p) in
     Inr (put_u16 (rp_listen_port p) @ put_u16 (word_of_int (rp_gid_index p)) @ put_u16 (word_of_nat (length ip)) @ string_bytes ip))"

fun err_all :: "'x rdma_os \<Rightarrow> u32 list \<Rightarrow> status \<Rightarrow> 'x rdma_world \<Rightarrow> status \<times> 'x rdma_world" where
  "err_all os [] first w = (first, w)"
| "err_all os (q # qs) first w =
    (case rcall (ro_modify_qp os q AttrErr) w of (rc, w1) \<Rightarrow>
     err_all os qs (if rc \<noteq> 0 \<and> first = kOk then kTransportError else first) w1)"

definition rdma_disconnect :: "'x rdma_os \<Rightarrow> conn_id \<Rightarrow> 'x rdma_world \<Rightarrow> status \<times> 'x rdma_world" where
  "rdma_disconnect os c w =
    (case conn_ptr (Some c) w of
       None \<Rightarrow> (kInvalidArgument, w)
     | Some k \<Rightarrow> err_all os (map qp_num (rc_qps (rp_conns (rw_prov w) ! k))) kOk (upd_rc k (\<lambda>n. n\<lparr>rc_failed := True\<rparr>) w))"

section \<open>Control messages\<close>

definition mark_peer_closed :: "conn_id \<Rightarrow> 'x rdma_world \<Rightarrow> 'x rdma_world" where
  "mark_peer_closed c w = upd_rc c (\<lambda>n. n\<lparr>rc_peer_closed := True\<rparr>) w"

definition rdma_control_frame :: "u16 \<Rightarrow> bytes \<Rightarrow> bytes" where
  "rdma_control_frame t payload = encode_control_header \<lparr>ch_major = kControlMajor, ch_minor = kControlMinor,
     ch_type = control_type_of_code t, ch_flags = 0, ch_payload_len = word_of_nat (length payload)\<rparr> @ payload"

definition send_control_on :: "'x rdma_os \<Rightarrow> conn_id \<Rightarrow> u16 \<Rightarrow> bytes \<Rightarrow> 'x rdma_world \<Rightarrow> status \<times> 'x rdma_world" where
  "send_control_on os c type payload w =
    (if unat kControlMaxPayload < length payload then (kInvalidArgument, w)
     else if rc_ctrl_fd (rp_conns (rw_prov w) ! c) < 0 then (kPeerDisconnected, w)
     else case rcall (ro_sends os (rc_ctrl_fd (rp_conns (rw_prov w) ! c))) w of (outs, w1) \<Rightarrow>
       case post outs (rdma_control_frame type payload) (rc_outbox (rp_conns (rw_prov w1) ! c)) of (s, ob) \<Rightarrow>
         (s, (if s = kPeerDisconnected then mark_peer_closed c else id) (upd_rc c (\<lambda>n. n\<lparr>rc_outbox := ob\<rparr>) w1)))"

definition rdma_send_control :: "'x rdma_os \<Rightarrow> conn_id option \<Rightarrow> u16 \<Rightarrow> bytes \<Rightarrow> 'x rdma_world \<Rightarrow> status \<times> 'x rdma_world" where
  "rdma_send_control os conn type payload w =
    (case conn_ptr conn w of None \<Rightarrow> (kInvalidArgument, w) | Some c \<Rightarrow> send_control_on os c type payload w)"

fun broadcast_to :: "'x rdma_os \<Rightarrow> conn_id list \<Rightarrow> u16 \<Rightarrow> bytes \<Rightarrow> nat \<Rightarrow> nat \<Rightarrow> 'x rdma_world \<Rightarrow> (nat \<times> nat) \<times> 'x rdma_world" where
  "broadcast_to os [] type payload ok no w = ((ok, no), w)"
| "broadcast_to os (c # cs) type payload ok no w =
    (if rc_peer_closed (rp_conns (rw_prov w) ! c) then broadcast_to os cs type payload ok no w
     else case send_control_on os c type payload w of (s, w1) \<Rightarrow>
       if s = kOk then broadcast_to os cs type payload (Suc ok) no w1
       else broadcast_to os cs type payload ok (Suc no) w1)"

definition rdma_broadcast_control :: "'x rdma_os \<Rightarrow> u16 \<Rightarrow> bytes \<Rightarrow> 'x rdma_world \<Rightarrow> (status \<times> nat \<times> nat) \<times> 'x rdma_world" where
  "rdma_broadcast_control os type payload w =
    (case broadcast_to os (rp_ctrl_conns (rw_prov w)) type payload 0 0 w of (n, w1) \<Rightarrow> ((kOk, n), w1))"

text \<open>What arrives, in buffers of 4096 bytes; a short one ends the reading. True says the peer is gone.\<close>

fun rdma_recv_loop :: "recv_outcome list \<Rightarrow> bytes \<Rightarrow> bool \<times> bytes" where
  "rdma_recv_loop [] rx = (False, rx)"
| "rdma_recv_loop (Got bs # os) rx =
    (if bs = [] then (True, rx)
     else if length bs < 4096 then (False, rx @ bs)
     else rdma_recv_loop os (rx @ take 4096 bs))"
| "rdma_recv_loop (RecvInterrupted # os) rx = rdma_recv_loop os rx"
| "rdma_recv_loop (RecvAgain # os) rx = (False, rx)"
| "rdma_recv_loop (RecvError # os) rx = (True, rx)"

text \<open>The messages a buffer starts with, at most \<open>room\<close>, and what is kept of it.\<close>

function parse_control :: "conn_id \<Rightarrow> nat \<Rightarrow> bytes \<Rightarrow> control_message list \<times> bytes" where
  "parse_control c room rx =
    (if length rx < kControlHeaderBytes \<or> room = 0 then ([], rx)
     else case decode_control_header rx of
       Some (Inr h) \<Rightarrow>
        let total = kControlHeaderBytes + unat (ch_payload_len h) in
        if length rx < total then ([], rx)
        else case parse_control c (room - 1) (drop total rx) of (ms, rest) \<Rightarrow>
          (\<lparr>cm_peer = 0, cm_type = control_type_code (ch_type h), cm_payload = drop kControlHeaderBytes (take total rx),
             cm_conn = Some c\<rparr> # ms, rest)
     | _ \<Rightarrow> ([], []))"
  by pat_completeness auto
termination by (relation "measure (\<lambda>(c, room, rx). room)") auto

declare parse_control.simps [simp del]

definition poll_control_on :: "'x rdma_os \<Rightarrow> conn_id \<Rightarrow> nat \<Rightarrow> 'x rdma_world \<Rightarrow> control_message list \<times> 'x rdma_world" where
  "poll_control_on os c room w =
    (let fd = rc_ctrl_fd (rp_conns (rw_prov w) ! c) in
     if fd < 0 then ([], w)
     else case rcall (ro_sends os fd) w of (outs, w1) \<Rightarrow>
       case flush outs (rc_outbox (rp_conns (rw_prov w1) ! c)) of (s, ob) \<Rightarrow>
       let w2 = (if s = kPeerDisconnected then mark_peer_closed c else id) (upd_rc c (\<lambda>n. n\<lparr>rc_outbox := ob\<rparr>) w1) in
       case rcall (ro_recvs os fd) w2 of (ins, w3) \<Rightarrow>
       case rdma_recv_loop ins (rc_rx (rp_conns (rw_prov w3) ! c)) of (gone, rx) \<Rightarrow>
       let w4 = (if gone then mark_peer_closed c else id) w3 in
       case parse_control c room rx of (ms, rest) \<Rightarrow> (ms, upd_rc c (\<lambda>n. n\<lparr>rc_rx := rest\<rparr>) w4))"

fun poll_controls :: "'x rdma_os \<Rightarrow> conn_id list \<Rightarrow> nat \<Rightarrow> 'x rdma_world \<Rightarrow> control_message list \<times> 'x rdma_world" where
  "poll_controls os [] room w = ([], w)"
| "poll_controls os (c # cs) room w =
    (case poll_control_on os c room w of (ms, w1) \<Rightarrow>
     case poll_controls os cs (room - length ms) w1 of (ms', w2) \<Rightarrow> (ms @ ms', w2))"

definition rdma_poll_control :: "'x rdma_os \<Rightarrow> nat \<Rightarrow> 'x rdma_world \<Rightarrow> (status \<times> control_message list) \<times> 'x rdma_world" where
  "rdma_poll_control os n w = (case poll_controls os (rp_ctrl_conns (rw_prov w)) n w of (ms, w1) \<Rightarrow> ((kOk, ms), w1))"

section \<open>Draining, and what a provider says of itself\<close>

text \<open>
  Each turn polls, and what the poll hands back goes into a vector of the loop's own. \<open>None\<close>: without a
  deadline, the loop has not ended when the turns run out.
\<close>

fun rdma_drain_loop :: "'x verbs \<Rightarrow> conn_id \<Rightarrow> bool \<Rightarrow> nat \<Rightarrow> 'x rdma_world \<Rightarrow> (status \<times> 'x rdma_world) option" where
  "rdma_drain_loop v c timed t w =
    (if conn_keys (rp_conns (rw_prov w) ! c) = [] then Some (kOk, w)
     else let w1 = snd (rdma_poll v (unat (rf_cq_depth (rp_cfg (rw_prov w)))) w) in
       case t of 0 \<Rightarrow> if timed then Some (kTimeout, w1) else None | Suc t' \<Rightarrow> rdma_drain_loop v c timed t' w1)"

declare rdma_drain_loop.simps [simp del]

definition rdma_drain :: "'x rdma_os \<Rightarrow> conn_id \<Rightarrow> int \<Rightarrow> 'x rdma_world \<Rightarrow> (status \<times> 'x rdma_world) option" where
  "rdma_drain os c timeout_ms w =
    (case conn_ptr (Some c) w of
       None \<Rightarrow> Some (kInvalidArgument, w)
     | Some k \<Rightarrow> (case rcall (ro_turns os timeout_ms) w of (t, w1) \<Rightarrow> rdma_drain_loop (ro_verbs os) k (timeout_ms \<ge> 0) t w1))"

definition rdma_caps :: "rdma_prov \<Rightarrow> provider_caps" where
  "rdma_caps p = \<lparr>pc_name = (if rf_nic_ordinal (rp_cfg p) = 0 then ''rdma'' else ''rdma#'' @ show_nat (unat (rf_nic_ordinal (rp_cfg p)))),
     supports_read = True, supports_write = True, supports_vector = False, supports_multi_qp = False, needs_explicit_flush = False,
     supports_peer_signal = False, relative_capacity = rf_relative_capacity (rp_cfg p), max_segment_bytes = ucast (rp_max_msg_sz p),
     max_sge = rf_max_sge (rp_cfg p)\<rparr>"

definition queued_control_messages :: "rdma_prov \<Rightarrow> nat" where
  "queued_control_messages p = sum_list (map (\<lambda>c. length (ob_q (rc_outbox (rp_conns p ! c)))) (rp_ctrl_conns p))"

definition out_of_order_connections :: "rdma_prov \<Rightarrow> nat" where
  "out_of_order_connections p = length (filter (\<lambda>c. rc_ooo_rw (rp_conns p ! c)) (rp_ctrl_conns p))"

fun controller_name :: "controller \<Rightarrow> string" where
  "controller_name (CcOff c) = ''off''"
| "controller_name (CcFixed c) = ''fixed_window''"
| "controller_name (CcTimely c) = ''timely''"

fun cc_rate :: "cc_direction \<Rightarrow> controller \<Rightarrow> real" where
  "cc_rate d (CcTimely c) = td_rate (tc_dir c d)"
| "cc_rate d c = 0"

definition jraw :: "string \<Rightarrow> string \<Rightarrow> string" where
  "jraw k v = CHR 0x22 # k @ CHR 0x22 # CHR '':'' # v"

definition rdma_describe :: "'x rdma_os \<Rightarrow> 'x rdma_world \<Rightarrow> string" where
  "rdma_describe os w =
    (let p = rw_prov w; cfg = rp_cfg p in
     CHR ''{'' # commas
       [jstr ''provider'' ''rdma'', jstr ''advertise_ip'' (rf_advertise_ip cfg), jstr ''device'' (ro_device_name os),
        jnum ''ib_port'' (unat (rf_ib_port cfg)), jstr ''nic_proximity'' (ro_nic_proximity os),
        jraw ''gid_index'' (show_int (rp_gid_index p)), jstr ''link_layer'' (if ro_ethernet os then ''ethernet'' else ''infiniband''),
        jnum ''active_mtu'' (unat (ro_active_mtu os)), jnum ''qp_per_conn'' (unat (rf_qp_per_conn cfg)),
        jnum ''sq_depth'' (unat (rf_sq_depth cfg)), jnum ''rq_depth'' (unat (rf_rq_depth cfg)),
        jnum ''cq_depth'' (unat (rf_cq_depth cfg)), jnum ''signal_period'' (unat (rf_signal_period cfg)),
        jstr ''out_of_order'' (if ro_ooo_rw os then ''offered'' else ro_ooo_why os),
        jnum ''out_of_order_connections'' (out_of_order_connections p), jnum ''ctrl_queued'' (queued_control_messages p),
        jstr ''cc'' (controller_name (rp_cc p)), jnum ''cc_window_bytes'' (unat (cc_window CC_kWrite (rp_cc p))),
        jraw ''cc_rate_bps'' (ro_show_double os (cc_rate CC_kWrite (rp_cc p)))] @ ''}'')"

text \<open>A drain that does not end has no place in the record; it reads as one that ran out of time.\<close>

definition rdma_ops :: "'x rdma_os \<Rightarrow> addr \<Rightarrow> rdma_prov \<Rightarrow> 'x rdma_world provider_ops" where
  "rdma_ops os buf p = \<lparr>
     po_caps = rdma_caps p,
     po_stats = (\<lambda>w. rp_stats (rw_prov w)),
     po_describe = rdma_describe os,
     po_register_region = rdma_register_region (ro_verbs os),
     po_deregister_region = rdma_deregister_region (ro_verbs os),
     po_connect = rdma_connect os buf,
     po_disconnect = rdma_disconnect os,
     po_local_metadata = rdma_local_metadata,
     po_submit = rdma_submit (ro_verbs os),
     po_poll = rdma_poll (ro_verbs os),
     po_send_control = rdma_send_control os,
     po_broadcast_control = rdma_broadcast_control os,
     po_poll_control = rdma_poll_control os,
     po_poll_peer_arrivals = rdma_poll_arrivals,
     po_flush = (\<lambda>c w. (kOk, w)),
     po_drain = (\<lambda>c t w. case rdma_drain os c t w of Some r \<Rightarrow> r | None \<Rightarrow> (kTimeout, w)),
     po_qp_count = (\<lambda>c w. word_of_nat (length (rc_qps (rp_conns (rw_prov w) ! c)))),
     po_submit_capacity = (\<lambda>c w. rdma_submit_capacity (rf_sq_depth (rp_cfg (rw_prov w))) (rp_conns (rw_prov w) ! c)),
     po_alive = (\<lambda>c w. \<not> rc_peer_closed (rp_conns (rw_prov w) ! c))\<rparr>"

end
