(* ===== verification/Hux_RdmaLaws.thy ===== *)
theory Hux_RdmaLaws
  imports Hux_RdmaCtl
begin

text \<open>
  The RDMA transport keeps the contract of a provider whatever the adapter, the sockets and the clock
  do: what setting up a connection, proving it and the control channel leave alone, the interpretation
  of \<open>transport_provider\<close>, and what the handshake and the control channel guarantee.
\<close>

unbundle bit_operations_syntax

section \<open>What setting up leaves alone\<close>

lemma rdo_prov [simp]: "rw_prov (rdo f w) = rw_prov w"
  by (simp add: rdo_def)

lemma destroy_all_prov [simp]: "rw_prov (destroy_all os qs w) = rw_prov w"
  by (induction qs arbitrary: w) simp_all

lemma create_qps_prov [simp]: "rw_prov (snd (create_qps os n made w)) = rw_prov w"
  by (induction n arbitrary: made w) (simp_all add: Let_def split_beta split: option.split)

lemma sock_prov [simp]: "rw_prov (snd (sock_send os s bs w)) = rw_prov w" "rw_prov (snd (sock_recv os s n w)) = rw_prov w"
  by (simp_all add: sock_send_def sock_recv_def split_beta)

lemma exchange_endpoints_prov [simp]: "rw_prov (snd (exchange_endpoints os s qs w)) = rw_prov w"
  by (simp add: exchange_endpoints_def Let_def split_beta split: option.split)

lemma exchange_features_prov [simp]: "rw_prov (snd (exchange_features os s e w)) = rw_prov w"
  by (simp add: exchange_features_def split_beta split: option.split)

lemma bring_up_prov [simp]: "rw_prov (snd (bring_up os ooo q e w)) = rw_prov w"
  unfolding bring_up_def Let_def split_beta
  by (simp only: if_distrib [of snd] if_distrib [of rw_prov] snd_conv rcall_prov_snd if_cancel)

lemma bring_up_all_prov [simp]: "rw_prov (snd (bring_up_all os ooo ps w)) = rw_prov w"
proof (induction ps arbitrary: w)
  case (Cons p ps)
  then show ?case by (cases p) (simp add: split_beta)
qed simp

text \<open>A step that keeps the contract: the invariant, and what is outstanding.\<close>

definition keeps :: "'x rdma_world \<Rightarrow> 'x rdma_world \<Rightarrow> bool" where
  "keeps w w' \<longleftrightarrow> (rdma_inv w \<longrightarrow> rdma_inv w') \<and> rdma_outstanding w' = rdma_outstanding w"

lemma keeps_trans: "keeps w w1 \<Longrightarrow> keeps w1 w2 \<Longrightarrow> keeps w w2"
  by (simp add: keeps_def)

lemma keeps_view: "conns_view w' = conns_view w \<Longrightarrow> keeps w w'"
  using conns_viewD [of w' w] by (simp add: keeps_def)

lemma keeps_prov: "rw_prov w' = rw_prov w \<Longrightarrow> keeps w w'"
  by (rule keeps_view [OF conns_view_prov])

lemma view_conn:
  assumes "conns_view w' = conns_view w" "c < length (rp_conns (rw_prov w))"
  shows "c < length (rp_conns (rw_prov w'))" "conn_keys (rp_conns (rw_prov w') ! c) = conn_keys (rp_conns (rw_prov w) ! c)"
proof -
  have m: "map conn_queues (rp_conns (rw_prov w')) = map conn_queues (rp_conns (rw_prov w))" using assms(1) by (simp add: conns_view_def)
  then have l: "length (rp_conns (rw_prov w')) = length (rp_conns (rw_prov w))" by (metis length_map)
  with assms(2) show "c < length (rp_conns (rw_prov w'))" by simp
  have "map conn_queues (rp_conns (rw_prov w')) ! c = map conn_queues (rp_conns (rw_prov w)) ! c" by (simp only: m)
  with assms(2) l show "conn_keys (rp_conns (rw_prov w') ! c) = conn_keys (rp_conns (rw_prov w) ! c)" by (simp add: conn_keys_queues)
qed

lemma register_conns:
  "rp_conns (rw_prov (fold (register_conn c) qs w)) = rp_conns (rw_prov w)"
  "rp_conn_by_qp (rw_prov (fold (register_conn c) qs w)) q = (if q \<in> set qs then Some c else rp_conn_by_qp (rw_prov w) q)"
  by (induction qs arbitrary: w) (simp_all add: register_conn_def)

lemma conn_keys_new: "conn_keys (new_rdma_conn sock ooo qs) = []"
  by (simp add: conn_keys_def new_rdma_conn_def qp_keys_def new_queue_pair_def)

lemma install_conn_parts:
  "fst (install_conn sock ooo qs w) = length (rp_conns (rw_prov w))"
  "rp_conns (rw_prov (snd (install_conn sock ooo qs w))) = rp_conns (rw_prov w) @ [new_rdma_conn sock ooo qs]"
  "rp_conn_by_qp (rw_prov (snd (install_conn sock ooo qs w))) q =
     (if q \<in> set qs then Some (length (rp_conns (rw_prov w))) else rp_conn_by_qp (rw_prov w) q)"
  by (simp_all add: install_conn_def Let_def register_conns)

lemma install_conn_keeps: "keeps w (snd (install_conn sock ooo qs w))"
proof -
  have "rdma_inv (snd (install_conn sock ooo qs w))" if "rdma_inv w"
    using that unfolding rdma_inv_def install_conn_parts by (auto simp: less_Suc_eq split: if_splits)
  moreover have "rdma_outstanding (snd (install_conn sock ooo qs w)) = rdma_outstanding w"
    by (simp add: rdma_outstanding_def install_conn_parts conn_keys_new)
  ultimately show ?thesis by (simp add: keeps_def)
qed

lemma view_simps [simp]:
  "conns_view (snd (rcall f w)) = conns_view w" "conns_view (rdo g w) = conns_view w"
  "conns_view (stash_completion c w) = conns_view w" "conns_view (snd (take_verified q w)) = conns_view w"
  by (simp_all add: conns_view_def stash_completion_def take_verified_def)

lemma view_drain_cq [simp]: "conns_view (snd (drain_cq v n w)) = conns_view w"
  by (simp add: drain_cq_def)

declare conns_view_note [simp] conns_view_absorb [simp]

lemma queues_simps [simp]:
  "conn_queues (n\<lparr>rc_recv_mr := m\<rparr>) = conn_queues n" "conn_queues (n\<lparr>rc_outbox := ob\<rparr>) = conn_queues n"
  "conn_queues (n\<lparr>rc_rx := bs\<rparr>) = conn_queues n" "conn_queues (n\<lparr>rc_peer_closed := b\<rparr>) = conn_queues n"
  by (simp_all add: conn_queues_def)

lemma view_mark [simp]: "conns_view (mark_peer_closed c w) = conns_view w"
  by (simp add: mark_peer_closed_def conns_view_upd_rc)

lemma post_receives_prov [simp]: "rw_prov (snd (post_receives v n conn w)) = rw_prov w"
  by (induction n arbitrary: w) (simp_all add: split_beta)

lemma arm_receives_view: "conns_view (snd (arm_receives v c buf slots w)) = conns_view w"
proof -
  obtain r w1 where r: "rcall (vb_reg_mr v buf (ucast (slots * 16)) 1) w = (r, w1)" by fastforce
  have v: "conns_view w1 = conns_view w" using rcall_prov [OF r] by (rule conns_view_prov)
  show ?thesis
  proof (cases r)
    case (Inl e)
    with r v show ?thesis by (simp add: arm_receives_def)
  next
    case (Inr m)
    let ?w2 = "upd_rc c (\<lambda>n. n\<lparr>rc_recv_mr := Some m\<rparr>) w1"
    have "conns_view (snd (post_receives v (unat slots) (rp_conns (rw_prov ?w2) ! c) ?w2)) = conns_view ?w2"
      by (rule conns_view_prov) simp
    with r v Inr show ?thesis by (simp add: arm_receives_def Let_def conns_view_upd_rc)
  qed
qed

lemma sort_wcs_view: "conns_view (snd (sort_wcs v me cs mine w)) = conns_view w"
  by (induction cs arbitrary: mine w) simp_all

lemma verify_loop_view: "conns_view (snd (verify_loop v me t w)) = conns_view w"
proof (induction t arbitrary: w)
  case (Suc t)
  obtain m w1 where a: "take_verified me w = (m, w1)" by fastforce
  obtain cs w2 where b: "drain_cq v 8 w1 = (cs, w2)" by fastforce
  obtain r w3 where c: "sort_wcs v me (the cs) None w2 = (r, w3)" by fastforce
  have "conns_view w1 = conns_view w" "conns_view w2 = conns_view w1" "conns_view w3 = conns_view w2"
    using view_simps(4) [of me w] view_drain_cq [of v 8 w1] sort_wcs_view [of v me "the cs" None w2] by (simp_all add: a b c)
  with a b c Suc [of w3] show ?case by (cases cs) (auto split: option.split)
qed simp

lemma verify_path_view: "conns_view (snd (verify_path os c buf ms w)) = conns_view w"
proof -
  obtain m q where mq: "rc_recv_mr (rp_conns (rw_prov w) ! c) = m" "rc_qps (rp_conns (rw_prov w) ! c) = q" by blast
  show ?thesis
  proof (cases "m = None \<or> q = []")
    case True
    with mq show ?thesis by (auto simp: verify_path_def split: option.split list.split)
  next
    case False
    then obtain m' q' qs where "m = Some m'" "q = q' # qs" by (cases q) auto
    with mq show ?thesis by (simp add: verify_path_def split_beta verify_loop_view)
  qed
qed

lemma inv_fewer:
  assumes "length (rp_conns (rw_prov w')) = length (rp_conns (rw_prov w))"
    and "\<And>q k. rp_conn_by_qp (rw_prov w') q = Some k \<Longrightarrow> rp_conn_by_qp (rw_prov w) q = Some k"
  shows "rdma_inv w \<Longrightarrow> rdma_inv w'"
  using assms by (auto simp: rdma_inv_def)

lemma release_qps_parts:
  "rp_conns (rw_prov (release_qps os qs w)) = rp_conns (rw_prov w)"
  "rp_conn_by_qp (rw_prov (release_qps os qs w)) q = (if q \<in> set qs then None else rp_conn_by_qp (rw_prov w) q)"
  by (induction qs arbitrary: w) (simp_all add: forget_conn_def)

lemma forget_conn_of_keeps:
  "keeps w (forget_conn_of c w)" "rp_conns (rw_prov (forget_conn_of c w)) = rp_conns (rw_prov w)"
proof -
  have "rdma_inv w \<Longrightarrow> rdma_inv (forget_conn_of c w)"
    by (rule inv_fewer) (auto simp: forget_conn_of_def split: if_splits)
  then show "keeps w (forget_conn_of c w)" by (simp add: keeps_def rdma_outstanding_def forget_conn_of_def)
qed (simp add: forget_conn_of_def)

lemma destroy_conn_keeps:
  assumes "conn_keys (rp_conns (rw_prov w) ! c) = []"
  shows "keeps w (destroy_conn os c w)"
proof -
  let ?conn = "rp_conns (rw_prov w) ! c"
  define w1 where "w1 = (if rc_ctrl_fd ?conn \<ge> 0 then rdo (ro_close os (rc_ctrl_fd ?conn)) w else w)"
  define w2 where "w2 = release_qps os (map qp_num (rc_qps ?conn)) w1"
  define w3 where "w3 = (case rc_recv_mr ?conn of None \<Rightarrow> w2 | Some m \<Rightarrow> snd (rcall (vb_dereg_mr (ro_verbs os) m) w2))"
  have p: "rw_prov w1 = rw_prov w" "rw_prov w3 = rw_prov w2" by (simp_all add: w1_def w3_def split: option.split)
  have r: "rp_conns (rw_prov w3) = rp_conns (rw_prov w)"
    "rp_conn_by_qp (rw_prov w3) q = Some k \<Longrightarrow> rp_conn_by_qp (rw_prov w) q = Some k" for q k
    by (auto simp: p w2_def release_qps_parts split: if_splits)
  have d: "destroy_conn os c w = upd_rp (\<lambda>p. p\<lparr>rp_ctrl_conns := filter (\<lambda>k. k \<noteq> c) (rp_ctrl_conns p)\<rparr>)
      (upd_rc c (\<lambda>n. n\<lparr>rc_qps := [], rc_ctrl_fd := -1, rc_recv_mr := None\<rparr>) w3)"
    unfolding destroy_conn_def Let_def w1_def [symmetric] w2_def [symmetric] w3_def [symmetric] ..
  have "rdma_inv w \<Longrightarrow> rdma_inv (destroy_conn os c w)" by (rule inv_fewer) (simp_all add: d r)
  moreover have "map conn_keys (rp_conns (rw_prov (destroy_conn os c w))) = map conn_keys (rp_conns (rw_prov w))"
    unfolding d using assms by (simp add: r(1)) (rule map_update_same, simp add: conn_keys_def)
  ultimately show ?thesis by (simp add: keeps_def rdma_outstanding_def)
qed

lemma finish_connection_keeps: "keeps w (snd (finish_connection os buf sock ooo qs w))"
proof -
  obtain c w1 where i: "install_conn sock ooo qs w = (c, w1)" by fastforce
  obtain rs w2 where a: "arm_receives (ro_verbs os) c buf (rf_rq_depth (rp_cfg (rw_prov w1))) w1 = (rs, w2)" by fastforce
  obtain vs w3 where v: "verify_path os c buf (rf_verify_timeout_ms (rp_cfg (rw_prov w2))) w2 = (vs, w3)" by fastforce
  have k1: "keeps w w1" using install_conn_keeps [of w sock ooo qs] by (simp add: i)
  have c: "c < length (rp_conns (rw_prov w1))" "conn_keys (rp_conns (rw_prov w1) ! c) = []"
    using install_conn_parts(1,2) [of sock ooo qs w] by (simp_all add: i conn_keys_new)
  have v2: "conns_view w2 = conns_view w1"
    using arm_receives_view [of "ro_verbs os" c buf "rf_rq_depth (rp_cfg (rw_prov w1))" w1] by (simp add: a)
  have v3: "conns_view w3 = conns_view w1"
    using verify_path_view [of os c buf "rf_verify_timeout_ms (rp_cfg (rw_prov w2))" w2] v2 by (simp add: v)
  have d2: "keeps w (destroy_conn os c w2)"
    using keeps_trans [OF keeps_trans [OF k1 keeps_view [OF v2]] destroy_conn_keeps] view_conn(2) [OF v2 c(1)] c(2) by simp
  have f: "keeps w (forget_conn_of c w3)" by (rule keeps_trans [OF keeps_trans [OF k1 keeps_view [OF v3]] forget_conn_of_keeps(1)])
  have d3: "keeps w (destroy_conn os c (forget_conn_of c w3))"
    using view_conn(2) [OF v3 c(1)] c(2)
    by (intro keeps_trans [OF f destroy_conn_keeps]) (simp add: forget_conn_of_keeps(2))
  show ?thesis
    using d2 d3 keeps_trans [OF k1 keeps_view [OF v3]] by (simp add: finish_connection_def i a v)
qed

lemma build_connection_keeps: "keeps w (snd (build_connection os buf sock w))"
proof -
  let ?n = "if rf_qp_per_conn (rp_cfg (rw_prov w)) = 0 then 1 else rf_qp_per_conn (rp_cfg (rw_prov w))"
  obtain qs w1 where a: "create_qps os (unat ?n) [] w = (qs, w1)" by fastforce
  obtain peers w2 where b: "exchange_endpoints os sock (the qs) w1 = (peers, w2)" by fastforce
  obtain f w3 where c: "exchange_features os sock (hd (projr peers)) w2 = (f, w3)" by fastforce
  obtain s w4 where d: "bring_up_all os (use_ooo os (the f)) (zip (the qs) (projr peers)) w3 = (s, w4)" by fastforce
  have p: "rw_prov w1 = rw_prov w" "rw_prov w2 = rw_prov w" "rw_prov w3 = rw_prov w" "rw_prov w4 = rw_prov w"
    using create_qps_prov [of os "unat ?n" "[]" w] exchange_endpoints_prov [of os sock "the qs" w1]
      exchange_features_prov [of os sock "hd (projr peers)" w2]
      bring_up_all_prov [of os "use_ooo os (the f)" "zip (the qs) (projr peers)" w3] by (simp_all add: a b c d)
  have k: "keeps w (snd (finish_connection os buf sock (use_ooo os (the f)) (the qs) w4))"
    by (rule keeps_trans [OF keeps_prov [OF p(4)] finish_connection_keeps])
  show ?thesis
  proof (cases "qs = None \<or> (\<exists>e. peers = Inl e) \<or> f = None \<or> s \<noteq> kOk")
    case True
    then have "rw_prov (snd (build_connection os buf sock w)) = rw_prov w"
      using p unfolding build_connection_def Let_def a using b c d
      by (auto split: option.split sum.split)
    then show ?thesis by (rule keeps_prov)
  next
    case False
    then obtain q' p' f' where "qs = Some q'" "peers = Inr p'" "f = Some f'" "s = kOk" by (cases peers) auto
    then have "build_connection os buf sock w = finish_connection os buf sock (use_ooo os (the f)) (the qs) w4"
      unfolding build_connection_def Let_def a using b c d by simp
    with k show ?thesis by simp
  qed
qed

lemma rdo_keeps: "keeps w w' \<Longrightarrow> keeps w (rdo f w')"
  by (erule keeps_trans) (rule keeps_prov, simp)

lemma rcall_keeps: "keeps w w' \<Longrightarrow> keeps w (snd (rcall f w'))"
  by (erule keeps_trans) (rule keeps_prov, simp)

lemma keeps_refl [simp]: "keeps w w"
  by (simp add: keeps_def)

lemma rdma_connect_keeps: "keeps w (snd (rdma_connect os buf md w))"
proof -
  obtain sock w1 where a: "rcall (ro_socket os) w = (sock, w1)" by fastforce
  obtain ok w2 where b: "rcall (ro_connect os sock (the (ro_inet_pton os (bytes_string (drop 6 md)))) (the (get_u16 md 0))) w1 = (ok, w2)" by fastforce
  obtain r w3 where c: "build_connection os buf sock w2 = (r, w3)" by fastforce
  have k1: "keeps w w1" by (rule keeps_prov [OF rcall_prov [OF a]])
  have k2: "keeps w w2" by (rule keeps_trans [OF k1 keeps_prov [OF rcall_prov [OF b]]])
  have k3: "keeps w w3" using build_connection_keeps [of w2 os buf sock] by (intro keeps_trans [OF k2]) (simp add: c)
  note k = k1 k3 rdo_keeps [OF k1] rdo_keeps [OF k2] rdo_keeps [OF k3]
  show ?thesis
    unfolding rdma_connect_def a using b c by (auto simp: k split: option.split sum.split)
qed

lemma rdma_accept_keeps: "rdma_accept os buf ms ts w = Some (r, w') \<Longrightarrow> keeps w w'"
proof (induction ts)
  case (Cons t ts)
  show ?case
  proof (cases t)
    case (Came sock)
    obtain q w1 where b: "build_connection os buf sock w = (q, w1)" by fastforce
    have "keeps w w1" using build_connection_keeps [of w os buf sock] by (simp add: b)
    with Cons Came b show ?thesis by (auto intro: rdo_keeps split: if_splits sum.splits)
  next
    case (Nothing late)
    with Cons show ?thesis by (auto split: if_splits)
  qed
qed simp

lemma err_all_prov [simp]: "rw_prov (snd (err_all os qs s w)) = rw_prov w"
  by (induction qs arbitrary: s w) (simp_all add: split_beta)

lemma rdma_disconnect_keeps: "keeps w (snd (rdma_disconnect os c w))"
proof -
  have "keeps w (snd (err_all os qs s (upd_rc k (\<lambda>n. n\<lparr>rc_failed := True\<rparr>) w)))" for qs s k
  proof (rule keeps_trans)
    show "keeps w (upd_rc k (\<lambda>n. n\<lparr>rc_failed := True\<rparr>) w)" by (rule keeps_view) (simp add: conns_view_upd_rc)
  qed (rule keeps_prov, rule err_all_prov)
  then show ?thesis by (simp add: rdma_disconnect_def split: option.split)
qed

lemma view_if: "conns_view ((if b then mark_peer_closed c else id) w) = conns_view w"
  by simp

lemma send_control_on_view: "conns_view (snd (send_control_on os c t pl w)) = conns_view w"
  by (simp add: send_control_on_def split_beta view_if conns_view_upd_rc del: upd_rc_prov)

lemma broadcast_view: "conns_view (snd (broadcast_to os cs t pl ok no w)) = conns_view w"
  by (induction cs arbitrary: ok no w) (simp_all add: split_beta send_control_on_view)

lemma poll_control_on_view: "conns_view (snd (poll_control_on os c n w)) = conns_view w"
  by (simp add: poll_control_on_def Let_def split_beta view_if conns_view_upd_rc del: upd_rc_prov)

lemma poll_controls_view: "conns_view (snd (poll_controls os cs n w)) = conns_view w"
  by (induction cs arbitrary: n w) (simp_all add: split_beta poll_control_on_view)

lemma region_keeps:
  "keeps w (snd (rdma_register_region v a l d f w))" "keeps w (snd (rdma_deregister_region v key w))"
proof -
  obtain r w1 where r: "rcall (vb_reg_mr v a l (ib_access_flags f)) w = (r, w1)" by fastforce
  have v: "conns_view w1 = conns_view w" by (rule conns_view_prov [OF rcall_prov [OF r]])
  then have "conns_view (snd (rdma_register_region v a l d f w)) = conns_view w"
    by (auto simp: rdma_register_region_def r Let_def split: sum.split) (simp add: conns_view_def)
  then show "keeps w (snd (rdma_register_region v a l d f w))" by (rule keeps_view)
  have "conns_view (snd (rdma_deregister_region v key w)) = conns_view w"
    by (simp add: rdma_deregister_region_def split_beta conns_view_def split: option.split)
  then show "keeps w (snd (rdma_deregister_region v key w))" by (rule keeps_view)
qed

lemma arrivals_keeps: "keeps w (snd (rdma_poll_arrivals n w))"
  by (rule keeps_view) (simp add: rdma_poll_arrivals_def conns_view_def)

lemma control_keeps:
  "keeps w (snd (rdma_send_control os cn t pl w))" "keeps w (snd (rdma_broadcast_control os t pl w))"
  "keeps w (snd (rdma_poll_control os n w))"
  by (rule keeps_view, simp add: rdma_send_control_def rdma_broadcast_control_def rdma_poll_control_def split_beta
      send_control_on_view broadcast_view poll_controls_view split: option.split)+

lemma keepsD: "keeps w (snd p) \<Longrightarrow> p = (a, w') \<Longrightarrow> rdma_inv w \<Longrightarrow> rdma_inv w' \<and> rdma_outstanding w' = rdma_outstanding w"
  by (simp add: keeps_def)

text \<open>Whatever the adapter, the sockets and the clock do, the transport keeps its contract.\<close>

interpretation rdma: transport_provider "rdma_ops os buf p" rdma_inv rdma_outstanding for os buf p
proof
  fix w n s evs w'
  assume "rdma_inv w" "po_poll (rdma_ops os buf p) n w = ((s, evs), w')"
  then show "rdma_inv w' \<and> rdma_outstanding w = mset (map ce_key evs) + rdma_outstanding w'"
    using rdma_poll_spec [of "ro_verbs os" n w s evs w'] by (simp add: rdma_ops_def)
next
  fix w c xs r w'
  assume i: "rdma_inv w" and s: "po_submit (rdma_ops os buf p) c xs w = (r, w')"
  then have "rdma_submit (ro_verbs os) c xs w = (r, w')" by (simp add: rdma_ops_def)
  from rdma_submit_spec [OF this i]
  show "rdma_inv w' \<and> sr_accepted r \<le> length xs \<and> rdma_outstanding w' = rdma_outstanding w + mset (map so_key (take (sr_accepted r) xs))"
    and "sr_accepted r < length xs \<Longrightarrow> sr_status r \<noteq> kOk" by (simp_all add: accepted_keys_def)
qed (simp_all add: rdma_ops_def keepsD [OF region_keeps(1)] keepsD [OF region_keeps(2)] keepsD [OF rdma_connect_keeps]
    keepsD [OF rdma_disconnect_keeps] keepsD [OF control_keeps(1)] keepsD [OF control_keeps(2)] keepsD [OF control_keeps(3)]
    keepsD [OF arrivals_keeps])

section \<open>The handshake\<close>

lemma decode_ep_rt:
  assumes "length (ep_gid e) = 16"
  shows "decode_ep (encode_ep e @ rest) = Some e"
  using assms by (cases e) (simp add: decode_ep_def encode_ep_def codec_rt)

lemma length_encode_ep: "length (ep_gid e) = 16 \<Longrightarrow> length (encode_ep e) = kEpInfoBytes"
  by (simp add: encode_ep_def kEpInfoBytes_def)

lemma decode_eps_rt:
  "list_all (\<lambda>e. length (ep_gid e) = 16) es \<Longrightarrow> decode_eps (length es) (concat (map encode_ep es)) = Some es"
  by (induction es) (simp_all add: decode_ep_rt length_encode_ep)

lemmas recv_all_unfold = rdma_recv_all.simps [of "[]"] rdma_recv_all.simps [of "r # os" for r os]

lemma recv_all_exact: "rdma_recv_all os n got = Some bs \<Longrightarrow> length bs = length got + n"
proof (induction os arbitrary: n got)
  case Nil
  then show ?case by (simp add: recv_all_unfold split: if_splits)
next
  case (Cons r os)
  show ?case
  proof (cases "n = 0")
    case True
    with Cons.prems show ?thesis by (simp add: recv_all_unfold)
  next
    case False
    with Cons.prems obtain b where "rdma_recv_all os (n - length (take n b)) (got @ take n b) = Some bs"
      by (cases r) (simp_all add: recv_all_unfold split: if_splits)
    from Cons.IH [OF this] show ?thesis by simp
  qed
qed

lemma decode_ep_total:
  assumes "34 \<le> length bs"
  shows "\<exists>e. decode_ep bs = Some e"
proof -
  have g: "\<exists>v. get_u32 bs a = Some v" if "a + 4 \<le> length bs" for a
    using get_le_Some [OF that] by (simp add: get_u32_def)
  have h: "\<exists>v. get_u16 bs a = Some v" if "a + 2 \<le> length bs" for a
    using that by (simp add: get_u16_def rd_def)
  from assms h [of 0] h [of 2] g [of 4] h [of 8] g [of 26] g [of 30] show ?thesis by (auto simp: decode_ep_def)
qed

lemma decode_eps_total: "n * kEpInfoBytes \<le> length bs \<Longrightarrow> \<exists>es. decode_eps n bs = Some es"
proof (induction n arbitrary: bs)
  case (Suc n)
  then have "\<exists>e. decode_ep bs = Some e" by (intro decode_ep_total) (simp add: kEpInfoBytes_def)
  moreover have "\<exists>es. decode_eps n (drop kEpInfoBytes bs) = Some es" using Suc by (simp add: kEpInfoBytes_def)
  ultimately show ?case by auto
qed simp

section \<open>Completions drawn while a path is proved\<close>

definition is_transfer :: "wc \<Rightarrow> bool" where
  "is_transfer c \<longleftrightarrow> wc_wr_id c \<noteq> kVerifyWrId \<and> wc_wr_id c AND kRecvWrId = 0"

lemma stash_of_parts [simp]:
  "rp_stashed (rw_prov (stash_completion c w)) = rp_stashed (rw_prov w) @ [c]"
  "rp_stashed (rw_prov (note_verified q st w)) = rp_stashed (rw_prov w)"
  "rp_stashed (rw_prov (absorb_receive v c w)) = rp_stashed (rw_prov w)"
  by (simp_all add: stash_completion_def note_verified_def absorb_receive_def Let_def split: option.split)

lemma verify_done_of_parts [simp]:
  "rp_verify_done (rw_prov (stash_completion c w)) = rp_verify_done (rw_prov w)"
  "rp_verify_done (rw_prov (note_verified q st w)) = (rp_verify_done (rw_prov w))(q \<mapsto> st)"
  "rp_verify_done (rw_prov (absorb_receive v c w)) = rp_verify_done (rw_prov w)"
  by (simp_all add: stash_completion_def note_verified_def absorb_receive_def Let_def split: option.split)

lemma sort_wcs_stash: "rp_stashed (rw_prov (snd (sort_wcs v me cs mine w))) = rp_stashed (rw_prov w) @ filter is_transfer cs"
  by (induction cs arbitrary: mine w) (simp_all add: is_transfer_def)

text \<open>
  What else a batch of completions can hold: answers to the proof of a connection, named by its queue
  pair, and receives, which carry a signal and leave a slot to be filled again.
\<close>

definition answers :: "u32 \<Rightarrow> wc list \<Rightarrow> wc_status list" where
  "answers q cs = map wc_st (filter (\<lambda>c. wc_wr_id c = kVerifyWrId \<and> wc_qp_num c = q) cs)"

definition is_receive :: "wc \<Rightarrow> bool" where
  "is_receive c \<longleftrightarrow> wc_wr_id c \<noteq> kVerifyWrId \<and> wc_wr_id c AND kRecvWrId \<noteq> 0"

definition arrival_of :: "wc \<Rightarrow> peer_arrival option" where
  "arrival_of c = (if is_receive c \<and> wc_st c = WC_SUCCESS then map_option (\<lambda>t. \<lparr>pa_token = t, pa_from = 0\<rparr>) (wc_imm c) else None)"

definition slot_of :: "rdma_prov \<Rightarrow> wc \<Rightarrow> posting option" where
  "slot_of p c =
    (if is_receive c \<and> wc_st c = WC_SUCCESS
     then case rp_conn_by_qp p (wc_qp_num c) of
       None \<Rightarrow> None
     | Some k \<Rightarrow> (case (rc_recv_mr (rp_conns p ! k), rc_qps (rp_conns p ! k)) of
         (Some m, q # _) \<Rightarrow> Some (Armed (qp_num q) m)
       | _ \<Rightarrow> None)
     else None)"

lemma sort_wcs_answer:
  "fst (sort_wcs v me cs mine w) = (if answers me cs = [] then mine else Some (last (answers me cs)))"
  by (induction cs arbitrary: mine w) (simp_all add: answers_def)

lemma sort_wcs_noted:
  "rp_verify_done (rw_prov (snd (sort_wcs v me cs mine w))) q =
   (if q = me \<or> answers q cs = [] then rp_verify_done (rw_prov w) q else Some (last (answers q cs)))"
proof (cases "q = me")
  case True
  have "rp_verify_done (rw_prov (snd (sort_wcs v me cs mine w))) me = rp_verify_done (rw_prov w) me"
    by (induction cs arbitrary: mine w) simp_all
  with True show ?thesis by simp
next
  case False
  then show ?thesis by (induction cs arbitrary: mine w) (simp_all add: answers_def)
qed

lemma arrivals_of_parts [simp]:
  "rp_arrivals (rw_prov (stash_completion c w)) = rp_arrivals (rw_prov w)"
  "rp_arrivals (rw_prov (note_verified q st w)) = rp_arrivals (rw_prov w)"
  "is_receive c \<Longrightarrow> rp_arrivals (rw_prov (absorb_receive v c w)) = rp_arrivals (rw_prov w) @ List.map_filter arrival_of [c]"
  by (simp_all add: stash_completion_def note_verified_def absorb_receive_def arrival_of_def map_filter_simps Let_def split: option.split)

lemma sort_wcs_arrivals:
  "rp_arrivals (rw_prov (snd (sort_wcs v me cs mine w))) = rp_arrivals (rw_prov w) @ List.map_filter arrival_of cs"
proof (induction cs arbitrary: mine w)
  case (Cons c cs)
  then show ?case
    by (cases "is_receive c") (auto simp: map_filter_simps is_receive_def arrival_of_def split: option.split)
qed (simp add: map_filter_simps)

lemma slots_of_parts [simp]:
  "rw_x (stash_completion c w) = rw_x w" "slot_of (rw_prov (stash_completion c w)) = slot_of (rw_prov w)"
  "rw_x (note_verified q st w) = rw_x w" "slot_of (rw_prov (note_verified q st w)) = slot_of (rw_prov w)"
  "slot_of (rw_prov (absorb_receive v c w)) = slot_of (rw_prov w)"
  by (simp_all add: stash_completion_def note_verified_def absorb_receive_def upd_rp_def slot_of_def Let_def fun_eq_iff split: option.split)

lemma absorb_slot:
  "is_receive c \<Longrightarrow> snd (rw_x (absorb_receive (watched v) c w)) = snd (rw_x w) @ List.map_filter (slot_of (rw_prov w)) [c]"
  by (cases "rw_x w") (auto simp: absorb_receive_def slot_of_def map_filter_simps Let_def upd_rp_def rcall_def repost_receive_def
      split: option.split list.split prod.split)

lemma sort_wcs_slots:
  "snd (rw_x (snd (sort_wcs (watched v) me cs mine w))) = snd (rw_x w) @ List.map_filter (slot_of (rw_prov w)) cs"
proof (induction cs arbitrary: mine w)
  case (Cons c cs)
  show ?case
  proof (cases "is_receive c")
    case True
    with Cons show ?thesis by (auto simp: absorb_slot map_filter_simps is_receive_def split: option.split)
  next
    case False
    then have "slot_of (rw_prov w) c = None" by (simp add: slot_of_def)
    with False Cons show ?thesis by (auto simp: map_filter_simps is_receive_def)
  qed
qed (simp add: map_filter_simps)

section \<open>Control messages\<close>

lemma control_type_roundtrip [simp]: "control_type_code (control_type_of_code t) = t"
  by (simp add: control_type_of_code_def)

lemma length_rdma_control_frame [simp]: "length (rdma_control_frame t pl) = 12 + length pl"
  by (simp add: rdma_control_frame_def)

lemma parse_rdma_control_frame:
  assumes "length pl \<le> 65536" "0 < room"
  shows "parse_control c room (rdma_control_frame t pl @ rest) = (case parse_control c (room - 1) rest of (ms, r) \<Rightarrow>
    (\<lparr>cm_peer = 0, cm_type = t, cm_payload = pl, cm_conn = Some c\<rparr> # ms, r))"
proof -
  let ?h = "\<lparr>ch_major = kControlMajor, ch_minor = kControlMinor, ch_type = control_type_of_code t, ch_flags = 0,
    ch_payload_len = word_of_nat (length pl)\<rparr>"
  have n: "unat (word_of_nat (length pl) :: u32) = length pl"
    using assms(1) by (simp add: unat_of_nat take_bit_eq_mod)
  have "decode_control_header (rdma_control_frame t pl @ rest) = accept ?h"
    using n assms(1)
    by (simp add: rdma_control_frame_def decode_control_header_def encode_control_header_def codec_rt word_le_nat_alt not_less)
  moreover have "length pl < 65537" using assms(1) by simp
  ultimately show ?thesis using assms(2) n
    by (subst parse_control.simps) (simp add: rdma_control_frame_def kControlHeaderBytes_def Let_def split_beta)
qed

definition msg_from :: "conn_id \<Rightarrow> u16 \<times> bytes \<Rightarrow> control_message" where
  "msg_from c m = \<lparr>cm_peer = 0, cm_type = fst m, cm_payload = snd m, cm_conn = Some c\<rparr>"

lemma parse_control_stop: "room = 0 \<or> length rx < 12 \<Longrightarrow> parse_control c room rx = ([], rx)"
  by (subst parse_control.simps) (auto simp: kControlHeaderBytes_def)

section \<open>Properties\<close>

text \<open>
  (C6) Whatever the adapter reports, every operation the RDMA transport accepts is reported at most
  once and none is invented: over any run of submissions and polls, what was accepted is what was
  reported and what is still on a queue pair.
\<close>

theorem rdma_completion_conservation:
  assumes "rdma_inv w" "provider_run (rdma_ops os buf p) cs w = (accepted, reported, w')"
  shows "rdma_outstanding w + mset accepted = mset reported + rdma_outstanding w'"
  using rdma.run_conserves [OF assms] by simp

text \<open>An environment for the small instance: nothing arrives, everything is taken.\<close>

definition easy_os :: "unit rdma_os" where
  "easy_os = \<lparr>ro_verbs = easy_verbs, ro_inet_pton = (\<lambda>s. None), ro_socket = (\<lambda>x. (5, x)), ro_connect = (\<lambda>s a p x. (True, x)),
     ro_close = (\<lambda>s x. ((), x)), ro_sends = (\<lambda>s x. ([], x)), ro_recvs = (\<lambda>s x. ([], x)), ro_turns = (\<lambda>t x. (1, x)),
     ro_create_qp = (\<lambda>a x. (Some 7, x)), ro_destroy_qp = (\<lambda>q x. ((), x)), ro_modify_qp = (\<lambda>q a x. (0, x)),
     ro_connect_ooo_rw = (\<lambda>q m x. (kOk, x)), ro_lid = 1, ro_gid = replicate 16 0, ro_active_mtu = 5, ro_ethernet = True,
     ro_ooo_rw = False, ro_hop_limit = 64, ro_log_max_msg = 30, ro_device_name = ''mlx5_0'', ro_nic_proximity = ''unknown'',
     ro_ooo_why = ''off'', ro_show_double = (\<lambda>r. ''0'')\<rparr>"

theorem rdma_completion_conservation_witness:
  "\<exists>w'. provider_run (rdma_ops easy_os 4096 (rw_prov (small_world []))) [CallPoll 4] (busy_world\<lparr>rw_prov := (rw_prov busy_world)
      \<lparr>rp_stashed := [done_wc 1]\<rparr>\<rparr>) = ([], [(1, 10), (1, 11)], w') \<and> rdma_outstanding w' = {#(1, 12)#}"
proof -
  let ?w = "busy_world\<lparr>rw_prov := (rw_prov busy_world)\<lparr>rp_stashed := [done_wc 1]\<rparr>\<rparr>"
  have i: "make_wr_id 0 1 \<noteq> kVerifyWrId" "make_wr_id 0 1 AND kRecvWrId = 0" "wr_qp_index (make_wr_id 0 1) = 0" "wr_seq (make_wr_id 0 1) = 1"
    using wr_id_parts [of 0 1] by simp_all
  obtain w' where r: "provider_run (rdma_ops easy_os 4096 (rw_prov (small_world []))) [CallPoll 4] ?w = ([], [(1, 10), (1, 11)], w')"
    by (simp add: rdma_ops_def rdma_poll_def Let_def drain_cq_def easy_os_def handle_wc_def i easy_verbs_def rcall_def busy_world_def
        small_world_def small_conn_def busy_qp_def busy_key_def done_wc_def retired_def event_of_def ce_key_def upd_rc_def upd_rp_def
        word_le_nat_alt)
  moreover have "rdma_inv ?w" by (simp add: rdma_inv_def busy_world_def small_world_def)
  moreover have "rdma_outstanding ?w = {#(1, 10), (1, 11), (1, 12)#}"
    by (simp add: rdma_outstanding_def conn_keys_def qp_keys_def ik_key_def busy_world_def small_world_def small_conn_def busy_qp_def busy_key_def)
  ultimately show ?thesis using rdma_completion_conservation [of ?w easy_os 4096 "rw_prov (small_world [])" "[CallPoll 4]" "[]" "[(1, 10), (1, 11)]" w']
    by simp
qed

text \<open>
  (C25) A connection that proves its path draws from the completion queue it shares with all others, and
  loses nothing of what it draws. What belongs to transfers is stashed, in order, for the next poll. Each
  receive that succeeded has its signal queued as an arrival and its slot filled again on the connection
  it came from. An answer to another connection's proof is left for that connection, the latest if there
  are several, and the latest answer to its own is the result. What is outstanding does not change.
\<close>

theorem rdma_verify_hands_on:
  "case sort_wcs (watched v) me cs mine w of (result, w') \<Rightarrow>
     rp_stashed (rw_prov w') = rp_stashed (rw_prov w) @ filter is_transfer cs \<and>
     rp_arrivals (rw_prov w') = rp_arrivals (rw_prov w) @ List.map_filter arrival_of cs \<and>
     snd (rw_x w') = snd (rw_x w) @ List.map_filter (slot_of (rw_prov w)) cs \<and>
     (\<forall>q. rp_verify_done (rw_prov w') q =
        (if q = me \<or> answers q cs = [] then rp_verify_done (rw_prov w) q else Some (last (answers q cs)))) \<and>
     result = (if answers me cs = [] then mine else Some (last (answers me cs))) \<and>
     rdma_outstanding w' = rdma_outstanding w"
proof -
  obtain result w' where s: "sort_wcs (watched v) me cs mine w = (result, w')" by fastforce
  have w': "w' = snd (sort_wcs (watched v) me cs mine w)" and r: "result = fst (sort_wcs (watched v) me cs mine w)"
    by (simp_all add: s)
  have "rdma_outstanding w' = rdma_outstanding w" unfolding w' by (rule conns_viewD(1) [OF sort_wcs_view])
  then show ?thesis
    unfolding s prod.case unfolding w' r
    by (simp add: sort_wcs_stash sort_wcs_arrivals sort_wcs_slots sort_wcs_noted sort_wcs_answer)
qed

text \<open>
  Control messages come out of the byte stream as they went in: from frames written one after
  the other, with part of another behind them, the parser gives the messages in order, up to what it
  was asked for, and keeps the rest of the bytes.
\<close>

theorem rdma_control_in_order:
  assumes "list_all (\<lambda>m. length (snd m) \<le> 65536) msgs" "length rest < 12"
  shows "parse_control c room (concat (map (\<lambda>m. rdma_control_frame (fst m) (snd m)) msgs) @ rest) =
    (map (msg_from c) (take room msgs), concat (map (\<lambda>m. rdma_control_frame (fst m) (snd m)) (drop room msgs)) @ rest)"
  using assms(1)
proof (induction msgs arbitrary: room)
  case Nil
  then show ?case using assms(2) by (simp add: parse_control_stop)
next
  case (Cons m msgs)
  show ?case
  proof (cases room)
    case 0
    then show ?thesis by (simp add: parse_control_stop)
  next
    case (Suc r)
    with Cons show ?thesis by (simp add: parse_rdma_control_frame msg_from_def)
  qed
qed

theorem rdma_control_in_order_witness:
  "parse_control 3 1 (rdma_control_frame 2 [7] @ rdma_control_frame 9 [] @ [1, 2]) =
     ([\<lparr>cm_peer = 0, cm_type = 2, cm_payload = [7], cm_conn = Some 3\<rparr>], rdma_control_frame 9 [] @ [1, 2])"
  using rdma_control_in_order [of "[(2, [7]), (9, [])]" "[1, 2]" 3 1] by (simp add: msg_from_def)

section \<open>Completions dropped and a socket closed twice\<close>

text \<open>
  \<open>drain\<close> polls into a vector of its own: here it says that all is done, and the completions of three
  operations are gone without anyone having been told.
\<close>

lemma rdma_drain_discards:
  "\<exists>w'. rdma_drain easy_os 0 0 (upd_rp (\<lambda>p. p\<lparr>rp_stashed := [done_wc 2]\<rparr>) busy_world) = Some (kOk, w') \<and>
     rdma_outstanding (upd_rp (\<lambda>p. p\<lparr>rp_stashed := [done_wc 2]\<rparr>) busy_world) = {#(1, 10), (1, 11), (1, 12)#} \<and> rdma_outstanding w' = {#}"
proof -
  have i: "make_wr_id 0 2 \<noteq> kVerifyWrId" "make_wr_id 0 2 AND kRecvWrId = 0" "wr_qp_index (make_wr_id 0 2) = 0" "wr_seq (make_wr_id 0 2) = 2"
    using wr_id_parts [of 0 2] by simp_all
  show ?thesis
    by (simp add: rdma_drain_def conn_ptr_def rdma_drain_loop.simps rdma_poll_def Let_def drain_cq_def easy_os_def handle_wc_def i easy_verbs_def
        rcall_def busy_world_def small_world_def small_config_def small_conn_def busy_qp_def busy_key_def done_wc_def retire_upto_def
        conn_keys_def qp_keys_def ik_key_def rdma_outstanding_def upd_rc_def upd_rp_def word_le_nat_alt)
qed

text \<open>
  A connection that fails after it was given the socket closes it as it is destroyed; \<open>connect\<close> and
  \<open>accept\<close> close the descriptor of every failed connection, this one included. The state of the
  environment is what was closed.
\<close>

definition tracing_os :: "int list rdma_os" where
  "tracing_os = \<lparr>ro_verbs = \<lparr>vb_post_send = (\<lambda>q r x. (0, x)), vb_post_recv = (\<lambda>q m x. (0, x)), vb_poll_cq = (\<lambda>n x. (Some [], x)),
       vb_reg_mr = (\<lambda>a l f x. (Inl 12, x)), vb_dereg_mr = (\<lambda>m x. (0, x)), vb_now = (\<lambda>x. (0, x)), vb_enomem = 12\<rparr>,
     ro_inet_pton = (\<lambda>s. Some 1), ro_socket = (\<lambda>x. (5, x)), ro_connect = (\<lambda>s a p x. (True, x)),
     ro_close = (\<lambda>s x. ((), x @ [s])), ro_sends = (\<lambda>s x. ([Sent 1000], x)),
     ro_recvs = (\<lambda>s x. ([], x)), ro_turns = (\<lambda>t x. (1, x)),
     ro_create_qp = (\<lambda>a x. (Some 7, x)), ro_destroy_qp = (\<lambda>q x. ((), x)), ro_modify_qp = (\<lambda>q a x. (0, x)),
     ro_connect_ooo_rw = (\<lambda>q m x. (kOk, x)), ro_lid = 1, ro_gid = replicate 16 0, ro_active_mtu = 5, ro_ethernet = True,
     ro_ooo_rw = False, ro_hop_limit = 64, ro_log_max_msg = 30, ro_device_name = ''mlx5_0'', ro_nic_proximity = ''unknown'',
     ro_ooo_why = ''off'', ro_show_double = (\<lambda>r. ''0'')\<rparr>"

lemma rdma_failed_connection_closes_socket:
  "fst (finish_connection tracing_os 4096 5 False [7] \<lparr>rw_x = [], rw_prov = rw_prov (small_world [])\<rparr>) = Inl kDeviceError"
  "rw_x (rdo (ro_close tracing_os 5)
     (snd (finish_connection tracing_os 4096 5 False [7] \<lparr>rw_x = [], rw_prov = rw_prov (small_world [])\<rparr>))) = [5, 5]"
  by (simp_all add: finish_connection_def install_conn_def arm_receives_def destroy_conn_def register_conn_def forget_conn_def
      new_rdma_conn_def new_queue_pair_def Let_def rcall_def rdo_def upd_rp_def upd_rc_def tracing_os_def small_world_def small_conn_def)

end
