(* ===== verification/Spec2Isabelle.thy ===== *)
theory Spec2Isabelle
  imports Hux_CC Hux_Outbox Hux_Ledger Hux_Closing Hux_IpcWire Hux_RdmaLaws
begin

text \<open>
  HUX moves bytes between the registered memory of engines: in one process, between processes of a host, and
  between hosts. An engine (src/core) admits requests, cuts them into sub-operations, hands those to
  transports (src/transport), collects their completions and ends each request once. It owns the
  registrations of memory and the peers, and talks to the engines of its peers over control messages
  (src/control). This development models that program, definition by definition after its functions, and
  proves what its parts promise each other and what an application can rely on.

  \<^bold>\<open>Conventions.\<close> Integers of the source keep their width as words and wrap as there. A
  struct or a class is a record with the fields of the source, under a prefix. A method is one function on
  the state, and a run is a sequence of whole methods. That is what the source's mutexes give where a method
  holds one throughout. Some methods of the engine take theirs several times: of these, submitting is in two
  parts (\<open>submit_check\<close>, \<open>submit_admitted\<close>) and the second is also a step on its
  own, so that other calls can come between the look at the limit and the entry of the request; the posting
  of sub-operations (\<open>post_ops\<close>) is part of the call that posts, and what another thread could
  do inside it is not modelled. A status is an error value: \<open>Inl s\<close> in a result, or part of the
  answer. A read of a byte buffer is option-valued, and \<open>None\<close> is a read outside of it. Code
  outside the repository (kernel, verbs, device runtimes, clock) is a record of arbitrary functions over a
  state of its own, or a list of the answers it gives; theorems hold for all of them. Doubles are reals.

  \<^bold>\<open>Vocabulary.\<close> Hux_Prelude (buffers, the little-endian codec, lemmas on words and
  lists), Hux_Types and Hux_Config (include/hux, core/strings.cpp: enumerations, configuration, validation,
  reports), Hux_Control (control/identity, control/control_message: who a peer is, the codecs of control
  messages).

  \<^bold>\<open>Components.\<close>
  \<^item> Hux_Request (core/request_impl): the state of a request. Its stages agree with its state, an
    ended request never changes, and of all who may end it exactly one does.
  \<^item> Hux_Region (core/region_impl): descriptors and registrations. Export and import are inverse, the
    decoder stays in its buffer, and a cut descriptor is refused at every length but one.
  \<^item> Hux_Outbox (transport/control_outbox): the queue in front of a control socket. What is on the
    wire is whole messages in order, and everything queued goes out once the socket takes it.
  \<^item> Hux_CC (transport/cc): the three controllers and the locale \<open>congestion_controller\<close>
    they are interpreted in: what is charged is released, the window is kept, the adaptive rate stays in
    bounds.
  \<^item> Hux_Provider (transport/provider.h): the virtual functions as the record
    \<open>provider_ops\<close>, and the contract as the locale \<open>transport_provider\<close>: what a
    transport accepted is what it reported and what it still holds.
  \<^item> Hux_Local (transport/local), Hux_Ipc with Hux_IpcWire (transport/ipc), and Hux_Rdma,
    Hux_RdmaFlow, Hux_RdmaCtl with Hux_RdmaLaws (transport/rdma): three transports, each an interpretation
    of \<open>transport_provider\<close> on its own operations, for any kernel, driver and adapter.

  \<^bold>\<open>Transports.\<close> In one process, a submit moves exactly the bytes of the operations it
  accepts, on the peer's side inside what is published; overlapping ranges are copied as if at once, where
  the source's memcpy leaves it open. Between processes, an accepted transfer is inside what the peer has
  published; the framed stream gives the same messages however it is cut, in order; a length field that
  makes the size check wrap leaves the buffer; and a transport whose peer went does not serve another,
  whatever is called on it. Over RDMA, a send queue is never overfilled, the work requests an adapter is
  handed by a batch it does not refuse end with a signalled one on every queue pair used
  (\<open>watched\<close> writes down what any adapter is handed), a completion retires exactly what was
  posted up to it, the controller holds exactly the bytes that are in flight, and a connection that proves
  its path hands on every completion it draws, receives included. A post that is refused leaves operations
  unsignalled, a connection that fails late closes its socket twice, and \<open>drain\<close> drops
  completions: these are stated beside the properties in Hux_RdmaFlow and Hux_RdmaLaws.

  \<^bold>\<open>Engine.\<close> Hux_State holds the state (core/engine_impl.h), Hux_Subops, Hux_Engine,
  Hux_Registry and Hux_Peers its operations (core/engine_impl.cpp): cutting a transfer up, admission,
  posting, completion, notifications, departed peers and closing; registering memory and the registration
  cache; metadata, adding peers, importing regions. Sub-operations cover the transfer exactly, and each is
  one its lane can carry. A peer is reached over the first transport that can reach it, and an imported
  region has the key of its first lane. Hux_Invariant states the invariant over any transports that keep the
  contract; Hux_Steps, Hux_Ends, Hux_Run, Hux_Regs and Hux_Evolve show that every method keeps it; Hux_Reach
  makes the engine a state machine whose steps are its public methods and moves of the environment, in the
  locale \<open>engine_transports\<close>, and Hux_Demo interprets it on in-process transports and works an
  example through.

  \<^bold>\<open>Guarantees.\<close> For every reachable state: an ended request has nothing left with a
  transport; a request in flight is served by someone; memory under transfer is registered; a registration
  is released once, when nothing refers to it; requests are accounted for; the queues the application polls
  stay within their bounds, the number in flight not being among them (Hux_Guarantees); closing leaves
  nothing but what departed peers never answered, eviction takes the oldest unused (Hux_Closing). Hux_Ledger
  gives the abstract machine, in which a request is opened once and ended once, and shows that every step of
  the engine is a step of it or leaves it alone; a region that was deregistered is not used again.

  \<^bold>\<open>Bounds and fuel.\<close> Loops that run until a deadline (closing, waiting for an
  acknowledgement, proving a path) take the number of turns the clock allows, which is arbitrary;
  \<open>accept\<close> and \<open>drain\<close> without a deadline are option-valued, with
  \<open>None\<close> for a wait that has not ended; \<open>rdma_ops\<close>, whose interface has a
  deadline, reports it as \<open>kTimeout\<close>. All other recursions are on lists or have a termination
  proof. Counters that could wrap only after \<open>2 ^ 48\<close> posts on a queue pair, or \<open>2 ^
  64\<close> bytes in flight, are bounded by hypotheses of the theorems that need it.

  \<^bold>\<open>Not modelled.\<close> The choice of an adapter in RdmaProvider::open_device with
  device/topology, the mlx5 commands (bit layouts executed by the device; what they answer is an argument),
  the UCX transport (calls into UCP), the vendors' device backends (calls into runtimes that are not in the
  repository), host memory allocation, the mock transport of the tests, the Python bindings, tools and
  benchmarks. The progress thread is a caller of \<open>progress\<close> like any other. Memory ordering
  inside a method is the mutexes' business and not shown. An RDMA connection that was handed out is never
  destroyed.
\<close>

end
